(* ===== verification/Opsentry_Prelude.thy ===== *)
theory Opsentry_Prelude
  imports Main "HOL-Library.Word" "HOL-Library.AList" "HOL-Library.Multiset"
begin

text \<open>
  The vocabulary the component theories share: the fixed-width types of the Go source, byte
  arrays and their big-endian and hexadecimal encodings, Go's built-in map with the contract the
  components rely on, and Go's instants and durations.

  A Go \<open>uint64\<close> is a 64-bit word, \<open>[32]byte\<close> a 256-bit word and \<open>[20]byte\<close> a 160-bit word, both
  read big-endian, so that a fixed-length array has its length by type. A byte slice is a list of
  8-bit words, a Go string (a byte sequence) a list of characters.
\<close>

type_synonym byte = "8 word"
type_synonym bytes = "byte list"
type_synonym u64 = "64 word"
type_synonym bytes32 = "256 word"
type_synonym bytes20 = "160 word"
type_synonym err = string

named_theorems encode_simps \<open>rewrite rules of the byte, hexadecimal and time encodings\<close>
named_theorems gomap_simps \<open>rewrite rules of Go's built-in map\<close>

section \<open>Byte arrays\<close>

text \<open>The big-endian bytes of a word, and the word that a byte sequence spells.\<close>

primrec be_bytes :: "nat \<Rightarrow> 'a::len word \<Rightarrow> bytes" where
  "be_bytes 0 w = []"
| "be_bytes (Suc n) w = be_bytes n (drop_bit 8 w) @ [ucast w]"

definition be_nat :: "bytes \<Rightarrow> nat" where
  "be_nat bs = foldl (\<lambda>a b. a * 256 + unat b) 0 bs"

text \<open>\<open>copy(a[:], b)\<close> into a zeroed array of \<open>n\<close> bytes: surplus bytes are dropped, missing ones
  stay zero.\<close>

definition copy_into :: "nat \<Rightarrow> bytes \<Rightarrow> bytes" where
  "copy_into n bs = take n bs @ replicate (n - length bs) 0"

definition hex_digit :: "nat \<Rightarrow> char" where
  "hex_digit n = ''0123456789abcdef'' ! (n mod 16)"

definition hex_encode :: "bytes \<Rightarrow> string" where
  "hex_encode bs = concat (map (\<lambda>b. [hex_digit (unat b div 16), hex_digit (unat b mod 16)]) bs)"

definition string_bytes :: "string \<Rightarrow> bytes" where
  "string_bytes s = map of_char s"

definition bytes_string :: "bytes \<Rightarrow> string" where
  "bytes_string bs = map (\<lambda>b. char_of (unat b)) bs"

lemma unat_bound: "unat (w :: 'a::len word) < 2 ^ LENGTH('a)"
  by (rule unsigned_less)

lemma unat_inc: "(n :: u64) < m \<Longrightarrow> unat (n + 1) = Suc (unat n)"
  using unat_bound [of m] by (simp add: unat_word_ariths word_less_nat_alt)

text \<open>Evaluation of concrete comparisons.\<close>

lemma numeral_le_one [simp]: "(numeral n :: u64) \<le> 1 \<longleftrightarrow> unat (numeral n :: u64) \<le> 1"
  by (simp add: word_le_nat_alt)

abbreviation max_u64 :: u64 where
  "max_u64 \<equiv> - 1"

lemma unat_inc_max: "n \<noteq> max_u64 \<Longrightarrow> unat (n + 1) = Suc (unat n)"
  by (rule unat_inc [of _ max_u64]) (simp add: order.strict_iff_order)

lemma le_ne_max: "n \<le> m \<Longrightarrow> m \<noteq> max_u64 \<Longrightarrow> n \<noteq> max_u64"
  by (metis order_antisym word_n1_ge)

lemma unat_dec: "0 < (n :: u64) \<Longrightarrow> Suc (unat (n - 1)) = unat n"
  by (simp add: unat_sub word_le_nat_alt word_less_nat_alt)

lemma unat_monus: "unat (if (n :: u64) \<le> d then 0 else n - d) = unat n - unat d"
  by (simp add: unat_sub word_le_nat_alt)

lemma length_be_bytes [simp, encode_simps]: "length (be_bytes n w) = n"
  by (induction n arbitrary: w) auto

lemma be_nat_snoc [encode_simps]: "be_nat (bs @ [b]) = be_nat bs * 256 + unat b"
  by (simp add: be_nat_def)

lemma be_nat_Nil [simp]: "be_nat [] = 0"
  by (simp add: be_nat_def)

lemma be_nat_be_bytes [encode_simps]:
  fixes w :: "'a::len word"
  shows "8 \<le> LENGTH('a) \<Longrightarrow> be_nat (be_bytes n w) = unat w mod 256 ^ n"
proof (induction n arbitrary: w)
  case 0
  then show ?case by simp
next
  case (Suc n)
  have b: "unat (ucast w :: byte) = unat w mod 256"
    by (simp add: unsigned_ucast_eq take_bit_eq_mod)
  have d: "unat (drop_bit 8 w) = unat w div 256"
    by (subst unat_drop_bit_eq) (simp add: drop_bit_eq_div)
  have "be_nat (be_bytes (Suc n) w) = (unat w div 256 mod 256 ^ n) * 256 + unat w mod 256"
    using Suc by (simp add: be_nat_snoc b d)
  also have "\<dots> = unat w mod (256 * 256 ^ n)"
    by (simp only: mod_mult2_eq [of "unat w" 256 "256 ^ n"] mult.commute)
  finally show ?case by simp
qed

text \<open>A word is recovered from its bytes whenever the width is that many bytes.\<close>

lemma of_nat_be_nat_be_bytes:
  fixes w :: "'a::len word"
  assumes "LENGTH('a) = 8 * n" and "0 < n"
  shows "of_nat (be_nat (be_bytes n w)) = w"
proof -
  have "unat w < 256 ^ n"
    using unat_bound [of w] by (simp add: assms(1) power_mult)
  then show ?thesis
    using assms by (simp add: be_nat_be_bytes)
qed

lemma be_bytes_inject:
  fixes v w :: "'a::len word"
  assumes "LENGTH('a) = 8 * n" and "0 < n"
  shows "be_bytes n v = be_bytes n w \<longleftrightarrow> v = w"
  by (metis assms of_nat_be_nat_be_bytes)

lemma be_bytes_64_inject [simp]: "be_bytes 8 (v :: u64) = be_bytes 8 w \<longleftrightarrow> v = w"
  by (rule be_bytes_inject) auto

lemma be_bytes_160_inject [simp]: "be_bytes 20 (v :: bytes20) = be_bytes 20 w \<longleftrightarrow> v = w"
  by (rule be_bytes_inject) auto

lemma be_bytes_256_inject [simp]: "be_bytes 32 (v :: bytes32) = be_bytes 32 w \<longleftrightarrow> v = w"
  by (rule be_bytes_inject) auto

lemma copy_into_exact [simp, encode_simps]: "length bs = n \<Longrightarrow> copy_into n bs = bs"
  by (simp add: copy_into_def)

lemma length_copy_into [simp]: "length (copy_into n bs) = n"
  by (simp add: copy_into_def)

lemma hex_digit_inject: "m < 16 \<Longrightarrow> n < 16 \<Longrightarrow> hex_digit m = hex_digit n \<longleftrightarrow> m = n"
proof -
  have "distinct ''0123456789abcdef''" by simp
  then show "m < 16 \<Longrightarrow> n < 16 \<Longrightarrow> hex_digit m = hex_digit n \<longleftrightarrow> m = n"
    by (simp add: hex_digit_def nth_eq_iff_index_eq)
qed

lemma hex_byte_inject:
  fixes a b :: byte
  shows "hex_digit (unat a div 16) = hex_digit (unat b div 16) \<and>
         hex_digit (unat a mod 16) = hex_digit (unat b mod 16) \<longleftrightarrow> a = b"
proof -
  have "unat a div 16 < 16" "unat b div 16 < 16"
    using unat_bound [of a] unat_bound [of b] by auto
  then have "?thesis \<longleftrightarrow> (unat a div 16 = unat b div 16 \<and> unat a mod 16 = unat b mod 16 \<longleftrightarrow> a = b)"
    by (simp add: hex_digit_inject)
  moreover have "unat a div 16 = unat b div 16 \<and> unat a mod 16 = unat b mod 16 \<longleftrightarrow> unat a = unat b"
    by (metis div_mult_mod_eq)
  ultimately show ?thesis by (simp add: word_unat_eq_iff)
qed

lemma length_hex_encode [simp, encode_simps]: "length (hex_encode bs) = 2 * length bs"
  by (induction bs) (auto simp: hex_encode_def)

lemma hex_encode_Cons:
  "hex_encode (b # bs) = hex_digit (unat b div 16) # hex_digit (unat b mod 16) # hex_encode bs"
  by (simp add: hex_encode_def)

lemma hex_encode_Nil [simp]: "hex_encode [] = []"
  by (simp add: hex_encode_def)

lemma hex_encode_inject [simp]: "hex_encode as = hex_encode bs \<longleftrightarrow> as = bs"
proof (induction as arbitrary: bs)
  case Nil
  then show ?case by (cases bs) (auto simp: hex_encode_Cons)
next
  case (Cons a as)
  then show ?case
  proof (cases bs)
    case Nil
    then show ?thesis by (simp add: hex_encode_Cons)
  next
    case (Cons b bs')
    with Cons.IH show ?thesis
      using hex_byte_inject [of a b] by (auto simp: hex_encode_Cons)
  qed
qed

lemma unat_of_char: "unat (of_char c :: byte) = of_char c"
proof -
  have "(of_char c :: byte) = word_of_nat (of_char c)" by (simp add: of_nat_of_char)
  moreover have "(of_char c :: nat) < 256" by simp
  ultimately show ?thesis by (simp add: unat_of_nat)
qed

lemma bytes_string_inverse [simp]: "bytes_string (string_bytes s) = s"
  by (simp add: bytes_string_def string_bytes_def unat_of_char comp_def)

lemma string_bytes_inject [simp]: "string_bytes s = string_bytes t \<longleftrightarrow> s = t"
  by (metis bytes_string_inverse)

section \<open>Go maps\<close>

text \<open>
  A Go map is an association list, so that \<open>range\<close> has entries to iterate over: reading is
  \<open>map_of\<close>, assignment \<open>AList.update\<close>, \<open>delete\<close> is \<open>AList.delete\<close>, and a loop that deletes the
  keys failing a test keeps the rest. The iteration order of Go is unspecified; nothing below
  depends on the order of the list.
\<close>

type_synonym ('k, 'v) gomap = "('k \<times> 'v) list"

definition gm_put :: "'k \<Rightarrow> 'v \<Rightarrow> ('k, 'v) gomap \<Rightarrow> ('k, 'v) gomap" where
  "gm_put = AList.update"

definition gm_del :: "'k \<Rightarrow> ('k, 'v) gomap \<Rightarrow> ('k, 'v) gomap" where
  "gm_del = AList.delete"

definition gm_keep :: "('k \<Rightarrow> bool) \<Rightarrow> ('k, 'v) gomap \<Rightarrow> ('k, 'v) gomap" where
  "gm_keep P m = filter (\<lambda>e. P (fst e)) m"

lemma find_snoc:
  "find P (as @ [a]) = (case find P as of None \<Rightarrow> if P a then Some a else None | Some b \<Rightarrow> Some b)"
  by (induction as) auto

text \<open>The contract of a map: what is read after an assignment, a deletion, a deleting loop.\<close>

locale go_map =
  fixes get :: "'m \<Rightarrow> 'k \<Rightarrow> 'v option"
    and put :: "'k \<Rightarrow> 'v \<Rightarrow> 'm \<Rightarrow> 'm"
    and del :: "'k \<Rightarrow> 'm \<Rightarrow> 'm"
    and keep :: "('k \<Rightarrow> bool) \<Rightarrow> 'm \<Rightarrow> 'm"
  assumes get_put: "get (put k v m) = (get m)(k \<mapsto> v)"
    and get_del: "get (del k m) = (get m)(k := None)"
    and get_keep: "get (keep P m) k = (if P k then get m k else None)"
begin

text \<open>Assigning a list of values, each under its own key, later ones winning.\<close>

lemma get_fold_put:
  "get (fold (\<lambda>x. put (key x) (val x)) xs m) k =
     (case find (\<lambda>x. key x = k) (rev xs) of Some x \<Rightarrow> Some (val x) | None \<Rightarrow> get m k)"
proof (induction xs arbitrary: m)
  case Nil
  then show ?case by simp
next
  case (Cons x xs)
  then show ?case
    by (simp add: get_put find_snoc split: option.splits)
qed

lemma get_fold_put_other:
  "k \<notin> key ` set xs \<Longrightarrow> get (fold (\<lambda>x. put (key x) (val x)) xs m) k = get m k"
  by (induction xs arbitrary: m) (auto simp: get_put)

lemma get_fold_put_distinct:
  "distinct (map key xs) \<Longrightarrow> x \<in> set xs \<Longrightarrow>
     get (fold (\<lambda>x. put (key x) (val x)) xs m) (key x) = Some (val x)"
proof (induction xs arbitrary: m)
  case Nil
  then show ?case by simp
next
  case (Cons y ys)
  show ?case
  proof (cases "x = y")
    case True
    with Cons.prems have "key x \<notin> key ` set ys" by auto
    with True show ?thesis by (simp add: get_fold_put_other get_put)
  next
    case False
    with Cons show ?thesis by simp
  qed
qed

lemma dom_fold_put: "dom (get (fold (\<lambda>x. put (key x) (val x)) xs m)) = dom (get m) \<union> key ` set xs"
  by (induction xs arbitrary: m) (auto simp: get_put)

end

lemma map_of_gm_keep [gomap_simps]: "map_of (gm_keep P m) k = (if P k then map_of m k else None)"
  by (induction m) (auto simp: gm_keep_def)

interpretation gm: go_map map_of gm_put gm_del gm_keep
  by unfold_locales (auto simp: gm_put_def gm_del_def update_conv' delete_conv' map_of_gm_keep)

lemmas [gomap_simps] = gm.get_put gm.get_del

text \<open>The keys of the entries are the domain of the map, so a loop over the entries may be read
  as a quantifier over the domain.\<close>

lemma list_ex_keys [gomap_simps]: "list_ex (\<lambda>(k, v). P k) m \<longleftrightarrow> (\<exists>k \<in> dom (map_of m). P k)"
  by (force simp: list_ex_iff dom_map_of_conv_image_fst)

section \<open>Instants and durations\<close>

text \<open>
  A \<open>time.Time\<close> is the number of nanoseconds since Go's zero instant (January 1 of year 1), so the
  zero value is 0; a \<open>time.Duration\<close> is a number of nanoseconds. \<open>Sub\<close> saturates at the bounds of
  \<open>int64\<close>, as the standard library's does.
\<close>

type_synonym gotime = int
type_synonym duration = int

definition second :: duration where
  "second = 1000000000"

definition unix_to_internal :: int where
  "unix_to_internal = 62135596800"

definition time_Unix :: "int \<Rightarrow> gotime" where
  "time_Unix sec = (sec + unix_to_internal) * second"

definition unix_of :: "gotime \<Rightarrow> int" where
  "unix_of t = t div second - unix_to_internal"

definition time_IsZero :: "gotime \<Rightarrow> bool" where
  "time_IsZero t \<longleftrightarrow> t = 0"

definition time_Sub :: "gotime \<Rightarrow> gotime \<Rightarrow> duration" where
  "time_Sub t u = max (- (2 ^ 63)) (min (2 ^ 63 - 1) (t - u))"

lemma unix_of_time_Unix [simp, encode_simps]: "unix_of (time_Unix s) = s"
  by (simp add: unix_of_def time_Unix_def second_def)

lemma time_Unix_unix_of: "time_Unix (unix_of t) = t \<longleftrightarrow> second dvd t"
  by (simp add: unix_of_def time_Unix_def) (metis dvd_div_mult_self dvd_triv_right)

lemma time_Sub_less: "d \<le> 2 ^ 63 - 1 \<Longrightarrow> - (2 ^ 63) < d \<Longrightarrow> time_Sub t u < d \<longleftrightarrow> t - u < d"
  by (auto simp: time_Sub_def)

section \<open>Decimal numbers\<close>

text \<open>\<open>fmt\<close>'s \<open>%d\<close> on integers.\<close>

fun dec_nat :: "nat \<Rightarrow> string" where
  "dec_nat n = (if n < 10 then [hex_digit n] else dec_nat (n div 10) @ [hex_digit (n mod 10)])"

declare dec_nat.simps [simp del]

definition dec_int :: "int \<Rightarrow> string" where
  "dec_int i = (if i < 0 then CHR ''-'' # dec_nat (nat (- i)) else dec_nat (nat i))"

lemma dec_nat_inject [simp]: "dec_nat m = dec_nat n \<longleftrightarrow> m = n"
proof (induction m arbitrary: n rule: dec_nat.induct)
  case (1 m)
  have ne: "dec_nat k \<noteq> []" for k by (subst dec_nat.simps) simp
  show ?case
  proof (cases "m < 10 \<or> n < 10")
    case True
    then show ?thesis
      using ne [of "m div 10"] ne [of "n div 10"] hex_digit_inject [of m n]
      by (subst dec_nat.simps, subst (2) dec_nat.simps) (auto split: if_splits)
  next
    case False
    then have "dec_nat m = dec_nat n \<longleftrightarrow> m div 10 = n div 10 \<and> m mod 10 = n mod 10"
      using 1 hex_digit_inject [of "m mod 10" "n mod 10"]
      by (subst dec_nat.simps, subst (2) dec_nat.simps) auto
    also have "\<dots> \<longleftrightarrow> m = n" by (metis div_mult_mod_eq)
    finally show ?thesis .
  qed
qed

end
