(* ===== verification/Pipeline.thy ===== *)
theory Pipeline
  imports Opsentry_Prelude
begin

text \<open>
  The data that flows through the pipeline (\<open>internal/pipeline/types.go\<close>) and the environments
  that rule expressions and message templates read (\<open>internal/pipeline/env.go\<close>): blocks, logs,
  decoded events, rule matches and alerts, and the nested string-keyed maps built from them.
\<close>

section \<open>Blocks, logs, events, matches, alerts\<close>

record blockref =
  bChain :: string
  bNumber :: u64
  bHash :: bytes32
  bParentHash :: bytes32
  bTime :: gotime

text \<open>The zero value of the struct, which Go yields for a missing map entry.\<close>

definition zero_block :: blockref where
  "zero_block = \<lparr>bChain = [], bNumber = 0, bHash = 0, bParentHash = 0, bTime = 0\<rparr>"

text \<open>\<open>uint\<close> and \<open>int\<close> are 64 bits wide; the rule index, an \<open>int\<close>, is kept as its bit pattern.\<close>

record log =
  lChain :: string
  lBlock :: blockref
  lTxHash :: bytes32
  lTxIndex :: u64
  lLogIndex :: u64
  lAddress :: bytes20
  lTopics :: "bytes32 list"
  lData :: bytes

text \<open>
  The dynamic values (\<open>any\<close>) an event parameter, a state read or an environment can hold. A
  \<open>float64\<close> arises only by converting an integer (\<open>normalize\<close>, \<open>decodeReturn\<close>) or by reading a JSON
  number that an integer was written to, so it is represented by the integer it equals.
\<close>

datatype goval =
    VNil
  | VBool bool
  | VString string
  | VUint u64
  | VFloat int
  | VBigInt int
  | VAddress bytes20
  | VHash bytes32
  | VBytes32 bytes32
  | VBytes20 bytes20
  | VBytes bytes
  | VMap "(string \<times> goval) list"
  | VList "goval list"

type_synonym envmap = "(string, goval) gomap"

record event =
  eLog :: log
  eMonitorID :: string
  eName :: string
  eParams :: envmap
  eState :: "envmap option"
  ePrevState :: "envmap option"
  eConfirmation :: string

record rmatch =
  mEvent :: event
  mRuleIdx :: u64
  mSeverity :: string
  mReceivers :: "string list"

datatype alertkind = AlertFiring | AlertResolved | AlertReverted

fun kind_string :: "alertkind \<Rightarrow> string" where
  "kind_string AlertFiring = ''firing''"
| "kind_string AlertResolved = ''resolved''"
| "kind_string AlertReverted = ''reverted''"

record alert =
  aMatch :: rmatch
  aFingerprint :: string
  aKind :: alertkind
  aAt :: gotime

section \<open>Environments\<close>

text \<open>\<open>fmt.Sprintf("0x%x", a[:])\<close> on a byte array.\<close>

definition hex0x :: "bytes \<Rightarrow> string" where
  "hex0x bs = ''0x'' @ hex_encode bs"

definition EventEnv :: "event \<Rightarrow> envmap" where
  "EventEnv ev =
    (let state = (case eState ev of None \<Rightarrow> [] | Some m \<Rightarrow> m);
         prevState = (case ePrevState ev of None \<Rightarrow> [] | Some m \<Rightarrow> m)
     in [(''name'', VString (eName ev)),
         (''monitor_id'', VString (eMonitorID ev)),
         (''params'', VMap (eParams ev)),
         (''state'', VMap state),
         (''prev'', VMap [(''state'', VMap prevState)]),
         (''log'', VMap
           [(''chain'', VString (lChain (eLog ev))),
            (''address'', VString (hex0x (be_bytes 20 (lAddress (eLog ev))))),
            (''tx_hash'', VString (hex0x (be_bytes 32 (lTxHash (eLog ev))))),
            (''tx_index'', VUint (lTxIndex (eLog ev))),
            (''log_index'', VUint (lLogIndex (eLog ev))),
            (''block'', VMap
              [(''number'', VUint (bNumber (lBlock (eLog ev)))),
               (''hash'', VString (hex0x (be_bytes 32 (bHash (lBlock (eLog ev))))))])])])"

definition AlertEnv :: "alert \<Rightarrow> envmap" where
  "AlertEnv a =
    (let ev = mEvent (aMatch a)
     in [(''severity'', VString (mSeverity (aMatch a))),
         (''kind'', VString (kind_string (aKind a))),
         (''fingerprint'', VString (aFingerprint a)),
         (''monitor'', VMap [(''id'', VString (eMonitorID ev))]),
         (''event'', VMap (EventEnv ev))])"

lemma kind_string_inject [simp]: "kind_string k = kind_string k' \<longleftrightarrow> k = k'"
  by (cases k; cases k') simp_all

lemma hex0x_inject [simp]: "hex0x as = hex0x bs \<longleftrightarrow> as = bs"
  by (simp add: hex0x_def)

end
