(* ===== verification/Reorg.thy ===== *)
theory Reorg
  imports Pipeline
begin

text \<open>
  The reconciler of \<open>internal/ingest/reorg.go\<close>: it keeps a window of the canonical chain, and for
  each new head either extends the window (fetching the blocks in between) or walks the parent
  hashes back to a common ancestor, reporting the blocks that became canonical and those that were
  reverted. The block source is a parameter with a state of its own (\<open>'w\<close>), because two requests
  for the same number may be answered differently.
\<close>

section \<open>The model\<close>

type_synonym 'w reader = "u64 \<Rightarrow> 'w \<Rightarrow> (err + blockref) \<times> 'w"

record reconcile_result =
  Canonical :: "blockref list"
  Reverted :: "blockref list"

record reconciler =
  rcChain :: string
  maxDepth :: u64
  known :: "(u64, blockref) gomap"
  tip :: u64
  seeded :: bool

text \<open>The errors of a reconciliation, and the two run-time panics its code can raise.\<close>

datatype rec_err =
    FetchCatchup u64 err
  | WalkBack u64 err
  | ChainShifted u64
  | MakeslicePanic
  | IndexPanic

definition empty_result :: reconcile_result where
  "empty_result = \<lparr>Canonical = [], Reverted = []\<rparr>"

definition NewReconciler :: "string \<Rightarrow> u64 \<Rightarrow> reconciler" where
  "NewReconciler chain depth =
     \<lparr>rcChain = chain, maxDepth = (if depth = 0 then 256 else depth), known = [], tip = 0,
      seeded = False\<rparr>"

text \<open>Reading a Go map at a missing key gives the zero value.\<close>

definition known_or_zero :: "reconciler \<Rightarrow> u64 \<Rightarrow> blockref" where
  "known_or_zero r n = (case map_of (known r) n of Some b \<Rightarrow> b | None \<Rightarrow> zero_block)"

definition Tip :: "reconciler \<Rightarrow> blockref \<times> bool" where
  "Tip r = (if \<not> seeded r then (zero_block, False) else (known_or_zero r (tip r), True))"

definition prune :: "reconciler \<Rightarrow> reconciler" where
  "prune r =
     (if tip r \<le> maxDepth r then r
      else let threshold = tip r - maxDepth r
           in r\<lparr>known := gm_keep (\<lambda>n. \<not> n < threshold) (known r)\<rparr>)"

definition hasAnyBelow :: "reconciler \<Rightarrow> u64 \<Rightarrow> bool" where
  "hasAnyBelow r n = list_ex (\<lambda>(k, _). k < n) (known r)"

text \<open>The assignments \<open>known[b.Number] = b\<close>, the raised tip and \<open>seeded\<close>, shared by \<open>record\<close> and
  \<open>LoadKnown\<close>.\<close>

definition note_block :: "blockref \<Rightarrow> reconciler \<Rightarrow> reconciler" where
  "note_block b r =
     r\<lparr>known := gm_put (bNumber b) b (known r),
       tip := (if tip r < bNumber b then bNumber b else tip r),
       seeded := True\<rparr>"

definition rec_record :: "blockref \<Rightarrow> reconciler \<Rightarrow> reconciler" where
  "rec_record b r = prune (note_block b r)"

definition LoadKnown :: "blockref list \<Rightarrow> reconciler \<Rightarrow> reconciler" where
  "LoadKnown blocks r = prune (fold note_block blocks r)"

text \<open>
  The catch-up loop of \<open>applyForward\<close>. \<open>None\<close> is an execution that does not end: with the largest
  head number the counter wraps around. The loop ends with an error, with a broken parent link (the
  source then calls \<open>handleReorg\<close>), or with the fetched blocks.
\<close>

datatype forward_end = FwdErr rec_err | FwdBroken | FwdDone "blockref list"

partial_function (option) forward_loop ::
  "'w reader \<Rightarrow> reconciler \<Rightarrow> blockref \<Rightarrow> u64 \<Rightarrow> blockref list \<Rightarrow> 'w \<Rightarrow> (forward_end \<times> 'w) option" where
  "forward_loop fetch r head n fetched w =
     (if n \<le> bNumber head then
        (case (if n = bNumber head then (Inr head, w) else fetch n w) of
           (Inl e, w') \<Rightarrow> Some (FwdErr (FetchCatchup n e), w')
         | (Inr b, w') \<Rightarrow>
             (if n \<noteq> tip r + 1 \<and> fetched = [] then Some (FwdErr IndexPanic, w')
              else let prev = (if n = tip r + 1 then known_or_zero r (tip r) else last fetched)
                   in if bParentHash b \<noteq> bHash prev then Some (FwdBroken, w')
                      else forward_loop fetch r head (n + 1) (fetched @ [b]) w'))
      else Some (FwdDone fetched, w))"

text \<open>
  The walk back of \<open>handleReorg\<close>: the common ancestor's number and the blocks from the head down
  to its child. The source answers a request with whatever block the node returned, checking only
  its hash, so the loop need not end for an arbitrary source.
\<close>

definition ancestor_at :: "reconciler \<Rightarrow> blockref \<Rightarrow> u64 \<Rightarrow> bool" where
  "ancestor_at r cursor parentNum =
     (case map_of (known r) parentNum of
        Some parentInOld \<Rightarrow> bHash parentInOld = bParentHash cursor
      | None \<Rightarrow> parentNum < tip r \<and> \<not> hasAnyBelow r (parentNum + 1))"

partial_function (option) walk_back ::
  "'w reader \<Rightarrow> reconciler \<Rightarrow> blockref \<Rightarrow> blockref list \<Rightarrow> 'w
     \<Rightarrow> ((rec_err + u64 \<times> blockref list) \<times> 'w) option" where
  "walk_back fetch r cursor path w =
     (if 0 < bNumber cursor then
        (if ancestor_at r cursor (bNumber cursor - 1) then Some (Inr (bNumber cursor - 1, path), w)
         else
           (case fetch (bNumber cursor - 1) w of
              (Inl e, w') \<Rightarrow> Some (Inl (WalkBack (bNumber cursor - 1) e), w')
            | (Inr got, w') \<Rightarrow>
                (if bHash got \<noteq> bParentHash cursor
                 then Some (Inl (ChainShifted (bNumber cursor - 1)), w')
                 else walk_back fetch r got (path @ [got]) w')))
      else Some (Inr (0, path), w))"

text \<open>The in-place reversal with two indices.\<close>

function reverse_loop :: "'a list \<Rightarrow> nat \<Rightarrow> nat \<Rightarrow> 'a list" where
  "reverse_loop xs i j =
     (if i < j then reverse_loop (xs[i := xs ! j, j := xs ! i]) (i + 1) (j - 1) else xs)"
  by pat_completeness auto
termination
  by (relation "measure (\<lambda>(xs, i, j). j - i)") auto

text \<open>The loop that collects and deletes the known blocks above the common ancestor.\<close>

partial_function (option) revert_loop ::
  "u64 \<Rightarrow> u64 \<Rightarrow> (u64, blockref) gomap \<Rightarrow> blockref list
     \<Rightarrow> ((u64, blockref) gomap \<times> blockref list) option" where
  "revert_loop oldTip n kn reverted =
     (if n \<le> oldTip then
        (case map_of kn n of
           Some b \<Rightarrow> revert_loop oldTip (n + 1) (gm_del n kn) (reverted @ [b])
         | None \<Rightarrow> revert_loop oldTip (n + 1) kn reverted)
      else Some (kn, reverted))"

declare reverse_loop.simps [simp del]
declare forward_loop.simps [code] and walk_back.simps [code] and revert_loop.simps [code]

type_synonym 'w rec_out = "((rec_err + reconcile_result) \<times> reconciler \<times> 'w) option"

definition handleReorg :: "'w reader \<Rightarrow> reconciler \<Rightarrow> blockref \<Rightarrow> 'w \<Rightarrow> 'w rec_out" where
  "handleReorg fetch r head w =
     (case walk_back fetch r head [head] w of
        None \<Rightarrow> None
      | Some (Inl e, w') \<Rightarrow> Some (Inl e, r, w')
      | Some (Inr (commonAncestor, ancestryPath), w') \<Rightarrow>
          (let path = reverse_loop ancestryPath 0 (length ancestryPath - 1)
           in (case revert_loop (tip r) (commonAncestor + 1) (known r) [] of
                 None \<Rightarrow> None
               | Some (kn, reverted) \<Rightarrow>
                   Some (Inr \<lparr>Canonical = path, Reverted = reverted\<rparr>,
                         fold rec_record path (r\<lparr>known := kn, tip := commonAncestor\<rparr>), w'))))"

text \<open>
  \<open>make([]BlockRef, 0, head.Number - originalTip)\<close> panics when the capacity, at 112 bytes an
  element, exceeds the \<open>2 ^ 48\<close>-byte address space of the 64-bit run-time.
\<close>

definition makeslice_cap :: u64 where
  "makeslice_cap = 2 ^ 48 div 112"

definition applyForward :: "'w reader \<Rightarrow> reconciler \<Rightarrow> blockref \<Rightarrow> 'w \<Rightarrow> 'w rec_out" where
  "applyForward fetch r head w =
     (if makeslice_cap < bNumber head - tip r then Some (Inl MakeslicePanic, r, w)
      else
        (case forward_loop fetch r head (tip r + 1) [] w of
           None \<Rightarrow> None
         | Some (FwdErr e, w') \<Rightarrow> Some (Inl e, r, w')
         | Some (FwdBroken, w') \<Rightarrow> handleReorg fetch r head w'
         | Some (FwdDone fetched, w') \<Rightarrow>
             Some (Inr \<lparr>Canonical = fetched, Reverted = []\<rparr>, fold rec_record fetched r, w')))"

definition OnHead :: "'w reader \<Rightarrow> reconciler \<Rightarrow> blockref \<Rightarrow> 'w \<Rightarrow> 'w rec_out" where
  "OnHead fetch r head w =
     (if \<not> seeded r then
        Some (Inr \<lparr>Canonical = [head], Reverted = []\<rparr>, rec_record head r, w)
      else if (case map_of (known r) (bNumber head) of
                 Some b \<Rightarrow> bHash b = bHash head | None \<Rightarrow> False)
      then Some (Inr empty_result, r, w)
      else if tip r < bNumber head then applyForward fetch r head w
      else handleReorg fetch r head w)"

section \<open>The window\<close>

text \<open>The lowest number the window keeps.\<close>

definition threshold :: "reconciler \<Rightarrow> u64" where
  "threshold r = (if tip r \<le> maxDepth r then 0 else tip r - maxDepth r)"

lemma unat_threshold: "unat (threshold r) = unat (tip r) - unat (maxDepth r)"
  by (simp add: threshold_def unat_monus)

lemma known_prune: "map_of (known (prune r)) k = (if threshold r \<le> k then map_of (known r) k else None)"
  by (simp add: prune_def threshold_def Let_def map_of_gm_keep not_less)

lemma prune_frame [simp]:
  "tip (prune r) = tip r" "seeded (prune r) = seeded r" "maxDepth (prune r) = maxDepth r"
  "rcChain (prune r) = rcChain r"
  by (simp_all add: prune_def Let_def)

lemma note_block_simps [simp]:
  "tip (note_block b r) = max (tip r) (bNumber b)" "seeded (note_block b r)"
  "maxDepth (note_block b r) = maxDepth r" "rcChain (note_block b r) = rcChain r"
  by (auto simp: note_block_def max_def)

lemma rec_record_simps [simp]:
  "tip (rec_record b r) = max (tip r) (bNumber b)" "seeded (rec_record b r)"
  "maxDepth (rec_record b r) = maxDepth r" "rcChain (rec_record b r) = rcChain r"
  by (simp_all add: rec_record_def)

lemma known_note_block: "map_of (known (note_block b r)) = (map_of (known r))(bNumber b \<mapsto> b)"
  by (simp add: note_block_def gomap_simps)

lemma known_rec_record:
  "map_of (known (rec_record b r)) k =
     (if threshold (rec_record b r) \<le> k then ((map_of (known r))(bNumber b \<mapsto> b)) k else None)"
  by (simp add: rec_record_def known_prune known_note_block threshold_def)

lemma fold_rec_record_frame [simp]:
  "maxDepth (fold rec_record bs r) = maxDepth r" "rcChain (fold rec_record bs r) = rcChain r"
  "seeded (fold rec_record bs r) \<longleftrightarrow> seeded r \<or> bs \<noteq> []"
  by (induction bs arbitrary: r) auto

lemma tip_fold_rec_record: "tip r \<le> tip (fold rec_record bs r)"
  by (induction bs rule: rev_induct) (auto simp: le_max_iff_disj)

text \<open>Recording a list of blocks assigns them in order and keeps the window of the final tip.\<close>

definition assign :: "(u64 \<rightharpoonup> blockref) \<Rightarrow> blockref list \<Rightarrow> (u64 \<rightharpoonup> blockref)" where
  "assign m bs = fold (\<lambda>b m. m(bNumber b \<mapsto> b)) bs m"

lemma assign_Nil [simp]: "assign m [] = m"
  and assign_snoc [simp]: "assign m (bs @ [b]) = (assign m bs)(bNumber b \<mapsto> b)"
  by (simp_all add: assign_def)

lemma threshold_mono: "tip r \<le> tip r' \<Longrightarrow> maxDepth r = maxDepth r' \<Longrightarrow> threshold r \<le> threshold r'"
  by (simp add: word_le_nat_alt unat_threshold diff_le_mono)

lemma known_fold_rec_record:
  "threshold (fold rec_record bs r) \<le> k \<Longrightarrow>
     map_of (known (fold rec_record bs r)) k = assign (map_of (known r)) bs k"
  "bs \<noteq> [] \<Longrightarrow> \<not> threshold (fold rec_record bs r) \<le> k \<Longrightarrow>
     map_of (known (fold rec_record bs r)) k = None"
proof (induction bs rule: rev_induct)
  case Nil
  { case 1 then show ?case by simp }
  { case 2 then show ?case by simp }
next
  case (snoc b bs)
  let ?r = "fold rec_record bs r"
  have mono: "threshold ?r \<le> threshold (rec_record b ?r)"
    by (rule threshold_mono) auto
  { case 1
    with mono have "threshold ?r \<le> k" by (simp add: order_trans)
    with snoc.IH(1) 1 show ?case by (simp add: known_rec_record assign_snoc) }
  { case 2 then show ?case by (simp add: known_rec_record) }
qed

section \<open>The loops\<close>

text \<open>\<open>links x y\<close>: \<open>y\<close> is the child of \<open>x\<close>; a list is linked when each block is the child of the
  one before.\<close>

definition links :: "blockref \<Rightarrow> blockref \<Rightarrow> bool" where
  "links x y \<longleftrightarrow> bParentHash y = bHash x \<and> unat (bNumber y) = Suc (unat (bNumber x))"

abbreviation linked :: "blockref list \<Rightarrow> bool" where
  "linked \<equiv> successively links"

text \<open>What \<open>eth_getBlockByNumber\<close> documents: a block returned for a number has that number.\<close>

definition numbered :: "'w reader \<Rightarrow> bool" where
  "numbered fetch \<longleftrightarrow> (\<forall>n w b w'. fetch n w = (Inr b, w') \<longrightarrow> bNumber b = n)"

lemma numberedD: "numbered fetch \<Longrightarrow> fetch n w = (Inr b, w') \<Longrightarrow> bNumber b = n"
  by (auto simp: numbered_def)

subsection \<open>Walking back\<close>

lemma walk_back_total:
  assumes "numbered fetch"
  shows "\<exists>y. walk_back fetch r cursor path w = Some y"
proof (induction "unat (bNumber cursor)" arbitrary: cursor path w rule: less_induct)
  case less
  show ?case
  proof (cases "0 < bNumber cursor \<and> \<not> ancestor_at r cursor (bNumber cursor - 1)")
    case False
    then show ?thesis by (auto simp: walk_back.simps)
  next
    case True
    obtain res w' where f: "fetch (bNumber cursor - 1) w = (res, w')" by force
    show ?thesis
    proof (cases res)
      case (Inl e)
      with f True show ?thesis by (simp add: walk_back.simps [of _ _ cursor])
    next
      case (Inr got)
      with f assms have "bNumber got = bNumber cursor - 1" by (auto dest: numberedD)
      with True have "unat (bNumber got) < unat (bNumber cursor)"
        using unat_dec [of "bNumber cursor"] by auto
      from less [OF this] f Inr True show ?thesis
        by (simp add: walk_back.simps [of _ _ cursor])
    qed
  qed
qed

text \<open>
  Where the walk ends: at the child of the common ancestor, or at block 0 (then no ancestor was
  found and the source takes 0). Every block on the way replaces a known block of another hash, or
  none.
\<close>

definition walk_ends :: "reconciler \<Rightarrow> u64 \<Rightarrow> blockref \<Rightarrow> bool" where
  "walk_ends r anc b \<longleftrightarrow>
     (0 < bNumber b \<and> anc = bNumber b - 1 \<and> ancestor_at r b anc) \<or> (bNumber b = 0 \<and> anc = 0)"

definition displaces :: "reconciler \<Rightarrow> blockref \<Rightarrow> bool" where
  "displaces r b \<longleftrightarrow> (\<forall>p. map_of (known r) (bNumber b) = Some p \<longrightarrow> bHash p \<noteq> bHash b)"

lemma walk_back_spec:
  assumes "numbered fetch"
  shows "walk_back fetch r cursor path w = Some (Inr (anc, path'), w') \<Longrightarrow>
    \<exists>ext. path' = path @ ext \<and> linked (rev (cursor # ext)) \<and>
      walk_ends r anc (last (cursor # ext)) \<and> (\<forall>b \<in> set ext. displaces r b)"
proof (induction "unat (bNumber cursor)" arbitrary: cursor path w rule: less_induct)
  case less
  show ?case
  proof (cases "0 < bNumber cursor \<and> \<not> ancestor_at r cursor (bNumber cursor - 1)")
    case False
    with less.prems have "path' = path \<and> walk_ends r anc cursor"
      by (auto simp: walk_back.simps [of _ _ cursor] walk_ends_def word_gt_0 split: if_splits)
    then show ?thesis by (intro exI [of _ "[]"]) simp
  next
    case True
    with less.prems obtain got w1 where f: "fetch (bNumber cursor - 1) w = (Inr got, w1)"
      and h: "bHash got = bParentHash cursor"
      and rec: "walk_back fetch r got (path @ [got]) w1 = Some (Inr (anc, path'), w')"
      by (auto simp: walk_back.simps [of _ _ cursor] split: sum.splits prod.splits if_splits)
    from f assms have n: "bNumber got = bNumber cursor - 1" by (auto dest: numberedD)
    with True have u: "unat (bNumber cursor) = Suc (unat (bNumber got))"
      using unat_dec [of "bNumber cursor"] by auto
    then have "unat (bNumber got) < unat (bNumber cursor)" by simp
    from less.hyps [OF this rec] obtain ext where ext: "path' = path @ got # ext"
      "linked (rev (got # ext))" "walk_ends r anc (last (got # ext))" "\<forall>b \<in> set ext. displaces r b"
      by auto
    have "displaces r got"
      using True h n by (auto simp: displaces_def ancestor_at_def)
    moreover have "links got cursor" using h u by (simp add: links_def)
    ultimately show ?thesis
      using ext by (intro exI [of _ "got # ext"]) (simp add: successively_append_iff)
  qed
qed

lemma walk_back_no_panic: "walk_back fetch r cursor path w = Some (Inl e, w') \<Longrightarrow> e \<noteq> IndexPanic"
proof (rule walk_back.raw_induct [where P = "\<lambda>_ _ _ _ _ y. \<forall>e. fst y = Inl e \<longrightarrow> e \<noteq> IndexPanic",
      THEN spec, THEN mp])
  fix wb fetch r cursor path and w :: 'w and y
  assume "\<And>fetch r cursor path w y. wb fetch r cursor path w = Some y \<Longrightarrow>
      \<forall>e. fst y = Inl e \<longrightarrow> e \<noteq> IndexPanic"
  and "(if 0 < bNumber cursor then
          if ancestor_at r cursor (bNumber cursor - 1) then Some (Inr (bNumber cursor - 1, path), w)
          else case fetch (bNumber cursor - 1) w of
              (Inl e, w') \<Rightarrow> Some (Inl (WalkBack (bNumber cursor - 1) e), w')
            | (Inr got, w') \<Rightarrow>
                if bHash got \<noteq> bParentHash cursor
                then Some (Inl (ChainShifted (bNumber cursor - 1)), w')
                else wb fetch r got (path @ [got]) w'
        else Some (Inr (0, path), w)) = Some y"
  then show "\<forall>e. fst y = Inl e \<longrightarrow> e \<noteq> IndexPanic"
    by (auto split: if_splits sum.splits prod.splits)
qed auto

subsection \<open>Reversing\<close>

lemma reverse_loop_step:
  "i < j \<Longrightarrow> reverse_loop xs i j = reverse_loop (xs[i := xs ! j, j := xs ! i]) (i + 1) (j - 1)"
  by (simp add: reverse_loop.simps [of xs])

lemma reverse_loop_middle:
  "length xs = i \<Longrightarrow> ys \<noteq> [] \<Longrightarrow>
     reverse_loop (xs @ ys @ zs) i (i + length ys - 1) = xs @ rev ys @ zs"
proof (induction ys arbitrary: xs zs i rule: length_induct)
  case (1 ys)
  show ?case
  proof (cases "length ys < 2")
    case True
    with "1.prems" obtain a where "ys = [a]" by (cases ys) auto
    with "1.prems" show ?thesis by (simp add: reverse_loop.simps)
  next
    case False
    then obtain a b ys' where ys: "ys = a # ys' @ [b]"
      by (cases ys; cases "tl ys" rule: rev_cases) auto
    let ?j = "i + length ys - 1"
    have swap: "(xs @ ys @ zs)[i := (xs @ ys @ zs) ! ?j, ?j := (xs @ ys @ zs) ! i] =
        (xs @ [b]) @ ys' @ (a # zs)"
      using "1.prems" ys by (simp add: list_update_append nth_append)
    have step: "reverse_loop (xs @ ys @ zs) i ?j =
        reverse_loop ((xs @ [b]) @ ys' @ (a # zs)) (i + 1) (?j - 1)"
    proof -
      have "i < ?j" using ys by simp
      then show ?thesis by (simp only: reverse_loop_step swap)
    qed
    show ?thesis
    proof (cases "ys' = []")
      case True
      with step ys show ?thesis by (simp add: reverse_loop.simps)
    next
      case False
      have "reverse_loop ((xs @ [b]) @ ys' @ (a # zs)) (i + 1) (i + 1 + length ys' - 1) =
          (xs @ [b]) @ rev ys' @ (a # zs)"
        using "1.IH" [rule_format, of ys' "xs @ [b]" "i + 1" "a # zs"] False ys "1.prems" by simp
      with step ys show ?thesis by simp
    qed
  qed
qed

text \<open>The index loop reverses the list.\<close>

lemma reverse_loop_rev: "xs \<noteq> [] \<Longrightarrow> reverse_loop xs 0 (length xs - 1) = rev xs"
  using reverse_loop_middle [of "[]" 0 xs "[]"] by simp

subsection \<open>Collecting the reverted blocks\<close>

text \<open>The known blocks numbered \<open>n, ..., m - 1\<close>, in ascending order.\<close>

definition blocks_between :: "(u64 \<rightharpoonup> blockref) \<Rightarrow> nat \<Rightarrow> nat \<Rightarrow> blockref list" where
  "blocks_between kn n m =
     concat (map (\<lambda>k. case kn (word_of_nat k) of Some b \<Rightarrow> [b] | None \<Rightarrow> []) [n..<m])"

lemma blocks_between_empty [simp]: "m \<le> n \<Longrightarrow> blocks_between kn n m = []"
  by (simp add: blocks_between_def)

lemma blocks_between_step:
  "n < m \<Longrightarrow> blocks_between kn n m =
     (case kn (word_of_nat n) of Some b \<Rightarrow> [b] | None \<Rightarrow> []) @ blocks_between kn (Suc n) m"
  by (simp add: blocks_between_def upt_conv_Cons)

lemma blocks_between_cong:
  "(\<And>k. n \<le> k \<Longrightarrow> k < m \<Longrightarrow> kn (word_of_nat k) = kn' (word_of_nat k)) \<Longrightarrow>
     blocks_between kn n m = blocks_between kn' n m"
  unfolding blocks_between_def
  by (intro arg_cong [where f = concat] map_cong refl) auto

lemma set_blocks_between:
  "set (blocks_between kn n m) = {b. \<exists>k. n \<le> k \<and> k < m \<and> kn (word_of_nat k) = Some b}"
  by (force simp: blocks_between_def split: option.splits)

lemma sorted_blocks_between:
  assumes "\<And>k b. kn k = Some b \<Longrightarrow> bNumber b = k" and "m \<le> 2 ^ 64"
  shows "sorted_wrt (<) (map bNumber (blocks_between kn n m))"
proof (induction "m - n" arbitrary: n)
  case 0
  then show ?case by simp
next
  case (Suc d)
  have "word_of_nat n < bNumber b" if b: "b \<in> set (blocks_between kn (Suc n) m)" for b
  proof -
    from b obtain k where k: "Suc n \<le> k" "k < m" "kn (word_of_nat k) = Some b"
      by (auto simp: set_blocks_between)
    have "unat (word_of_nat n :: u64) = n" "unat (word_of_nat k :: u64) = k"
      using k assms(2) by (simp_all add: unat_of_nat)
    with k assms(1) show ?thesis by (simp add: word_less_nat_alt)
  qed
  moreover have "sorted_wrt (<) (map bNumber (blocks_between kn (Suc n) m))"
    using Suc by simp
  ultimately show ?case
    using Suc(2) assms(1) by (auto simp: blocks_between_step [of n m] split: option.splits)
qed

lemma revert_loop_spec:
  assumes "oldTip \<noteq> max_u64"
  shows "\<exists>kn'. revert_loop oldTip n kn acc =
        Some (kn', acc @ blocks_between (map_of kn) (unat n) (Suc (unat oldTip))) \<and>
      (\<forall>k. map_of kn' k = (if n \<le> k \<and> k \<le> oldTip then None else map_of kn k))"
proof (induction "Suc (unat oldTip) - unat n" arbitrary: n kn acc)
  case 0
  then have "\<not> n \<le> oldTip" by (simp add: word_le_nat_alt)
  with 0 show ?case by (auto simp: revert_loop.simps [of _ n])
next
  case (Suc d)
  then have le: "n \<le> oldTip" by (simp add: word_le_nat_alt)
  from le assms have "n \<noteq> max_u64" by (rule le_ne_max)
  then have u: "unat (n + 1) = Suc (unat n)" by (rule unat_inc_max)
  have lt: "unat n < Suc (unat oldTip)" using le by (simp add: word_le_nat_alt)
  have range: "n + 1 \<le> k \<and> k \<le> oldTip \<longleftrightarrow> n \<le> k \<and> k \<le> oldTip \<and> k \<noteq> n" for k
    by (auto simp: word_le_nat_alt u word_unat_eq_iff)
  define kn1 where "kn1 = (if map_of kn n = None then kn else gm_del n kn)"
  have kn1: "map_of kn1 k = (if k = n then None else map_of kn k)" for k
    by (simp add: kn1_def gomap_simps)
  define acc1 where "acc1 = acc @ (case map_of kn n of Some b \<Rightarrow> [b] | None \<Rightarrow> [])"
  have rl: "revert_loop oldTip n kn acc = revert_loop oldTip (n + 1) kn1 acc1"
    using le by (simp add: revert_loop.simps [of _ n] kn1_def acc1_def split: option.splits)
  have bb: "blocks_between (map_of kn1) (Suc (unat n)) (Suc (unat oldTip)) =
      blocks_between (map_of kn) (Suc (unat n)) (Suc (unat oldTip))"
  proof (rule blocks_between_cong)
    fix k assume "Suc (unat n) \<le> k" "k < Suc (unat oldTip)"
    then have "unat (word_of_nat k :: u64) = k" "k \<noteq> unat n"
      using unat_bound [of oldTip] by (auto simp: unat_of_nat)
    then show "map_of kn1 (word_of_nat k) = map_of kn (word_of_nat k)"
      by (auto simp: kn1)
  qed
  have "d = Suc (unat oldTip) - unat (n + 1)" using Suc(2) u by simp
  from Suc(1) [OF this, of kn1 acc1] obtain kn' where
    e: "revert_loop oldTip (n + 1) kn1 acc1 =
        Some (kn', acc1 @ blocks_between (map_of kn1) (Suc (unat n)) (Suc (unat oldTip)))"
    and kn': "\<And>k. map_of kn' k = (if n + 1 \<le> k \<and> k \<le> oldTip then None else map_of kn1 k)"
    by (auto simp: u)
  have "map_of kn' k = (if n \<le> k \<and> k \<le> oldTip then None else map_of kn k)" for k
    using kn' [of k] kn1 [of k] range [of k] le by (cases "k = n") auto
  moreover have "acc1 @ blocks_between (map_of kn1) (Suc (unat n)) (Suc (unat oldTip)) =
      acc @ blocks_between (map_of kn) (unat n) (Suc (unat oldTip))"
    using lt by (simp only: acc1_def bb blocks_between_step [of "unat n"] append_assoc of_nat_unat ucast_id)
  ultimately show ?case using e rl by auto
qed

subsection \<open>Catching up\<close>

text \<open>A completed catch-up: a linked list of blocks from the child of the tip up to the head.\<close>

definition caught_up :: "reconciler \<Rightarrow> blockref \<Rightarrow> blockref list \<Rightarrow> bool" where
  "caught_up r head fs \<longleftrightarrow> fs \<noteq> [] \<and> last fs = head \<and> linked fs \<and>
     bParentHash (hd fs) = bHash (known_or_zero r (tip r)) \<and>
     unat (bNumber (hd fs)) = Suc (unat (tip r))"

definition catching_up :: "reconciler \<Rightarrow> blockref \<Rightarrow> u64 \<Rightarrow> blockref list \<Rightarrow> bool" where
  "catching_up r head n fs \<longleftrightarrow>
     unat n = Suc (unat (tip r) + length fs) \<and> unat n \<le> Suc (unat (bNumber head)) \<and>
     (if fs = [] then n = tip r + 1
      else caught_up r (last fs) fs \<and> unat n = Suc (unat (bNumber (last fs)))) \<and>
     (unat n = Suc (unat (bNumber head)) \<longrightarrow> fs \<noteq> [] \<and> last fs = head)"

lemma catching_up_step:
  assumes cu: "catching_up r head n fs" and le: "n \<le> bNumber head" and mx: "bNumber head \<noteq> max_u64"
    and num: "bNumber b = n" and hd: "n = bNumber head \<longrightarrow> b = head"
    and par: "bParentHash b = bHash (if n = tip r + 1 then known_or_zero r (tip r) else last fs)"
  shows "catching_up r head (n + 1) (fs @ [b])"
proof -
  have u: "unat (n + 1) = Suc (unat n)" using le mx by (auto intro: unat_inc_max dest: le_ne_max)
  have first: "fs = [] \<longleftrightarrow> n = tip r + 1"
  proof
    show "n = tip r + 1" if "fs = []" using cu that by (simp add: catching_up_def)
  next
    assume n: "n = tip r + 1"
    show "fs = []"
    proof (cases "tip r = max_u64")
      case True
      with n cu show ?thesis by (simp add: catching_up_def)
    next
      case False
      with n cu show ?thesis using unat_inc_max [of "tip r"] by (simp add: catching_up_def)
    qed
  qed
  have b: "caught_up r b (fs @ [b])"
  proof (cases "fs = []")
    case True
    with cu first num par show ?thesis by (auto simp: catching_up_def caught_up_def)
  next
    case False
    then have "n \<noteq> tip r + 1" using first by simp
    with False cu num par show ?thesis
      by (auto simp: catching_up_def caught_up_def successively_append_iff links_def)
  qed
  have "unat (bNumber head) = unat n \<longrightarrow> b = head"
    using hd by (auto simp: word_unat_eq_iff)
  with b cu le num u show ?thesis
    by (auto simp: catching_up_def word_le_nat_alt)
qed

lemma forward_loop_spec:
  assumes nb: "numbered fetch" and mx: "bNumber head \<noteq> max_u64"
  shows "catching_up r head n fs \<Longrightarrow>
    \<exists>out w'. forward_loop fetch r head n fs w = Some (out, w') \<and> out \<noteq> FwdErr IndexPanic \<and>
      (\<forall>fs'. out = FwdDone fs' \<longrightarrow> caught_up r head fs')"
proof (induction "Suc (unat (bNumber head)) - unat n" arbitrary: n fs w)
  case 0
  then have "\<not> n \<le> bNumber head" "unat n = Suc (unat (bNumber head))"
    by (auto simp: word_le_nat_alt catching_up_def)
  with 0 show ?case
    by (auto simp: forward_loop.simps [of _ _ _ n] catching_up_def split: if_splits)
next
  case (Suc d)
  then have le: "n \<le> bNumber head" by (simp add: word_le_nat_alt)
  obtain res w1 where f: "(if n = bNumber head then (Inr head, w) else fetch n w) = (res, w1)" by force
  have idx: "n = tip r + 1 \<or> fs \<noteq> []" using Suc.prems by (auto simp: catching_up_def)
  show ?case
  proof (cases res)
    case (Inl e)
    with f le show ?thesis by (simp add: forward_loop.simps [of _ _ _ n])
  next
    case (Inr b)
    let ?prev = "if n = tip r + 1 then known_or_zero r (tip r) else last fs"
    show ?thesis
    proof (cases "bParentHash b = bHash ?prev")
      case False
      with f le idx Inr show ?thesis by (simp add: forward_loop.simps [of _ _ _ n] Let_def)
    next
      case True
      have "bNumber b = n" and "n = bNumber head \<longrightarrow> b = head"
        using f Inr nb by (auto dest: numberedD split: if_splits)
      with Suc.prems le mx True have cu: "catching_up r head (n + 1) (fs @ [b])"
        by (intro catching_up_step)
      have "unat (n + 1) = Suc (unat n)" using le mx by (auto intro: unat_inc_max dest: le_ne_max)
      then have "d = Suc (unat (bNumber head)) - unat (n + 1)" using Suc(2) by simp
      from Suc(1) [OF this cu] f le idx Inr True show ?thesis
        by (simp add: forward_loop.simps [of _ _ _ n] Let_def)
    qed
  qed
qed

section \<open>What a reconciliation does\<close>

subsection \<open>Linked lists of blocks\<close>

lemma linked_last_number:
  "linked bs \<Longrightarrow> bs \<noteq> [] \<Longrightarrow> Suc (unat (bNumber (last bs))) = unat (bNumber (hd bs)) + length bs"
  by (induction bs rule: rev_induct) (auto simp: successively_append_iff links_def hd_append)

lemma linked_nth_number:
  "linked bs \<Longrightarrow> i < length bs \<Longrightarrow> unat (bNumber (bs ! i)) = unat (bNumber (hd bs)) + i"
proof (induction bs arbitrary: i rule: rev_induct)
  case Nil
  then show ?case by simp
next
  case (snoc b bs)
  show ?case
  proof (cases "i < length bs")
    case True
    with snoc show ?thesis by (auto simp: nth_append successively_append_iff hd_append)
  next
    case False
    with snoc.prems have "i = length bs" by simp
    with snoc.prems linked_last_number [of bs] show ?thesis
      by (auto simp: nth_append successively_append_iff links_def hd_append)
  qed
qed

lemma linked_number_range:
  "linked bs \<Longrightarrow> b \<in> set bs \<Longrightarrow>
     unat (bNumber (hd bs)) \<le> unat (bNumber b) \<and> unat (bNumber b) \<le> unat (bNumber (last bs))"
  using linked_nth_number [of bs] linked_last_number [of bs]
  by (fastforce simp: in_set_conv_nth)

lemma linked_distinct_numbers: "linked bs \<Longrightarrow> distinct (map bNumber bs)"
  by (auto simp: distinct_conv_nth) (metis linked_nth_number add_left_cancel)

text \<open>Assigning a linked list fills the range of its numbers and nothing else.\<close>

lemma assign_linked:
  "linked bs \<Longrightarrow> bs \<noteq> [] \<Longrightarrow> assign m bs k =
     (if unat (bNumber (hd bs)) \<le> unat k \<and> unat k \<le> unat (bNumber (last bs))
      then Some (bs ! (unat k - unat (bNumber (hd bs)))) else m k)"
proof (induction bs rule: rev_induct)
  case Nil
  then show ?case by simp
next
  case (snoc b bs)
  show ?case
  proof (cases "bs = []")
    case True
    then show ?thesis by (auto simp: assign_def word_unat_eq_iff)
  next
    case False
    with snoc.prems have l: "linked bs" and b: "unat (bNumber b) = Suc (unat (bNumber (last bs)))"
      by (auto simp: successively_append_iff links_def)
    have len: "Suc (unat (bNumber (last bs))) = unat (bNumber (hd bs)) + length bs"
      using l False by (rule linked_last_number)
    show ?thesis
    proof (cases "k = bNumber b")
      case True
      with b len False show ?thesis by (simp add: nth_append)
    next
      case False2: False
      then have "unat k \<noteq> unat (bNumber b)" by (simp add: word_unat_eq_iff)
      with False2 snoc.IH [OF l False] False b len show ?thesis
        by (auto simp: nth_append)
    qed
  qed
qed

subsection \<open>The cases of \<open>OnHead\<close>\<close>

text \<open>
  A reorganisation onto \<open>head\<close> with common ancestor \<open>anc\<close>: the new canonical blocks are a linked
  list from the ancestor's child to the head, each displacing a known block of another hash or
  none; the reverted blocks are the known ones above the ancestor.
\<close>

definition reorg_to ::
  "reconciler \<Rightarrow> blockref \<Rightarrow> u64 \<Rightarrow> reconcile_result \<Rightarrow> reconciler \<Rightarrow> bool" where
  "reorg_to r head anc res r' \<longleftrightarrow>
     linked (Canonical res) \<and> Canonical res \<noteq> [] \<and> last (Canonical res) = head \<and>
     walk_ends r anc (hd (Canonical res)) \<and>
     (\<forall>b \<in> set (Canonical res). b = head \<or> displaces r b) \<and>
     Reverted res = blocks_between (map_of (known r)) (Suc (unat anc)) (Suc (unat (tip r))) \<and>
     (\<exists>kn. (\<forall>k. map_of kn k =
              (if unat anc < unat k \<and> k \<le> tip r then None else map_of (known r) k)) \<and>
           r' = fold rec_record (Canonical res) (r\<lparr>known := kn, tip := anc\<rparr>))"

lemma handleReorg_spec:
  assumes nb: "numbered fetch" and tip: "tip r \<noteq> max_u64"
  shows "\<exists>out r' w'. handleReorg fetch r head w = Some (out, r', w') \<and>
    (\<forall>e. out = Inl e \<longrightarrow> r' = r \<and> e \<noteq> IndexPanic) \<and>
    (\<forall>res. out = Inr res \<longrightarrow> (\<exists>anc. reorg_to r head anc res r'))"
proof -
  obtain res1 w1 where wb: "walk_back fetch r head [head] w = Some (res1, w1)"
    using walk_back_total [OF nb] by fast
  show ?thesis
  proof (cases res1)
    case (Inl e)
    with wb walk_back_no_panic show ?thesis by (fastforce simp: handleReorg_def)
  next
    case (Inr p)
    then obtain anc path where p: "res1 = Inr (anc, path)" by (cases p) auto
    from walk_back_spec [OF nb wb [unfolded p]] obtain ext where
      path: "path = head # ext" and lk: "linked (rev path)" and we: "walk_ends r anc (last path)"
      and dis: "\<forall>b \<in> set ext. displaces r b"
      by auto
    have "anc \<noteq> max_u64"
      using we by (auto simp: walk_ends_def)
    then have u: "unat (anc + 1) = Suc (unat anc)" by (rule unat_inc_max)
    obtain kn where rl: "revert_loop (tip r) (anc + 1) (known r) [] =
          Some (kn, blocks_between (map_of (known r)) (Suc (unat anc)) (Suc (unat (tip r))))"
      and kn: "\<forall>k. map_of kn k = (if unat anc < unat k \<and> k \<le> tip r then None else map_of (known r) k)"
      using revert_loop_spec [OF tip, of "anc + 1" "known r" "[]"]
      by (auto simp: u word_le_nat_alt Suc_le_eq)
    have rv: "reverse_loop path 0 (length path - 1) = rev path"
      using path by (intro reverse_loop_rev) simp
    show ?thesis
      using wb p rl rv path lk we dis kn
      by (auto simp: handleReorg_def reorg_to_def hd_rev hd_append intro!: exI [of _ anc] exI [of _ kn])
  qed
qed

text \<open>The four ways a reconciliation succeeds.\<close>

datatype rec_case = Seeding | Duplicate | Forward | Reorg u64

fun rec_case_of ::
  "rec_case \<Rightarrow> reconciler \<Rightarrow> blockref \<Rightarrow> reconcile_result \<Rightarrow> reconciler \<Rightarrow> bool" where
  "rec_case_of Seeding r head res r' \<longleftrightarrow>
     \<not> seeded r \<and> res = \<lparr>Canonical = [head], Reverted = []\<rparr> \<and> r' = rec_record head r"
| "rec_case_of Duplicate r head res r' \<longleftrightarrow>
     seeded r \<and> \<not> displaces r head \<and> res = empty_result \<and> r' = r"
| "rec_case_of Forward r head res r' \<longleftrightarrow>
     seeded r \<and> displaces r head \<and> tip r < bNumber head \<and> caught_up r head (Canonical res) \<and>
     Reverted res = [] \<and> r' = fold rec_record (Canonical res) r"
| "rec_case_of (Reorg anc) r head res r' \<longleftrightarrow>
     seeded r \<and> displaces r head \<and> reorg_to r head anc res r'"

lemma dup_iff_not_displaces:
  "(case map_of (known r) (bNumber head) of Some b \<Rightarrow> bHash b = bHash head | None \<Rightarrow> False) \<longleftrightarrow>
     \<not> displaces r head"
  by (auto simp: displaces_def split: option.splits)

lemma applyForward_spec:
  assumes nb: "numbered fetch" and tip: "tip r < bNumber head" and mx: "bNumber head \<noteq> max_u64"
  shows "\<exists>out r' w'. applyForward fetch r head w = Some (out, r', w') \<and>
    (\<forall>e. out = Inl e \<longrightarrow> r' = r \<and> e \<noteq> IndexPanic) \<and>
    (\<forall>res. out = Inr res \<longrightarrow>
       caught_up r head (Canonical res) \<and> Reverted res = [] \<and> r' = fold rec_record (Canonical res) r \<or>
       (\<exists>anc. reorg_to r head anc res r'))"
proof -
  have tmx: "tip r \<noteq> max_u64" using tip mx by (auto dest: le_ne_max [OF less_imp_le])
  have "unat (tip r + 1) = Suc (unat (tip r))" using tip by (rule unat_inc)
  with tip have cu: "catching_up r head (tip r + 1) []"
    by (simp add: catching_up_def word_less_nat_alt)
  obtain out1 w1 where fl: "forward_loop fetch r head (tip r + 1) [] w = Some (out1, w1)"
    and ne: "out1 \<noteq> FwdErr IndexPanic" and dn: "\<forall>fs. out1 = FwdDone fs \<longrightarrow> caught_up r head fs"
    using forward_loop_spec [OF nb mx cu] by fast
  obtain out2 r2 w2 where hr: "handleReorg fetch r head w1 = Some (out2, r2, w2)"
    and e2: "\<forall>e. out2 = Inl e \<longrightarrow> r2 = r \<and> e \<noteq> IndexPanic"
    and res: "\<forall>res. out2 = Inr res \<longrightarrow> (\<exists>anc. reorg_to r head anc res r2)"
    using handleReorg_spec [OF nb tmx, of head w1] by blast
  show ?thesis
    using fl ne dn hr e2 res by (cases out1) (auto simp: applyForward_def)
qed

text \<open>
  A reconciliation always ends; it fails without touching the reconciler, or it succeeds in one
  of the four ways.
\<close>

lemma OnHead_spec:
  assumes nb: "numbered fetch" and tip: "tip r \<noteq> max_u64" and mx: "bNumber head \<noteq> max_u64"
  shows "\<exists>out r' w'. OnHead fetch r head w = Some (out, r', w') \<and>
    (\<forall>e. out = Inl e \<longrightarrow> r' = r \<and> e \<noteq> IndexPanic) \<and>
    (\<forall>res. out = Inr res \<longrightarrow> (\<exists>c. rec_case_of c r head res r'))"
proof (cases "seeded r \<and> displaces r head")
  case False
  then show ?thesis
    by (auto simp: OnHead_def dup_iff_not_displaces intro: exI [of _ Seeding] exI [of _ Duplicate])
next
  case True
  show ?thesis
  proof (cases "tip r < bNumber head")
    case fwd: True
    obtain out r' w' where af: "applyForward fetch r head w = Some (out, r', w')"
      and e: "\<forall>e. out = Inl e \<longrightarrow> r' = r \<and> e \<noteq> IndexPanic"
      and ok: "\<forall>res. out = Inr res \<longrightarrow> caught_up r head (Canonical res) \<and> Reverted res = [] \<and>
            r' = fold rec_record (Canonical res) r \<or> (\<exists>anc. reorg_to r head anc res r')"
      using applyForward_spec [OF nb fwd mx, of w] by blast
    have "\<exists>c. rec_case_of c r head res r'" if "out = Inr res" for res
      using ok that True fwd
      by (metis rec_case_of.simps(3) rec_case_of.simps(4))
    then show ?thesis
      using True fwd af e by (auto simp: OnHead_def dup_iff_not_displaces)
  next
    case False
    obtain out r' w' where hr: "handleReorg fetch r head w = Some (out, r', w')"
      and e: "\<forall>e. out = Inl e \<longrightarrow> r' = r \<and> e \<noteq> IndexPanic"
      and ok: "\<forall>res. out = Inr res \<longrightarrow> (\<exists>anc. reorg_to r head anc res r')"
      using handleReorg_spec [OF nb tip, of head w] by blast
    have "\<exists>c. rec_case_of c r head res r'" if "out = Inr res" for res
      using ok that True by (metis rec_case_of.simps(4))
    then show ?thesis
      using True False hr e by (auto simp: OnHead_def dup_iff_not_displaces)
  qed
qed

lemma OnHead_success:
  assumes "numbered fetch" "tip r \<noteq> max_u64" "bNumber head \<noteq> max_u64"
    and "OnHead fetch r head w = Some (Inr res, r', w')"
  obtains c where "rec_case_of c r head res r'"
  using OnHead_spec [OF assms(1-3), of w] assms(4) by auto

section \<open>The invariant\<close>

text \<open>
  Keys are the numbers of their blocks, all within the window below the tip; the tip is known once
  seeded. On top of that, the known blocks form one gap-free chain linked by parent hashes.
\<close>

definition rec_wf :: "reconciler \<Rightarrow> bool" where
  "rec_wf r \<longleftrightarrow>
     (if seeded r then map_of (known r) (tip r) \<noteq> None else known r = [] \<and> tip r = 0) \<and>
     (\<forall>n b. map_of (known r) n = Some b \<longrightarrow> bNumber b = n \<and> n \<le> tip r \<and> threshold r \<le> n) \<and>
     0 < maxDepth r"

definition rec_chained :: "reconciler \<Rightarrow> bool" where
  "rec_chained r \<longleftrightarrow>
     (\<forall>n m. map_of (known r) n \<noteq> None \<longrightarrow> n \<le> m \<longrightarrow> m \<le> tip r \<longrightarrow> map_of (known r) m \<noteq> None) \<and>
     (\<forall>n b c. map_of (known r) n = Some b \<longrightarrow> map_of (known r) (n + 1) = Some c \<longrightarrow>
        n \<noteq> max_u64 \<longrightarrow> links b c)"

definition rec_inv :: "reconciler \<Rightarrow> bool" where
  "rec_inv r \<longleftrightarrow> rec_wf r \<and> rec_chained r"

lemma rec_inv_new: "rec_inv (NewReconciler chain depth)"
  by (auto simp: rec_inv_def rec_wf_def rec_chained_def NewReconciler_def word_gt_0)

text \<open>
  Recording a linked list on top of a gap-free, linked base re-establishes the invariant. The base
  may contain blocks in the range of the list, which are overwritten, but none above it.
\<close>

definition base_for :: "reconciler \<Rightarrow> blockref list \<Rightarrow> bool" where
  "base_for r bs \<longleftrightarrow>
     (\<forall>n b. map_of (known r) n = Some b \<longrightarrow> bNumber b = n \<and> n \<le> bNumber (last bs)) \<and>
     tip r \<le> bNumber (last bs) \<and> 0 < maxDepth r"

definition joins :: "reconciler \<Rightarrow> blockref list \<Rightarrow> bool" where
  "joins r bs \<longleftrightarrow>
     (\<forall>n m. map_of (known r) n \<noteq> None \<longrightarrow> n \<le> m \<longrightarrow> m < bNumber (hd bs) \<longrightarrow>
        map_of (known r) m \<noteq> None) \<and>
     (\<forall>n b c. map_of (known r) n = Some b \<longrightarrow> map_of (known r) (n + 1) = Some c \<longrightarrow>
        n \<noteq> max_u64 \<longrightarrow> links b c) \<and>
     (\<forall>b. map_of (known r) (bNumber (hd bs) - 1) = Some b \<longrightarrow> 0 < bNumber (hd bs) \<longrightarrow>
        links b (hd bs))"

lemma tip_fold_le: "tip r \<le> m \<Longrightarrow> \<forall>b \<in> set bs. bNumber b \<le> m \<Longrightarrow> tip (fold rec_record bs r) \<le> m"
  by (induction bs rule: rev_induct) auto

lemma tip_fold_linked:
  assumes "linked bs" "bs \<noteq> []" "tip r \<le> bNumber (last bs)"
  shows "tip (fold rec_record bs r) = bNumber (last bs)"
proof (rule order_antisym)
  show "tip (fold rec_record bs r) \<le> bNumber (last bs)"
    using assms linked_number_range [of bs]
    by (intro tip_fold_le) (auto simp: word_le_nat_alt)
  show "bNumber (last bs) \<le> tip (fold rec_record bs r)"
    using assms(2) by (cases bs rule: rev_cases) auto
qed

lemma known_fold_linked:
  assumes "linked bs" "bs \<noteq> []"
  shows "map_of (known (fold rec_record bs r)) k =
    (if threshold (fold rec_record bs r) \<le> k then
       (if unat (bNumber (hd bs)) \<le> unat k \<and> unat k \<le> unat (bNumber (last bs))
        then Some (bs ! (unat k - unat (bNumber (hd bs)))) else map_of (known r) k)
     else None)"
  using known_fold_rec_record [of bs r k] assms by (auto simp: assign_linked)

lemma rec_wf_fold:
  assumes l: "linked bs" "bs \<noteq> []" and base: "base_for r bs"
  shows "rec_wf (fold rec_record bs r)"
proof -
  let ?r = "fold rec_record bs r"
  have tip: "tip ?r = bNumber (last bs)"
    using l base by (intro tip_fold_linked) (auto simp: base_for_def)
  have len: "Suc (unat (bNumber (last bs))) = unat (bNumber (hd bs)) + length bs"
    using l by (rule linked_last_number)
  have thr: "threshold ?r \<le> tip ?r" by (simp add: word_le_nat_alt unat_threshold)
  have nth: "bNumber (bs ! (unat n - unat (bNumber (hd bs)))) = n"
    if "unat (bNumber (hd bs)) \<le> unat n" "unat n \<le> unat (bNumber (last bs))" for n
    using that linked_nth_number [OF l(1), of "unat n - unat (bNumber (hd bs))"] len
    by (simp add: word_unat_eq_iff)
  have "map_of (known ?r) (tip ?r) \<noteq> None"
    using thr linked_number_range [OF l(1), of "last bs"] l by (simp add: known_fold_linked tip)
  moreover have "bNumber b = n \<and> n \<le> tip ?r \<and> threshold ?r \<le> n"
    if "map_of (known ?r) n = Some b" for n b
    using that nth [of n] base tip l
    by (auto simp: known_fold_linked base_for_def word_le_nat_alt split: if_splits)
  ultimately show ?thesis
    using l base by (auto simp: rec_wf_def base_for_def)
qed

lemma rec_chained_fold:
  assumes l: "linked bs" "bs \<noteq> []" and base: "base_for r bs" and j: "joins r bs"
  shows "rec_chained (fold rec_record bs r)"
proof -
  let ?r = "fold rec_record bs r" and ?h = "unat (bNumber (hd bs))"
  have tip: "tip ?r = bNumber (last bs)"
    using l base by (intro tip_fold_linked) (auto simp: base_for_def)
  have len: "Suc (unat (bNumber (last bs))) = ?h + length bs"
    using l by (rule linked_last_number)
  note kn = known_fold_linked [OF l, of r]
  have gap: "map_of (known ?r) m \<noteq> None"
    if n: "map_of (known ?r) n \<noteq> None" and m: "n \<le> m" "m \<le> tip ?r" for n m
  proof (cases "?h \<le> unat m")
    case True
    with n m tip show ?thesis by (auto simp: kn word_le_nat_alt split: if_splits)
  next
    case False
    with n m have "map_of (known r) n \<noteq> None" "threshold ?r \<le> m" "m < bNumber (hd bs)"
      by (auto simp: kn word_le_nat_alt word_less_nat_alt split: if_splits)
    with j m have "map_of (known r) m \<noteq> None" by (auto simp: joins_def)
    with False \<open>threshold ?r \<le> m\<close> show ?thesis by (simp add: kn)
  qed
  have link: "links b c"
    if b: "map_of (known ?r) n = Some b" and c: "map_of (known ?r) (n + 1) = Some c"
      and n: "n \<noteq> max_u64" for n b c
  proof -
    have u: "unat (n + 1) = Suc (unat n)" using n by (rule unat_inc_max)
    consider "Suc (unat n) < ?h" | "Suc (unat n) = ?h" | "?h \<le> unat n" by linarith
    then show ?thesis
    proof cases
      case 1
      with b c u have "map_of (known r) n = Some b" "map_of (known r) (n + 1) = Some c"
        by (auto simp: kn split: if_splits)
      with j n show ?thesis by (auto simp: joins_def)
    next
      case 2
      then have e: "n + 1 = bNumber (hd bs)" using u by (simp add: word_unat_eq_iff)
      with 2 have "n = bNumber (hd bs) - 1" "0 < bNumber (hd bs)"
        by (auto simp: word_less_nat_alt eq_diff_eq)
      moreover from b 2 have "map_of (known r) n = Some b" by (auto simp: kn split: if_splits)
      ultimately have "links b (hd bs)" using j by (auto simp: joins_def)
      moreover have "?h \<le> unat (bNumber (last bs))"
        using linked_number_range [OF l(1), of "hd bs"] l(2) by simp
      with c u 2 have "c = bs ! 0" by (auto simp: kn split: if_splits)
      with l(2) have "c = hd bs" by (simp add: hd_conv_nth)
      ultimately show ?thesis by simp
    next
      case 3
      have "n + 1 \<le> tip ?r" using rec_wf_fold [OF l base] c by (auto simp: rec_wf_def)
      then have "unat n < unat (bNumber (last bs))" using u by (simp add: tip word_le_nat_alt)
      with 3 b c u len have "b = bs ! (unat n - ?h)" "c = bs ! Suc (unat n - ?h)"
          "Suc (unat n - ?h) < length bs"
        by (auto simp: kn Suc_diff_le split: if_splits)
      with l show ?thesis by (auto simp: successively_conv_nth)
    qed
  qed
  from gap link show ?thesis by (auto simp: rec_chained_def)
qed

text \<open>Each successful case records a linked list on such a base.\<close>

lemma hasAnyBelow_iff: "hasAnyBelow r n \<longleftrightarrow> (\<exists>k. k < n \<and> map_of (known r) k \<noteq> None)"
  by (auto simp: hasAnyBelow_def list_ex_keys dom_def)

lemma reorg_base:
  assumes wf: "rec_wf r" and ro: "reorg_to r head anc res r'"
  obtains r0 where "r' = fold rec_record (Canonical res) r0" "base_for r0 (Canonical res)"
    "\<And>k. map_of (known r0) k = (if unat anc < unat k then None else map_of (known r) k)"
    "maxDepth r0 = maxDepth r"
proof -
  let ?bs = "Canonical res"
  from ro obtain kn where
    kn: "\<And>k. map_of kn k = (if unat anc < unat k \<and> k \<le> tip r then None else map_of (known r) k)"
    and r': "r' = fold rec_record ?bs (r\<lparr>known := kn, tip := anc\<rparr>)"
    and l: "linked ?bs" "?bs \<noteq> []" and we: "walk_ends r anc (hd ?bs)"
    by (auto simp: reorg_to_def)
  have "bNumber (hd ?bs) \<le> bNumber (last ?bs)"
    using linked_number_range [OF l(1), of "hd ?bs"] l(2) by (simp add: word_le_nat_alt)
  moreover have "anc \<le> bNumber (hd ?bs)"
    using we unat_dec [of "bNumber (hd ?bs)"] by (auto simp: walk_ends_def word_le_nat_alt)
  ultimately have anc: "anc \<le> bNumber (last ?bs)" by simp
  have kn': "map_of kn k = (if unat anc < unat k then None else map_of (known r) k)" for k
    using wf by (cases "map_of (known r) k") (auto simp: kn rec_wf_def)
  then have "base_for (r\<lparr>known := kn, tip := anc\<rparr>) ?bs"
    using wf anc by (auto simp: base_for_def rec_wf_def word_le_nat_alt split: if_splits)
  with that [of "r\<lparr>known := kn, tip := anc\<rparr>"] r' kn' show thesis by simp
qed

text \<open>
  The view of a consumer that follows the reported deltas: drop the reverted numbers, then assign
  the canonical blocks in order.
\<close>

definition forget :: "(u64 \<rightharpoonup> blockref) \<Rightarrow> blockref list \<Rightarrow> (u64 \<rightharpoonup> blockref)" where
  "forget m bs = (\<lambda>k. if k \<in> bNumber ` set bs then None else m k)"

definition replay :: "(u64 \<rightharpoonup> blockref) \<Rightarrow> reconcile_result \<Rightarrow> (u64 \<rightharpoonup> blockref)" where
  "replay m res = assign (forget m (Reverted res)) (Canonical res)"

lemma forget_Nil [simp]: "forget m [] = m"
  by (simp add: forget_def)

lemma unat_word_of_nat_le: "k \<le> unat (n :: u64) \<Longrightarrow> unat (word_of_nat k :: u64) = k"
  using unat_bound [of n] by (simp add: unat_of_nat)

lemma forget_blocks_between:
  assumes "rec_wf r"
  shows "forget (map_of (known r)) (blocks_between (map_of (known r)) (Suc (unat anc)) (Suc (unat (tip r)))) k =
    (if unat anc < unat k then None else map_of (known r) k)"
proof -
  let ?bs = "blocks_between (map_of (known r)) (Suc (unat anc)) (Suc (unat (tip r)))"
  have wf: "bNumber b = n \<and> n \<le> tip r" if "map_of (known r) n = Some b" for n b
    using assms that by (auto simp: rec_wf_def)
  have "k \<in> bNumber ` set ?bs \<longleftrightarrow> unat anc < unat k \<and> map_of (known r) k \<noteq> None"
  proof
    assume "k \<in> bNumber ` set ?bs"
    then obtain j b where j: "Suc (unat anc) \<le> j" "j < Suc (unat (tip r))"
      "map_of (known r) (word_of_nat j) = Some b" "bNumber b = k"
      by (auto simp: set_blocks_between)
    moreover from j wf have "k = word_of_nat j" by auto
    moreover from j have "unat (word_of_nat j :: u64) = j" by (intro unat_word_of_nat_le [of _ "tip r"]) simp
    ultimately show "unat anc < unat k \<and> map_of (known r) k \<noteq> None" by auto
  next
    assume k: "unat anc < unat k \<and> map_of (known r) k \<noteq> None"
    then obtain b where b: "map_of (known r) k = Some b" by auto
    from wf [OF b] have "unat k < Suc (unat (tip r))" by (simp add: word_le_nat_alt)
    with b k have "b \<in> set ?bs"
      by (auto simp: set_blocks_between intro!: exI [of _ "unat k"])
    with b wf show "k \<in> bNumber ` set ?bs" by force
  qed
  then show ?thesis by (auto simp: forget_def)
qed

lemma rec_case_records:
  assumes wf: "rec_wf r" and c: "rec_case_of c r head res r'" and nd: "c \<noteq> Duplicate"
  obtains r0 where "r' = fold rec_record (Canonical res) r0" "base_for r0 (Canonical res)"
    "map_of (known r0) = forget (map_of (known r)) (Reverted res)"
    "linked (Canonical res)" "Canonical res \<noteq> []" "last (Canonical res) = head"
proof (cases c)
  case Seeding
  with wf c show thesis by (intro that [of r]) (auto simp: base_for_def rec_wf_def)
next
  case Duplicate
  with nd show thesis by simp
next
  case Forward
  with c have "tip r < bNumber head" by simp
  then have "\<forall>n b. map_of (known r) n = Some b \<longrightarrow> bNumber b = n \<and> n \<le> bNumber head"
    using wf by (fastforce simp: rec_wf_def)
  with Forward wf c show thesis
    by (intro that [of r]) (auto simp: base_for_def rec_wf_def caught_up_def)
next
  case (Reorg anc)
  with c have ro: "reorg_to r head anc res r'" by simp
  from reorg_base [OF wf ro] obtain r0 where r0: "r' = fold rec_record (Canonical res) r0"
      "base_for r0 (Canonical res)"
      "\<And>k. map_of (known r0) k = (if unat anc < unat k then None else map_of (known r) k)"
    by metis
  moreover have "map_of (known r0) = forget (map_of (known r)) (Reverted res)"
    using ro by (intro ext) (simp add: r0(3) reorg_to_def forget_blocks_between [OF wf])
  ultimately show thesis using ro by (intro that [of r0]) (auto simp: reorg_to_def)
qed

lemma rec_wf_step:
  assumes "rec_wf r" and "rec_case_of c r head res r'"
  shows "rec_wf r'"
proof (cases "c = Duplicate")
  case True
  with assms show ?thesis by simp
next
  case False
  from rec_case_records [OF assms False] show ?thesis by (metis rec_wf_fold)
qed

lemma replay_step:
  assumes wf: "rec_wf r" and c: "rec_case_of c r head res r'"
  shows "map_of (known r') k =
    (if threshold r' \<le> k then replay (map_of (known r)) res k else None)"
proof (cases "c = Duplicate")
  case True
  with c have "r' = r" "res = empty_result" by auto
  with wf show ?thesis
    by (cases "map_of (known r) k") (auto simp: replay_def empty_result_def rec_wf_def)
next
  case False
  from rec_case_records [OF wf c False] show ?thesis
    using known_fold_rec_record [of "Canonical res"] by (metis replay_def)
qed

text \<open>The head is the new tip in every case but that of a duplicate.\<close>

lemma tip_step:
  assumes "rec_wf r" "rec_case_of c r head res r'" "c \<noteq> Duplicate"
  shows "tip r' = bNumber head"
  using rec_case_records [OF assms] by (metis base_for_def tip_fold_linked)

lemma known_head_step:
  assumes wf: "rec_wf r" and c: "rec_case_of c r head res r'" and nd: "c \<noteq> Duplicate"
  shows "map_of (known r') (bNumber head) = Some head"
proof -
  obtain bs where bs: "Canonical res = bs @ [head]"
    using rec_case_records [OF wf c nd] by (metis append_butlast_last_id)
  have "threshold r' \<le> bNumber head"
    using tip_step [OF wf c nd] by (simp add: word_le_nat_alt unat_threshold)
  with replay_step [OF wf c] bs show ?thesis by (simp add: replay_def)
qed

text \<open>The reverted blocks are known blocks above the ancestor, in order, none of them canonical.\<close>

lemma reverted_step:
  assumes wf: "rec_wf r" and c: "rec_case_of c r head res r'"
  shows "sorted_wrt (<) (map bNumber (Reverted res))"
    and "b \<in> set (Reverted res) \<Longrightarrow> map_of (known r) (bNumber b) = Some b"
    and "b \<in> set (Reverted res) \<Longrightarrow>
      \<forall>d \<in> set (Canonical res). bNumber d = bNumber b \<longrightarrow> bHash d \<noteq> bHash b"
    and "b \<in> set (Reverted res) \<Longrightarrow> bNumber b \<noteq> 0"
proof -
  have keys: "bNumber b = k" if "map_of (known r) k = Some b" for k b
    using wf that by (auto simp: rec_wf_def)
  have "Reverted res = [] \<or> (\<exists>anc. c = Reorg anc)"
    using c by (cases c) (auto simp: empty_result_def)
  moreover have "sorted_wrt (<) (map bNumber (Reverted res)) \<and>
      (b \<in> set (Reverted res) \<longrightarrow> map_of (known r) (bNumber b) = Some b \<and>
        (\<forall>d \<in> set (Canonical res). bNumber d = bNumber b \<longrightarrow> bHash d \<noteq> bHash b) \<and> bNumber b \<noteq> 0)"
    if "c = Reorg anc" for anc
  proof -
    from c that have ro: "reorg_to r head anc res r'" and hd: "displaces r head" by auto
    then have rev: "Reverted res = blocks_between (map_of (known r)) (Suc (unat anc)) (Suc (unat (tip r)))"
      by (simp add: reorg_to_def)
    have b: "map_of (known r) (bNumber b) = Some b \<and> bNumber b \<noteq> 0" if "b \<in> set (Reverted res)"
    proof -
      from that obtain k where k: "Suc (unat anc) \<le> k" "k < Suc (unat (tip r))"
        "map_of (known r) (word_of_nat k) = Some b" by (auto simp: rev set_blocks_between)
      moreover from k have "unat (word_of_nat k :: u64) = k"
        by (intro unat_word_of_nat_le [of _ "tip r"]) simp
      ultimately show ?thesis using keys by fastforce
    qed
    moreover have "\<forall>d \<in> set (Canonical res). bNumber d = bNumber b \<longrightarrow> bHash d \<noteq> bHash b"
      if "b \<in> set (Reverted res)"
      using b that ro hd by (fastforce simp: reorg_to_def displaces_def)
    moreover have "Suc (unat (tip r)) \<le> 2 ^ 64" using unat_bound [of "tip r"] by simp
    ultimately show ?thesis
      using keys by (auto simp: rev intro!: sorted_blocks_between)
  qed
  ultimately show "sorted_wrt (<) (map bNumber (Reverted res))"
    and "b \<in> set (Reverted res) \<Longrightarrow> map_of (known r) (bNumber b) = Some b"
    and "b \<in> set (Reverted res) \<Longrightarrow>
      \<forall>d \<in> set (Canonical res). bNumber d = bNumber b \<longrightarrow> bHash d \<noteq> bHash b"
    and "b \<in> set (Reverted res) \<Longrightarrow> bNumber b \<noteq> 0"
    by auto
qed

lemma joins_forward:
  assumes "rec_inv r" "seeded r" "caught_up r head bs"
  shows "joins r bs"
proof -
  have hd: "unat (bNumber (hd bs)) = Suc (unat (tip r))" and par: "bParentHash (hd bs) = bHash (known_or_zero r (tip r))"
    using assms(3) by (auto simp: caught_up_def)
  from hd have "0 < bNumber (hd bs)" by (simp add: word_less_nat_alt)
  with hd unat_dec have t: "bNumber (hd bs) - 1 = tip r" by (metis Suc_inject word_unat_eq_iff)
  have "links b (hd bs)" if "map_of (known r) (tip r) = Some b" for b
  proof -
    have "bNumber b = tip r" using that assms(1) by (auto simp: rec_inv_def rec_wf_def)
    then show ?thesis using that hd par by (simp add: links_def known_or_zero_def)
  qed
  moreover have "m < bNumber (hd bs) \<longleftrightarrow> m \<le> tip r" for m
    using hd by (auto simp: word_less_nat_alt word_le_nat_alt)
  ultimately show ?thesis
    using assms(1) t by (auto simp: joins_def rec_inv_def rec_chained_def)
qed

lemma joins_reorg:
  assumes inv: "rec_inv r" and we: "walk_ends r anc (hd bs)"
    and kn: "\<And>k. map_of (known r0) k = (if unat anc < unat k then None else map_of (known r) k)"
  shows "joins r0 bs"
proof -
  have wf: "bNumber b = n \<and> n \<le> tip r" if "map_of (known r) n = Some b" for n b
    using inv that by (auto simp: rec_inv_def rec_wf_def)
  have gap: "map_of (known r0) m \<noteq> None"
    if n: "map_of (known r0) n \<noteq> None" and m: "n \<le> m" "m < bNumber (hd bs)" for n m
  proof -
    from m have pos: "0 < bNumber (hd bs)" by (auto simp: word_less_nat_alt)
    with we have anc: "Suc (unat anc) = unat (bNumber (hd bs))" and at: "ancestor_at r (hd bs) anc"
      using unat_dec [OF pos] by (auto simp: walk_ends_def)
    from m anc have le: "m \<le> anc" by (auto simp: word_le_nat_alt word_less_nat_alt)
    from n have kn_n: "map_of (known r) n \<noteq> None" by (auto simp: kn split: if_splits)
    have "n < anc + 1"
      using le m anc unat_inc_max [of anc] pos we
      by (auto simp: word_le_nat_alt word_less_nat_alt walk_ends_def)
    with kn_n at have "map_of (known r) anc \<noteq> None"
      by (auto simp: ancestor_at_def hasAnyBelow_iff split: option.splits)
    with wf le have "m \<le> tip r" by (auto intro: order_trans)
    with inv kn_n m have "map_of (known r) m \<noteq> None" by (auto simp: rec_inv_def rec_chained_def)
    with le show ?thesis by (simp add: kn word_le_nat_alt)
  qed
  have "links b (hd bs)"
    if b: "map_of (known r0) (bNumber (hd bs) - 1) = Some b" and pos: "0 < bNumber (hd bs)" for b
  proof -
    from b have "map_of (known r) (bNumber (hd bs) - 1) = Some b" by (auto simp: kn split: if_splits)
    moreover from this wf unat_dec [OF pos] have "unat (bNumber (hd bs)) = Suc (unat (bNumber b))" by auto
    ultimately show ?thesis
      using we pos by (auto simp: links_def walk_ends_def ancestor_at_def)
  qed
  with gap inv show ?thesis
    by (auto simp: joins_def rec_inv_def rec_chained_def kn split: if_splits)
qed

lemma rec_inv_step:
  assumes inv: "rec_inv r" and c: "rec_case_of c r head res r'"
  shows "rec_inv r'"
proof (cases "c = Duplicate")
  case True
  with assms show ?thesis by simp
next
  case False
  have wf: "rec_wf r" using inv by (simp add: rec_inv_def)
  from rec_case_records [OF wf c False] obtain r0 where r0: "r' = fold rec_record (Canonical res) r0"
    "base_for r0 (Canonical res)" "map_of (known r0) = forget (map_of (known r)) (Reverted res)"
    "linked (Canonical res)" "Canonical res \<noteq> []" .
  have "joins r0 (Canonical res)"
  proof (cases c)
    case Seeding
    with c wf r0(3) show ?thesis by (auto simp: joins_def rec_wf_def)
  next
    case Forward
    with c inv have "joins r (Canonical res)" by (auto intro: joins_forward)
    with Forward c r0(3) show ?thesis by (simp add: joins_def)
  next
    case (Reorg anc)
    with c show ?thesis
      by (intro joins_reorg [OF inv, of anc])
        (auto simp: reorg_to_def r0(3) forget_blocks_between [OF wf])
  qed (use False in simp)
  with r0 show ?thesis by (simp add: rec_inv_def rec_wf_fold rec_chained_fold)
qed

section \<open>Loading the stored window\<close>

text \<open>
  \<open>LoadKnown\<close> prunes once at the end, \<open>record\<close> after every block; on a reconciler without blocks the
  result is the same.
\<close>

lemma fold_note_block_simps [simp]:
  "maxDepth (fold note_block bs r) = maxDepth r" "rcChain (fold note_block bs r) = rcChain r"
  "seeded (fold note_block bs r) \<longleftrightarrow> seeded r \<or> bs \<noteq> []"
  "tip (fold note_block bs r) = tip (fold rec_record bs r)"
  "map_of (known (fold note_block bs r)) = assign (map_of (known r)) bs"
  by (induction bs rule: rev_induct) (auto simp: known_note_block)

lemma LoadKnown_simps [simp]:
  "maxDepth (LoadKnown bs r) = maxDepth r" "rcChain (LoadKnown bs r) = rcChain r"
  "seeded (LoadKnown bs r) \<longleftrightarrow> seeded r \<or> bs \<noteq> []"
  "tip (LoadKnown bs r) = tip (fold rec_record bs r)"
  by (simp_all add: LoadKnown_def)

lemma threshold_LoadKnown: "threshold (LoadKnown bs r) = threshold (fold rec_record bs r)"
  by (simp add: threshold_def)

lemma known_LoadKnown:
  assumes "known r = []"
  shows "map_of (known (LoadKnown bs r)) = map_of (known (fold rec_record bs r))"
proof (cases "bs = []")
  case True
  with assms show ?thesis by (simp add: LoadKnown_def prune_def Let_def gm_keep_def)
next
  case False
  show ?thesis
  proof
    fix k
    have "threshold (fold note_block bs r) = threshold (fold rec_record bs r)"
      by (simp add: threshold_def)
    with known_fold_rec_record [of bs r k] False
    show "map_of (known (LoadKnown bs r)) k = map_of (known (fold rec_record bs r)) k"
      by (simp add: LoadKnown_def known_prune)
  qed
qed

lemma LoadKnown_inv:
  assumes r: "\<not> seeded r" "rec_inv r" and bs: "linked bs"
  shows "rec_inv (LoadKnown bs r)"
proof (cases "bs = []")
  case True
  with r show ?thesis
    by (auto simp: LoadKnown_def prune_def Let_def gm_keep_def rec_inv_def rec_wf_def rec_chained_def)
next
  case False
  have kn: "known r = []" "tip r = 0" "0 < maxDepth r" using r by (auto simp: rec_inv_def rec_wf_def)
  then have "base_for r bs" "joins r bs" by (auto simp: base_for_def joins_def)
  with bs False have "rec_inv (fold rec_record bs r)"
    by (simp add: rec_inv_def rec_wf_fold rec_chained_fold)
  then show ?thesis
    using False by (simp add: rec_inv_def rec_wf_def rec_chained_def known_LoadKnown kn threshold_LoadKnown)
qed

text \<open>Stored blocks need not be linked: a reorganisation to a shorter chain leaves the old blocks
  above the new tip in the store. The well-formedness of the window does not depend on it.\<close>

lemma assign_Some: "assign m bs k = Some b \<Longrightarrow> b \<in> set bs \<and> bNumber b = k \<or> m k = Some b"
  by (induction bs rule: rev_induct) (auto split: if_splits)

lemma assign_None: "assign m bs k = None \<longleftrightarrow> m k = None \<and> k \<notin> bNumber ` set bs"
  by (induction bs rule: rev_induct) auto

lemma tip_fold_mem: "tip r = 0 \<Longrightarrow> bs \<noteq> [] \<Longrightarrow> tip (fold rec_record bs r) \<in> bNumber ` set bs"
proof (induction bs rule: rev_induct)
  case (snoc b bs)
  then show ?case by (cases "bs = []") (auto simp: max_def)
qed simp

lemma tip_fold_ge: "b \<in> set bs \<Longrightarrow> bNumber b \<le> tip (fold rec_record bs r)"
  by (induction bs rule: rev_induct) (auto simp: le_max_iff_disj)

lemma LoadKnown_wf:
  assumes r: "\<not> seeded r" "rec_wf r"
  shows "rec_wf (LoadKnown bs r)"
proof (cases "bs = []")
  case True
  with r show ?thesis by (auto simp: LoadKnown_def prune_def Let_def gm_keep_def rec_wf_def)
next
  case False
  let ?r = "fold rec_record bs r"
  have kn: "known r = []" "tip r = 0" "0 < maxDepth r" using r by (auto simp: rec_wf_def)
  have eq: "map_of (known (LoadKnown bs r)) k =
      (if threshold ?r \<le> k then assign Map.empty bs k else None)" for k
    using known_fold_rec_record [of bs r k] False by (simp add: known_LoadKnown kn)
  have thr: "threshold ?r \<le> tip ?r" by (simp add: word_le_nat_alt unat_threshold)
  have "map_of (known (LoadKnown bs r)) (tip ?r) \<noteq> None"
    using tip_fold_mem [OF kn(2) False] thr by (simp add: eq assign_None)
  moreover have "bNumber b = k \<and> k \<le> tip ?r \<and> threshold ?r \<le> k"
    if "map_of (known (LoadKnown bs r)) k = Some b" for k b
    using that by (auto simp: eq dest!: assign_Some intro: tip_fold_ge split: if_splits)
  ultimately show ?thesis
    using kn False by (auto simp: rec_wf_def threshold_LoadKnown)
qed

section \<open>Reachable reconcilers\<close>

text \<open>
  The states a reconciler goes through: created, optionally loaded once from the store, then given
  heads one after the other, with the reader in any state, the outcome being a success or an error.
\<close>

inductive rec_reach :: "'w reader \<Rightarrow> reconciler \<Rightarrow> bool" for fetch where
  new: "rec_reach fetch (NewReconciler chain depth)"
| load: "rec_reach fetch r \<Longrightarrow> \<not> seeded r \<Longrightarrow> (\<forall>b \<in> set bs. bNumber b \<noteq> max_u64) \<Longrightarrow>
     rec_reach fetch (LoadKnown bs r)"
| head: "rec_reach fetch r \<Longrightarrow> bNumber head \<noteq> max_u64 \<Longrightarrow>
     OnHead fetch r head w = Some (out, r', w') \<Longrightarrow> rec_reach fetch r'"

lemma tip_fold_ne_max:
  "tip r \<noteq> max_u64 \<Longrightarrow> \<forall>b \<in> set bs. bNumber b \<noteq> max_u64 \<Longrightarrow> tip (fold rec_record bs r) \<noteq> max_u64"
  by (induction bs rule: rev_induct) (auto simp: max_def)

lemma OnHead_outcome:
  assumes nb: "numbered fetch" and wf: "rec_wf r" and tip: "tip r \<noteq> max_u64"
    and mx: "bNumber head \<noteq> max_u64" and oh: "OnHead fetch r head w = Some (out, r', w')"
  shows "rec_wf r' \<and> tip r' \<noteq> max_u64 \<and> (rec_inv r \<longrightarrow> rec_inv r')"
proof (cases out)
  case (Inl e)
  with oh OnHead_spec [OF nb tip mx, of w] wf tip show ?thesis by auto
next
  case (Inr res)
  with oh OnHead_success [OF nb tip mx] obtain c where c: "rec_case_of c r head res r'" by metis
  have "tip r' \<noteq> max_u64"
    using c tip tip_step [OF wf c] mx by (cases "c = Duplicate") auto
  with rec_wf_step [OF wf c] rec_inv_step [OF _ c] show ?thesis by simp
qed

lemma rec_reach_wf:
  assumes "numbered fetch"
  shows "rec_reach fetch r \<Longrightarrow> rec_wf r \<and> tip r \<noteq> max_u64"
proof (induction rule: rec_reach.induct)
  case (new chain depth)
  then show ?case using rec_inv_new [of chain depth] by (simp add: NewReconciler_def rec_inv_def)
next
  case (load r bs)
  then show ?case by (simp add: LoadKnown_wf tip_fold_ne_max)
next
  case (head r head w out r' w')
  from head.IH show ?case
    using OnHead_outcome [OF assms _ _ head.hyps(2,3)] by auto
qed

end
