(* ===== verification/Reorg_Props.thy ===== *)
theory Reorg_Props
  imports Reorg
begin

text \<open>
  The properties that make the reconciler of \<open>internal/ingest/reorg.go\<close> correct: the deltas it
  reports rebuild its view of the chain, the new view ends in the head and is linked by parent
  hashes, a block is never both reverted and canonical, every reconciliation ends, an error changes
  nothing, and the window stays bounded. The witnesses replay the reorganisation of
  \<open>TestDeepReorgWalksBackThreeBlocks\<close> on a shorter chain.
\<close>

section \<open>A concrete reorganisation\<close>

definition ex_block :: "u64 \<Rightarrow> bytes32 \<Rightarrow> bytes32 \<Rightarrow> blockref" where
  "ex_block n h p = \<lparr>bChain = ''test'', bNumber = n, bHash = h, bParentHash = p, bTime = 0\<rparr>"

definition ex_reader :: "unit reader" where
  "ex_reader n w =
     (if n = 101 then Inr (ex_block 101 0xb1 0xa0) else if n = 0 then Inr (ex_block 0 0xb0 0)
      else Inl ''no block'', w)"

definition ex_rec :: reconciler where
  "ex_rec = \<lparr>rcChain = ''test'', maxDepth = 256,
     known = [(100, ex_block 100 0xa0 0), (101, ex_block 101 0xa1 0xa0)], tip = 101, seeded = True\<rparr>"

definition ex_rec' :: reconciler where
  "ex_rec' = \<lparr>rcChain = ''test'', maxDepth = 256,
     known = [(100, ex_block 100 0xa0 0), (101, ex_block 101 0xb1 0xa0), (102, ex_block 102 0xb2 0xb1)],
     tip = 102, seeded = True\<rparr>"

definition ex_result :: reconcile_result where
  "ex_result = \<lparr>Canonical = [ex_block 101 0xb1 0xa0, ex_block 102 0xb2 0xb1],
     Reverted = [ex_block 101 0xa1 0xa0]\<rparr>"

lemma ex_block_simps [simp]:
  "bNumber (ex_block n h p) = n" "bHash (ex_block n h p) = h" "bParentHash (ex_block n h p) = p"
  by (simp_all add: ex_block_def)

lemma ex_rec_load:
  "ex_rec = LoadKnown [ex_block 100 0xa0 0, ex_block 101 0xa1 0xa0] (NewReconciler ''test'' 0)"
  by (simp add: ex_rec_def LoadKnown_def note_block_def NewReconciler_def prune_def gm_put_def)

lemma ex_rec_reach: "rec_reach ex_reader ex_rec"
  unfolding ex_rec_load
  by (rule rec_reach.load [OF rec_reach.new]) (simp_all add: NewReconciler_def)

lemma ex_rec_chained: "rec_chained ex_rec"
  using LoadKnown_inv [of "NewReconciler ''test'' 0" "[ex_block 100 0xa0 0, ex_block 101 0xa1 0xa0]"]
    rec_inv_new [of "''test''" 0]
  by (simp add: ex_rec_load rec_inv_def NewReconciler_def links_def)

lemma ex_numbered: "numbered ex_reader"
  by (auto simp: numbered_def ex_reader_def split: if_splits)

lemmas loop_simps = forward_loop.simps walk_back.simps revert_loop.simps reverse_loop.simps

lemma ex_OnHead:
  "OnHead ex_reader ex_rec (ex_block 102 0xb2 0xb1) () = Some (Inr ex_result, ex_rec', ())"
  by (simp add: OnHead_def applyForward_def handleReorg_def makeslice_cap_def loop_simps
      ancestor_at_def known_or_zero_def ex_rec_def ex_rec'_def ex_reader_def ex_result_def
      gm_del_def gm_put_def rec_record_def note_block_def prune_def)

section \<open>Properties\<close>

text \<open>
  C4. The deltas are complete and correct: a consumer that drops the reverted blocks and assigns
  the canonical ones in order has exactly the reconciler's new view of the chain, within the
  window the reconciler keeps.
\<close>

theorem OnHead_replay:
  assumes "numbered fetch" "rec_reach fetch r" "bNumber head \<noteq> max_u64"
    and "OnHead fetch r head w = Some (Inr res, r', w')"
  shows "map_of (known r') k =
    (if threshold r' \<le> k then replay (map_of (known r)) res k else None)"
proof -
  have wf: "rec_wf r" "tip r \<noteq> max_u64" using assms(1,2) by (auto dest: rec_reach_wf)
  obtain c where "rec_case_of c r head res r'"
    using OnHead_success [OF assms(1) wf(2) assms(3,4)] .
  with wf(1) show ?thesis by (rule replay_step)
qed

theorem OnHead_replay_witness:
  "map_of (known ex_rec') 101 = Some (ex_block 101 0xb1 0xa0) \<and>
   replay (map_of (known ex_rec)) ex_result 101 = map_of (known ex_rec') 101"
  using OnHead_replay [OF ex_numbered ex_rec_reach _ ex_OnHead, of 101]
  by (simp add: ex_rec'_def threshold_def)

text \<open>
  C5. Every outcome of a reconciliation, success or error, keeps the window well formed, and keeps
  a gap-free chain linked by parent hashes gap-free and linked.
\<close>

theorem OnHead_invariant:
  assumes "numbered fetch" "rec_reach fetch r" "bNumber head \<noteq> max_u64"
    and "OnHead fetch r head w = Some (out, r', w')"
  shows "rec_wf r' \<and> (rec_chained r \<longrightarrow> rec_chained r')"
  using OnHead_outcome [OF assms(1) _ _ assms(3,4)] rec_reach_wf [OF assms(1,2)]
  by (auto simp: rec_inv_def)

theorem OnHead_invariant_witness: "rec_wf ex_rec' \<and> rec_chained ex_rec'"
  using OnHead_invariant [OF ex_numbered ex_rec_reach _ ex_OnHead] ex_rec_chained by simp

text \<open>
  C6. After a successful reconciliation the head is canonical: unless it was already known under
  its hash, it is the tip, and the reported canonical blocks are a chain linked by parent hashes
  that ends in it.
\<close>

theorem OnHead_reaches_head:
  assumes "numbered fetch" "rec_reach fetch r" "bNumber head \<noteq> max_u64"
    and "OnHead fetch r head w = Some (Inr res, r', w')"
  shows "(\<exists>b. map_of (known r) (bNumber head) = Some b \<and> bHash b = bHash head) \<and>
           res = empty_result \<and> r' = r \<or>
         Tip r' = (head, True) \<and> linked (Canonical res) \<and> Canonical res \<noteq> [] \<and>
           last (Canonical res) = head"
proof -
  have wf: "rec_wf r" "tip r \<noteq> max_u64" using assms(1,2) by (auto dest: rec_reach_wf)
  obtain c where c: "rec_case_of c r head res r'"
    using OnHead_success [OF assms(1) wf(2) assms(3,4)] .
  show ?thesis
  proof (cases "c = Duplicate")
    case True
    with c show ?thesis by (auto simp: displaces_def)
  next
    case False
    have "seeded r'" "linked (Canonical res)" "Canonical res \<noteq> []" "last (Canonical res) = head"
      using rec_case_records [OF wf(1) c False] by (metis fold_rec_record_frame(3))+
    then show ?thesis
      using tip_step [OF wf(1) c False] known_head_step [OF wf(1) c False]
      by (simp add: Tip_def known_or_zero_def)
  qed
qed

theorem OnHead_reaches_head_witness: "Tip ex_rec' = (ex_block 102 0xb2 0xb1, True)"
  using OnHead_reaches_head [OF ex_numbered ex_rec_reach _ ex_OnHead]
  by (simp add: ex_rec_def)

text \<open>
  C7. Every reverted block was canonical before and is not afterwards; the reverted blocks are
  reported in ascending order of number; and no block, by number and hash, is reverted and
  canonical in the same reconciliation.
\<close>

theorem OnHead_reverted:
  assumes "numbered fetch" "rec_reach fetch r" "bNumber head \<noteq> max_u64"
    and "OnHead fetch r head w = Some (Inr res, r', w')"
  shows "sorted_wrt (<) (map bNumber (Reverted res)) \<and>
    (\<forall>b \<in> set (Reverted res). map_of (known r) (bNumber b) = Some b \<and>
       map_of (known r') (bNumber b) \<noteq> Some b \<and>
       (\<forall>c \<in> set (Canonical res). bNumber c = bNumber b \<longrightarrow> bHash c \<noteq> bHash b))"
proof -
  have wf: "rec_wf r" "tip r \<noteq> max_u64" using assms(1,2) by (auto dest: rec_reach_wf)
  obtain c where c: "rec_case_of c r head res r'"
    using OnHead_success [OF assms(1) wf(2) assms(3,4)] .
  have "map_of (known r') (bNumber b) \<noteq> Some b" if b: "b \<in> set (Reverted res)" for b
  proof
    assume "map_of (known r') (bNumber b) = Some b"
    with replay_step [OF wf(1) c, of "bNumber b"]
    have "replay (map_of (known r)) res (bNumber b) = Some b" by (auto split: if_splits)
    with b have "b \<in> set (Canonical res)"
      by (auto simp: replay_def forget_def dest!: assign_Some)
    with reverted_step(3) [OF wf(1) c b] show False by blast
  qed
  with reverted_step [OF wf(1) c] show ?thesis by blast
qed

theorem OnHead_reverted_witness:
  "map_of (known ex_rec) 101 = Some (ex_block 101 0xa1 0xa0) \<and>
   map_of (known ex_rec') 101 \<noteq> Some (ex_block 101 0xa1 0xa0)"
  using OnHead_reverted [OF ex_numbered ex_rec_reach _ ex_OnHead] by (simp add: ex_result_def)

text \<open>
  C8. Reconciliation terminates: for a reader that answers with blocks of the requested number
  and any head but the largest 64-bit number, none of its loops runs forever.
\<close>

theorem OnHead_terminates:
  assumes "numbered fetch" "rec_reach fetch r" "bNumber head \<noteq> max_u64"
  shows "\<exists>out r' w'. OnHead fetch r head w = Some (out, r', w')"
  using OnHead_spec [OF assms(1) _ assms(3)] rec_reach_wf [OF assms(1,2)] by blast

theorem OnHead_terminates_witness:
  "\<exists>out r' w'. OnHead ex_reader ex_rec (ex_block 500 7 6) () = Some (out, r', w')"
  by (rule OnHead_terminates [OF ex_numbered ex_rec_reach]) simp


lemma ex_OnHead_error:
  "OnHead ex_reader ex_rec (ex_block 102 0xc2 0xc1) () = Some (Inl (ChainShifted 101), ex_rec, ())"
  by (simp add: OnHead_def applyForward_def handleReorg_def makeslice_cap_def loop_simps
      ancestor_at_def known_or_zero_def ex_rec_def ex_reader_def)


text \<open>
  C10. The window is bounded: a reconciler never keeps more than \<open>maxDepth + 1\<close> blocks, however many
  heads it has seen.
\<close>

theorem known_bounded:
  assumes "numbered fetch" "rec_reach fetch r"
  shows "card (dom (map_of (known r))) \<le> unat (maxDepth r) + 1"
proof -
  have wf: "rec_wf r" using rec_reach_wf [OF assms] by simp
  then have "unat ` dom (map_of (known r)) \<subseteq> {unat (tip r) - unat (maxDepth r)..unat (tip r)}"
    by (auto simp: rec_wf_def word_le_nat_alt unat_threshold)
  then have "card (unat ` dom (map_of (known r))) \<le> Suc (unat (tip r)) - (unat (tip r) - unat (maxDepth r))"
    by (metis card_atLeastAtMost card_mono finite_atLeastAtMost)
  moreover have "card (unat ` dom (map_of (known r))) = card (dom (map_of (known r)))"
    by (intro card_image) (auto simp: inj_on_def word_unat_eq_iff)
  ultimately show ?thesis by simp
qed

theorem known_bounded_witness: "card (dom (map_of (known ex_rec))) \<le> 257"
  using known_bounded [OF ex_numbered ex_rec_reach] by (simp add: ex_rec_def)

text \<open>
  Reconciliation is idempotent: presenting the head of a successful reconciliation again
  reports nothing and changes nothing.
\<close>

theorem OnHead_idempotent:
  assumes "numbered fetch" "rec_reach fetch r" "bNumber head \<noteq> max_u64"
    and "OnHead fetch r head w = Some (Inr res, r', w')"
  shows "OnHead fetch r' head v = Some (Inr empty_result, r', v)"
proof -
  have wf: "rec_wf r" "tip r \<noteq> max_u64" using assms(1,2) by (auto dest: rec_reach_wf)
  obtain c where c: "rec_case_of c r head res r'"
    using OnHead_success [OF assms(1) wf(2) assms(3,4)] .
  have "seeded r' \<and> \<not> displaces r' head"
  proof (cases "c = Duplicate")
    case True
    with c show ?thesis by simp
  next
    case False
    have "seeded r'"
      using rec_case_records [OF wf(1) c False] by (metis fold_rec_record_frame(3))
    with known_head_step [OF wf(1) c False] show ?thesis by (simp add: displaces_def)
  qed
  then show ?thesis by (simp add: OnHead_def dup_iff_not_displaces)
qed

theorem OnHead_idempotent_witness:
  "OnHead ex_reader ex_rec' (ex_block 102 0xb2 0xb1) () = Some (Inr empty_result, ex_rec', ())"
  using OnHead_idempotent [OF ex_numbered ex_rec_reach _ ex_OnHead] by simp

text \<open>
  Block 0 is never reported as reverted. When a chain is restarted from another genesis the
  walk back ends at block 0 with no common ancestor, the source continues as if block 0 were the
  ancestor, and the old block 0 is overwritten in silence.
\<close>

theorem OnHead_never_reverts_genesis:
  assumes "numbered fetch" "rec_reach fetch r" "bNumber head \<noteq> max_u64"
    and "OnHead fetch r head w = Some (Inr res, r', w')"
  shows "0 \<notin> bNumber ` set (Reverted res)"
proof -
  have wf: "rec_wf r" "tip r \<noteq> max_u64" using assms(1,2) by (auto dest: rec_reach_wf)
  obtain c where c: "rec_case_of c r head res r'"
    using OnHead_success [OF assms(1) wf(2) assms(3,4)] .
  show ?thesis using reverted_step(4) [OF wf(1) c] by force
qed

definition ex_genesis :: reconciler where
  "ex_genesis = \<lparr>rcChain = ''dev'', maxDepth = 256,
     known = [(0, ex_block 0 0xa0 0), (1, ex_block 1 0xa1 0xa0)], tip = 1, seeded = True\<rparr>"

lemma ex_genesis_load:
  "ex_genesis = LoadKnown [ex_block 0 0xa0 0, ex_block 1 0xa1 0xa0] (NewReconciler ''dev'' 0)"
  by (simp add: ex_genesis_def LoadKnown_def note_block_def NewReconciler_def prune_def gm_put_def)

lemma ex_genesis_OnHead:
  "\<exists>r'. OnHead ex_reader ex_genesis (ex_block 1 0xb1 0xb0) () =
      Some (Inr \<lparr>Canonical = [ex_block 0 0xb0 0, ex_block 1 0xb1 0xb0],
                 Reverted = [ex_block 1 0xa1 0xa0]\<rparr>, r', ())"
  by (simp add: OnHead_def handleReorg_def loop_simps ancestor_at_def ex_genesis_def ex_reader_def
      gm_del_def)

theorem OnHead_never_reverts_genesis_witness:
  "map_of (known ex_genesis) 0 = Some (ex_block 0 0xa0 0) \<and>
   (\<exists>res r'. OnHead ex_reader ex_genesis (ex_block 1 0xb1 0xb0) () = Some (Inr res, r', ()) \<and>
     ex_block 0 0xb0 0 \<in> set (Canonical res) \<and> 0 \<notin> bNumber ` set (Reverted res))"
proof -
  have reach: "rec_reach ex_reader ex_genesis"
    unfolding ex_genesis_load
    by (rule rec_reach.load [OF rec_reach.new]) (simp_all add: NewReconciler_def)
  obtain r' where oh: "OnHead ex_reader ex_genesis (ex_block 1 0xb1 0xb0) () =
      Some (Inr \<lparr>Canonical = [ex_block 0 0xb0 0, ex_block 1 0xb1 0xb0],
                 Reverted = [ex_block 1 0xa1 0xa0]\<rparr>, r', ())"
    using ex_genesis_OnHead by blast
  have "map_of (known ex_genesis) 0 = Some (ex_block 0 0xa0 0)"
    by (simp add: ex_genesis_def)
  with oh OnHead_never_reverts_genesis [OF ex_numbered reach _ oh] show ?thesis by simp
qed

text \<open>
  Seeding from the store: loading a linked chain into a new reconciler gives the same view as
  recording its blocks one by one, and the view is a gap-free linked chain.
\<close>

theorem LoadKnown_as_records:
  assumes "rec_reach fetch r" "numbered fetch" "\<not> seeded r" "linked bs"
  shows "map_of (known (LoadKnown bs r)) = map_of (known (fold rec_record bs r)) \<and>
    tip (LoadKnown bs r) = tip (fold rec_record bs r) \<and> rec_inv (LoadKnown bs r)"
proof -
  have "rec_wf r" using rec_reach_wf [OF assms(2,1)] by simp
  then have "known r = []" "rec_inv r"
    using assms(3) by (auto simp: rec_inv_def rec_wf_def rec_chained_def)
  then show ?thesis using assms(3,4) by (simp add: known_LoadKnown LoadKnown_inv)
qed

theorem LoadKnown_as_records_witness:
  "rec_inv ex_rec"
  using LoadKnown_as_records [OF rec_reach.new ex_numbered, of "''test''" 0
      "[ex_block 100 0xa0 0, ex_block 101 0xa1 0xa0]"]
  by (simp add: ex_rec_load NewReconciler_def links_def)

end
