(* ===== verification/Values.thy ===== *)
theory Values
  imports Pipeline
begin

text \<open>
  What the standard library does to the dynamic values of the pipeline: rounding an integer to a
  \<open>float64\<close> (\<open>big.Float.Float64\<close>, JSON numbers), and the JSON values that \<open>encoding/json\<close> writes and
  reads back. JSON is kept as the value tree that its text denotes.
\<close>

section \<open>Integers as float64\<close>

fun bit_length :: "nat \<Rightarrow> nat" where
  "bit_length n = (if n = 0 then 0 else Suc (bit_length (n div 2)))"

declare bit_length.simps [simp del]

text \<open>Dividing by \<open>2 ^ k\<close>, rounding to the nearest integer and to the even one on a tie.\<close>

definition round_half_even :: "nat \<Rightarrow> nat \<Rightarrow> nat" where
  "round_half_even n k =
     (let q = n div 2 ^ k; r = n mod 2 ^ k
      in if 2 ^ k < 2 * r \<or> (2 * r = 2 ^ k \<and> odd q) then q + 1 else q)"

definition f64_nat :: "nat \<Rightarrow> nat" where
  "f64_nat n = (let k = bit_length n - 53 in round_half_even n k * 2 ^ k)"

text \<open>The \<open>float64\<close> nearest to an integer, as the integer it equals. No integer of the program has more
  than 256 bits, so the result is finite.\<close>

definition f64_of_int :: "int \<Rightarrow> int" where
  "f64_of_int i = sgn i * int (f64_nat (nat \<bar>i\<bar>))"

lemma bit_length_0 [simp]: "bit_length 0 = 0"
  by (simp add: bit_length.simps)

lemma bit_length_le: "bit_length n \<le> k \<longleftrightarrow> n < 2 ^ k"
proof (induction k arbitrary: n)
  case 0
  then show ?case by (simp add: bit_length.simps [of n])
next
  case (Suc k)
  have "bit_length n \<le> Suc k \<longleftrightarrow> bit_length (n div 2) \<le> k"
    by (cases "n = 0") (simp_all add: bit_length.simps [of n])
  also have "\<dots> \<longleftrightarrow> n div 2 < 2 ^ k" by (rule Suc)
  also have "\<dots> \<longleftrightarrow> n < 2 ^ Suc k" by auto
  finally show ?case .
qed

lemma round_half_even_0 [simp]: "round_half_even n 0 = n"
  by (simp add: round_half_even_def)

text \<open>Integers below \<open>2 ^ 53\<close> are exact.\<close>

lemma f64_nat_exact: "n < 2 ^ 53 \<Longrightarrow> f64_nat n = n"
  using bit_length_le [of n 53] by (simp add: f64_nat_def)

lemma f64_of_int_exact: "\<bar>i\<bar> < 2 ^ 53 \<Longrightarrow> f64_of_int i = i"
  by (simp add: f64_of_int_def f64_nat_exact nat_less_iff abs_mult_sgn mult.commute)

lemma round_half_even_mono:
  assumes "m \<le> n"
  shows "round_half_even m k \<le> round_half_even n k"
proof -
  let ?d = "2 ^ k :: nat"
  have q: "m div ?d \<le> n div ?d" using assms by (rule div_le_mono)
  show ?thesis
  proof (cases "m div ?d = n div ?d")
    case True
    have "m div ?d * ?d + m mod ?d \<le> n div ?d * ?d + n mod ?d"
      using assms by (simp only: div_mult_mod_eq)
    with True have "m mod ?d \<le> n mod ?d" by simp
    with True show ?thesis by (auto simp: round_half_even_def Let_def)
  next
    case False
    with q show ?thesis by (auto simp: round_half_even_def Let_def)
  qed
qed

lemma round_half_even_error:
  "2 * round_half_even n k * 2 ^ k \<le> 2 * n + 2 ^ k \<and> 2 * n \<le> 2 * round_half_even n k * 2 ^ k + 2 ^ k"
proof -
  define d :: nat where "d = 2 ^ k"
  define q r where "q = n div d" and "r = n mod d"
  have n: "n = q * d + r" unfolding q_def r_def by (rule div_mult_mod_eq [symmetric])
  have "r < d" by (simp add: d_def r_def)
  then have "2 * (if d < 2 * r \<or> (2 * r = d \<and> odd q) then q + 1 else q) * d \<le> 2 * (q * d + r) + d \<and>
      2 * (q * d + r) \<le> 2 * (if d < 2 * r \<or> (2 * r = d \<and> odd q) then q + 1 else q) * d + d"
    by (auto simp: algebra_simps)
  then show ?thesis
    by (simp only: round_half_even_def Let_def flip: d_def q_def r_def n)
qed

section \<open>JSON\<close>

datatype json = JNull | JBool bool | JNum int | JStr string | JArr "json list" | JObj "(string \<times> json) list"

text \<open>Standard base64, which \<open>encoding/json\<close> uses for a byte slice.\<close>

definition b64_digit :: "nat \<Rightarrow> char" where
  "b64_digit n = ''ABCDEFGHIJKLMNOPQRSTUVWXYZabcdefghijklmnopqrstuvwxyz0123456789+/'' ! (n mod 64)"

fun base64 :: "bytes \<Rightarrow> string" where
  "base64 [] = []"
| "base64 [a] =
     [b64_digit (unat a div 4), b64_digit (unat a mod 4 * 16), CHR ''='', CHR ''='']"
| "base64 [a, b] =
     [b64_digit (unat a div 4), b64_digit (unat a mod 4 * 16 + unat b div 16),
      b64_digit (unat b mod 16 * 4), CHR ''='']"
| "base64 (a # b # c # bs) =
     [b64_digit (unat a div 4), b64_digit (unat a mod 4 * 16 + unat b div 16),
      b64_digit (unat b mod 16 * 4 + unat c div 64), b64_digit (unat c mod 64)] @ base64 bs"

text \<open>
  \<open>json.Marshal\<close>: addresses and hashes marshal as their hexadecimal text, byte arrays as arrays of
  numbers, byte slices as base64.
\<close>

fun to_json :: "goval \<Rightarrow> json" where
  "to_json VNil = JNull"
| "to_json (VBool b) = JBool b"
| "to_json (VString s) = JStr s"
| "to_json (VUint n) = JNum (uint n)"
| "to_json (VFloat i) = JNum i"
| "to_json (VBigInt i) = JNum i"
| "to_json (VAddress a) = JStr (hex0x (be_bytes 20 a))"
| "to_json (VHash h) = JStr (hex0x (be_bytes 32 h))"
| "to_json (VBytes32 h) = JArr (map (\<lambda>b. JNum (uint b)) (be_bytes 32 h))"
| "to_json (VBytes20 a) = JArr (map (\<lambda>b. JNum (uint b)) (be_bytes 20 a))"
| "to_json (VBytes bs) = JStr (base64 bs)"
| "to_json (VMap m) = JObj (map (\<lambda>(k, v). (k, to_json v)) m)"
| "to_json (VList vs) = JArr (map to_json vs)"

text \<open>\<open>json.Unmarshal\<close> into an \<open>any\<close>: every number becomes a \<open>float64\<close>.\<close>

fun from_json :: "json \<Rightarrow> goval" where
  "from_json JNull = VNil"
| "from_json (JBool b) = VBool b"
| "from_json (JNum i) = VFloat (f64_of_int i)"
| "from_json (JStr s) = VString s"
| "from_json (JArr js) = VList (map from_json js)"
| "from_json (JObj kvs) = VMap (map (\<lambda>(k, j). (k, from_json j)) kvs)"

text \<open>The environment that comes back from the payload column of an alert.\<close>

definition stored_env :: "envmap \<Rightarrow> envmap" where
  "stored_env env = map (\<lambda>(k, v). (k, from_json (to_json v))) env"

text \<open>Strings and booleans survive the round trip unchanged, at any depth of maps.\<close>

fun json_stable :: "goval \<Rightarrow> bool" where
  "json_stable VNil = True"
| "json_stable (VBool b) = True"
| "json_stable (VString s) = True"
| "json_stable (VFloat i) = (f64_of_int i = i)"
| "json_stable (VMap m) = list_all (\<lambda>(k, v). json_stable v) m"
| "json_stable (VList vs) = list_all json_stable vs"
| "json_stable _ = False"

lemma from_to_json_stable: "json_stable v \<Longrightarrow> from_json (to_json v) = v"
proof (induction v rule: json_stable.induct)
  case (5 m)
  then show ?case by (auto simp: list_all_iff intro!: map_idI)
next
  case (6 vs)
  then show ?case by (auto simp: list_all_iff intro!: map_idI)
qed auto

lemma map_of_stored_env: "map_of (stored_env env) k = map_option (\<lambda>v. from_json (to_json v)) (map_of env k)"
  by (simp add: stored_env_def map_of_map)

end
