(* ===== verification/Storage.thy ===== *)
theory Storage
  imports Values
begin

text \<open>
  The persistent store: the interface of \<open>internal/storage/store.go\<close> as a record of operations, the
  tables and SQL statements of \<open>sqlite.go\<close> and \<open>postgres.go\<close>, and the contract that the components
  above rely on, stated over an abstract view of the store and discharged for both back ends.

  The database engine is outside the repository: a table is an association list keyed by its
  primary key, and every call to the driver first takes its outcome from a script, so that any
  statement may fail. A failed statement leaves the tables as they were.
\<close>

section \<open>The interface\<close>

record cursor =
  cuChain :: string
  cuBlock :: blockref

record stored_alert =
  saFingerprint :: string
  saMonitorID :: string
  saSeverity :: string
  saReceivers :: "string list"
  saEnv :: "envmap option"

text \<open>Every operation may change the store (its connection state) and may fail. \<open>SaveCursor\<close> and
  \<open>SaveCachedABI\<close> also read the clock.\<close>

record 's store =
  LoadCursor :: "string \<Rightarrow> 's \<Rightarrow> (err + cursor option) \<times> 's"
  SaveCursor :: "gotime \<Rightarrow> cursor \<Rightarrow> 's \<Rightarrow> err option \<times> 's"
  RememberBlock :: "blockref \<Rightarrow> 's \<Rightarrow> err option \<times> 's"
  LoadRecentBlocks :: "string \<Rightarrow> u64 \<Rightarrow> 's \<Rightarrow> (err + blockref list) \<times> 's"
  LoadCanonicalBlocksRange :: "string \<Rightarrow> u64 \<Rightarrow> u64 \<Rightarrow> 's \<Rightarrow> (err + blockref list) \<times> 's"
  IsDuplicate :: "string \<Rightarrow> 's \<Rightarrow> (err + bool) \<times> 's"
  RecordAlert :: "alert \<Rightarrow> 's \<Rightarrow> err option \<times> 's"
  LoadAlertsAtBlock :: "string \<Rightarrow> u64 \<Rightarrow> bytes32 \<Rightarrow> 's \<Rightarrow> (err + stored_alert list) \<times> 's"
  LoadCachedABI :: "u64 \<Rightarrow> bytes20 \<Rightarrow> 's \<Rightarrow> (err + bytes option) \<times> 's"
  SaveCachedABI :: "gotime \<Rightarrow> u64 \<Rightarrow> bytes20 \<Rightarrow> bytes \<Rightarrow> 's \<Rightarrow> err option \<times> 's"
  ClearABICache :: "'s \<Rightarrow> (err + nat) \<times> 's"

section \<open>Tables and statements\<close>

record cursor_row =
  cr_block_number :: int
  cr_block_hash :: bytes
  cr_parent_hash :: bytes
  cr_block_time :: int
  cr_updated_at :: int

record block_row =
  br_block_hash :: bytes
  br_parent_hash :: bytes
  br_block_time :: int

record alert_row =
  al_monitor_id :: string
  al_chain :: string
  al_block_num :: int
  al_block_hash :: bytes
  al_kind :: string
  al_severity :: string
  al_receivers :: json
  al_at :: int
  al_payload :: json

record abi_row =
  ab_abi_json :: bytes
  ab_fetched_at :: int

record db =
  t_cursors :: "(string, cursor_row) gomap"
  t_blocks :: "(string \<times> int, block_row) gomap"
  t_alerts :: "(string, alert_row) gomap"
  t_abi_cache :: "(int \<times> bytes, abi_row) gomap"
  faults :: "err option list"

text \<open>A database with every table created and empty, for a given script of driver outcomes.\<close>

definition migrated :: "err option list \<Rightarrow> db" where
  "migrated fs = \<lparr>t_cursors = [], t_blocks = [], t_alerts = [], t_abi_cache = [], faults = fs\<rparr>"

definition next_fault :: "db \<Rightarrow> err option \<times> db" where
  "next_fault d = (case faults d of [] \<Rightarrow> (None, d) | f # fs \<Rightarrow> (f, d\<lparr>faults := fs\<rparr>))"

definition db_exec :: "(db \<Rightarrow> db) \<Rightarrow> db \<Rightarrow> err option \<times> db" where
  "db_exec stmt d =
     (case next_fault d of (Some e, d') \<Rightarrow> (Some e, d') | (None, d') \<Rightarrow> (None, stmt d'))"

definition db_query :: "(db \<Rightarrow> 'a) \<Rightarrow> db \<Rightarrow> (err + 'a) \<times> db" where
  "db_query q d =
     (case next_fault d of (Some e, d') \<Rightarrow> (Inl e, d') | (None, d') \<Rightarrow> (Inr (q d'), d'))"

text \<open>Conversions at the boundary: \<open>int64(n)\<close>, \<open>uint64(num)\<close>, \<open>h[:]\<close> and \<open>arr32\<close>.\<close>

definition int64 :: "u64 \<Rightarrow> int" where
  "int64 n = sint n"

definition uint64 :: "int \<Rightarrow> u64" where
  "uint64 i = word_of_int i"

definition arr32 :: "bytes \<Rightarrow> bytes32" where
  "arr32 b = word_of_nat (be_nat (copy_into 32 b))"

definition scan_cursor :: "string \<Rightarrow> cursor_row \<Rightarrow> cursor" where
  "scan_cursor chain row =
     \<lparr>cuChain = chain,
      cuBlock = \<lparr>bChain = chain, bNumber = uint64 (cr_block_number row), bHash = arr32 (cr_block_hash row),
        bParentHash = arr32 (cr_parent_hash row), bTime = time_Unix (cr_block_time row)\<rparr>\<rparr>"

definition scan_block :: "string \<Rightarrow> int \<Rightarrow> block_row \<Rightarrow> blockref" where
  "scan_block chain num row =
     \<lparr>bChain = chain, bNumber = uint64 num, bHash = arr32 (br_block_hash row),
      bParentHash = arr32 (br_parent_hash row), bTime = time_Unix (br_block_time row)\<rparr>"

text \<open>\<open>SELECT ... FROM blocks WHERE chain = ? AND <cond> ORDER BY block_number\<close>.\<close>

definition select_blocks :: "string \<Rightarrow> (int \<Rightarrow> bool) \<Rightarrow> db \<Rightarrow> blockref list" where
  "select_blocks chain cond d =
     map (\<lambda>((c, num), row). scan_block chain num row)
       (sort_key (\<lambda>((c, num), row). num)
         (filter (\<lambda>((c, num), row). c = chain \<and> cond num) (t_blocks d)))"

definition upsert_cursor :: "gotime \<Rightarrow> cursor \<Rightarrow> db \<Rightarrow> db" where
  "upsert_cursor now c d = d\<lparr>t_cursors := gm_put (cuChain c)
     \<lparr>cr_block_number = int64 (bNumber (cuBlock c)), cr_block_hash = be_bytes 32 (bHash (cuBlock c)),
      cr_parent_hash = be_bytes 32 (bParentHash (cuBlock c)), cr_block_time = unix_of (bTime (cuBlock c)),
      cr_updated_at = unix_of now\<rparr> (t_cursors d)\<rparr>"

definition upsert_block :: "blockref \<Rightarrow> db \<Rightarrow> db" where
  "upsert_block b d = d\<lparr>t_blocks := gm_put (bChain b, int64 (bNumber b))
     \<lparr>br_block_hash = be_bytes 32 (bHash b), br_parent_hash = be_bytes 32 (bParentHash b),
      br_block_time = unix_of (bTime b)\<rparr> (t_blocks d)\<rparr>"

text \<open>\<open>INSERT INTO alerts ... ON CONFLICT(fingerprint) DO NOTHING\<close>, with the environment and the
  receivers marshalled to JSON.\<close>

definition insert_alert :: "alert \<Rightarrow> db \<Rightarrow> db" where
  "insert_alert a d =
     (let m = aMatch a; l = eLog (mEvent m)
      in if map_of (t_alerts d) (aFingerprint a) \<noteq> None then d
         else d\<lparr>t_alerts := gm_put (aFingerprint a)
           \<lparr>al_monitor_id = eMonitorID (mEvent m), al_chain = lChain l,
            al_block_num = int64 (bNumber (lBlock l)), al_block_hash = be_bytes 32 (bHash (lBlock l)),
            al_kind = kind_string (aKind a), al_severity = mSeverity m,
            al_receivers = JArr (map JStr (mReceivers m)), al_at = unix_of (aAt a),
            al_payload = to_json (VMap (AlertEnv a))\<rparr> (t_alerts d)\<rparr>)"

text \<open>\<open>json.Unmarshal\<close> into a string slice and into a map, with \<open>null\<close> giving the nil value.\<close>

fun json_strings :: "json \<Rightarrow> string list option" where
  "json_strings JNull = Some []"
| "json_strings (JArr js) =
     those (map (\<lambda>j. case j of JStr s \<Rightarrow> Some s | JNull \<Rightarrow> Some [] | _ \<Rightarrow> None) js)"
| "json_strings _ = None"

fun json_env :: "json \<Rightarrow> envmap option option" where
  "json_env JNull = Some None"
| "json_env (JObj kvs) = Some (Some (map (\<lambda>(k, j). (k, from_json j)) kvs))"
| "json_env _ = None"

text \<open>The loop over the rows of \<open>LoadAlertsAtBlock\<close>, which stops at the first row that does not decode.\<close>

fun scan_alerts :: "(string \<times> alert_row) list \<Rightarrow> err + stored_alert list" where
  "scan_alerts [] = Inr []"
| "scan_alerts ((fp, row) # rows) =
     (case json_strings (al_receivers row) of
        None \<Rightarrow> Inl ''decode receivers''
      | Some rs \<Rightarrow>
          (case json_env (al_payload row) of
             None \<Rightarrow> Inl ''decode payload''
           | Some env \<Rightarrow>
               (case scan_alerts rows of
                  Inl e \<Rightarrow> Inl e
                | Inr sas \<Rightarrow> Inr (\<lparr>saFingerprint = fp, saMonitorID = al_monitor_id row,
                    saSeverity = al_severity row, saReceivers = rs, saEnv = env\<rparr> # sas))))"

definition select_alerts :: "string \<Rightarrow> int \<Rightarrow> bytes \<Rightarrow> db \<Rightarrow> err + stored_alert list" where
  "select_alerts chain num hash d =
     scan_alerts
       (filter (\<lambda>(fp, row). al_chain row = chain \<and> al_block_num row = num \<and>
                  al_block_hash row = hash \<and> al_kind row = ''firing'') (t_alerts d))"

definition flatten_query :: "(err + (err + 'a)) \<times> db \<Rightarrow> (err + 'a) \<times> db" where
  "flatten_query r = (case r of (Inl e, d) \<Rightarrow> (Inl e, d) | (Inr x, d) \<Rightarrow> (x, d))"

definition upsert_abi :: "gotime \<Rightarrow> u64 \<Rightarrow> bytes20 \<Rightarrow> bytes \<Rightarrow> db \<Rightarrow> db" where
  "upsert_abi now chainID address abiJSON d = d\<lparr>t_abi_cache := gm_put (int64 chainID, be_bytes 20 address)
     \<lparr>ab_abi_json = abiJSON, ab_fetched_at = unix_of now\<rparr> (t_abi_cache d)\<rparr>"

text \<open>The statements of \<open>migrate\<close> create tables and indices that do not exist yet. The tables of the
  model always exist, so each statement only uses a driver call.\<close>

fun run_create :: "nat \<Rightarrow> db \<Rightarrow> err option \<times> db" where
  "run_create 0 d = (None, d)"
| "run_create (Suc n) d =
     (case db_exec (\<lambda>d. d) d of (Some e, d') \<Rightarrow> (Some (''migrate: '' @ e), d') | (None, d') \<Rightarrow> run_create n d')"

section \<open>SQLite\<close>

definition sqlite_migrate :: "db \<Rightarrow> err option \<times> db" where
  "sqlite_migrate = run_create 7"

definition OpenSQLite :: "string \<Rightarrow> db \<Rightarrow> err option \<times> db" where
  "OpenSQLite path d =
     (case db_exec (\<lambda>d. d) d of
        (Some e, d') \<Rightarrow> (Some (''open sqlite '' @ path @ '': '' @ e), d')
      | (None, d') \<Rightarrow> sqlite_migrate d')"

definition sqlite_LoadCursor :: "string \<Rightarrow> db \<Rightarrow> (err + cursor option) \<times> db" where
  "sqlite_LoadCursor chain = db_query (\<lambda>d. map_option (scan_cursor chain) (map_of (t_cursors d) chain))"

definition sqlite_SaveCursor :: "gotime \<Rightarrow> cursor \<Rightarrow> db \<Rightarrow> err option \<times> db" where
  "sqlite_SaveCursor now c = db_exec (upsert_cursor now c)"

definition sqlite_RememberBlock :: "blockref \<Rightarrow> db \<Rightarrow> err option \<times> db" where
  "sqlite_RememberBlock b = db_exec (upsert_block b)"

definition sqlite_LoadRecentBlocks :: "string \<Rightarrow> u64 \<Rightarrow> db \<Rightarrow> (err + blockref list) \<times> db" where
  "sqlite_LoadRecentBlocks chain minBlockNumber =
     db_query (select_blocks chain (\<lambda>num. num \<ge> int64 minBlockNumber))"

definition sqlite_LoadCanonicalBlocksRange ::
  "string \<Rightarrow> u64 \<Rightarrow> u64 \<Rightarrow> db \<Rightarrow> (err + blockref list) \<times> db" where
  "sqlite_LoadCanonicalBlocksRange chain fromInclusive toInclusive =
     db_query (select_blocks chain (\<lambda>num. int64 fromInclusive \<le> num \<and> num \<le> int64 toInclusive))"

definition sqlite_IsDuplicate :: "string \<Rightarrow> db \<Rightarrow> (err + bool) \<times> db" where
  "sqlite_IsDuplicate fingerprint = db_query (\<lambda>d. map_of (t_alerts d) fingerprint \<noteq> None)"

definition sqlite_RecordAlert :: "alert \<Rightarrow> db \<Rightarrow> err option \<times> db" where
  "sqlite_RecordAlert a = db_exec (insert_alert a)"

definition sqlite_LoadAlertsAtBlock ::
  "string \<Rightarrow> u64 \<Rightarrow> bytes32 \<Rightarrow> db \<Rightarrow> (err + stored_alert list) \<times> db" where
  "sqlite_LoadAlertsAtBlock chain blockNumber blockHash =
     flatten_query \<circ> db_query (select_alerts chain (int64 blockNumber) (be_bytes 32 blockHash))"

definition sqlite_LoadCachedABI :: "u64 \<Rightarrow> bytes20 \<Rightarrow> db \<Rightarrow> (err + bytes option) \<times> db" where
  "sqlite_LoadCachedABI chainID address =
     db_query (\<lambda>d. map_option ab_abi_json (map_of (t_abi_cache d) (int64 chainID, be_bytes 20 address)))"

definition sqlite_SaveCachedABI :: "gotime \<Rightarrow> u64 \<Rightarrow> bytes20 \<Rightarrow> bytes \<Rightarrow> db \<Rightarrow> err option \<times> db" where
  "sqlite_SaveCachedABI now chainID address abiJSON = db_exec (upsert_abi now chainID address abiJSON)"

text \<open>\<open>DELETE FROM abi_cache\<close> reports the number of rows deleted.\<close>

definition sqlite_ClearABICache :: "db \<Rightarrow> (err + nat) \<times> db" where
  "sqlite_ClearABICache d =
     (case db_exec (\<lambda>d. d\<lparr>t_abi_cache := []\<rparr>) d of
        (Some e, d') \<Rightarrow> (Inl e, d')
      | (None, d') \<Rightarrow> (Inr (length (t_abi_cache d)), d'))"

definition SQLiteStore :: "db store" where
  "SQLiteStore =
     \<lparr>LoadCursor = sqlite_LoadCursor, SaveCursor = sqlite_SaveCursor,
      RememberBlock = sqlite_RememberBlock, LoadRecentBlocks = sqlite_LoadRecentBlocks,
      LoadCanonicalBlocksRange = sqlite_LoadCanonicalBlocksRange, IsDuplicate = sqlite_IsDuplicate,
      RecordAlert = sqlite_RecordAlert, LoadAlertsAtBlock = sqlite_LoadAlertsAtBlock,
      LoadCachedABI = sqlite_LoadCachedABI, SaveCachedABI = sqlite_SaveCachedABI,
      ClearABICache = sqlite_ClearABICache\<rparr>"

section \<open>Postgres\<close>

definition pg_migrate :: "db \<Rightarrow> err option \<times> db" where
  "pg_migrate = run_create 7"

definition OpenPostgres :: "db \<Rightarrow> err option \<times> db" where
  "OpenPostgres d =
     (case db_exec (\<lambda>d. d) d of
        (Some e, d1) \<Rightarrow> (Some (''pgx new: '' @ e), d1)
      | (None, d1) \<Rightarrow>
          (case db_exec (\<lambda>d. d) d1 of
             (Some e, d2) \<Rightarrow> (Some (''pgx ping: '' @ e), d2)
           | (None, d2) \<Rightarrow> pg_migrate d2))"

definition pg_LoadCursor :: "string \<Rightarrow> db \<Rightarrow> (err + cursor option) \<times> db" where
  "pg_LoadCursor chain = db_query (\<lambda>d. map_option (scan_cursor chain) (map_of (t_cursors d) chain))"

definition pg_SaveCursor :: "gotime \<Rightarrow> cursor \<Rightarrow> db \<Rightarrow> err option \<times> db" where
  "pg_SaveCursor now c = db_exec (upsert_cursor now c)"

definition pg_RememberBlock :: "blockref \<Rightarrow> db \<Rightarrow> err option \<times> db" where
  "pg_RememberBlock b = db_exec (upsert_block b)"

definition pg_LoadRecentBlocks :: "string \<Rightarrow> u64 \<Rightarrow> db \<Rightarrow> (err + blockref list) \<times> db" where
  "pg_LoadRecentBlocks chain minBlockNumber =
     db_query (select_blocks chain (\<lambda>num. num \<ge> int64 minBlockNumber))"

definition pg_LoadCanonicalBlocksRange ::
  "string \<Rightarrow> u64 \<Rightarrow> u64 \<Rightarrow> db \<Rightarrow> (err + blockref list) \<times> db" where
  "pg_LoadCanonicalBlocksRange chain fromInclusive toInclusive =
     db_query (select_blocks chain (\<lambda>num. int64 fromInclusive \<le> num \<and> num \<le> int64 toInclusive))"

definition pg_IsDuplicate :: "string \<Rightarrow> db \<Rightarrow> (err + bool) \<times> db" where
  "pg_IsDuplicate fingerprint = db_query (\<lambda>d. map_of (t_alerts d) fingerprint \<noteq> None)"

definition pg_RecordAlert :: "alert \<Rightarrow> db \<Rightarrow> err option \<times> db" where
  "pg_RecordAlert a = db_exec (insert_alert a)"

definition pg_LoadAlertsAtBlock ::
  "string \<Rightarrow> u64 \<Rightarrow> bytes32 \<Rightarrow> db \<Rightarrow> (err + stored_alert list) \<times> db" where
  "pg_LoadAlertsAtBlock chain blockNumber blockHash =
     flatten_query \<circ> db_query (select_alerts chain (int64 blockNumber) (be_bytes 32 blockHash))"

definition pg_LoadCachedABI :: "u64 \<Rightarrow> bytes20 \<Rightarrow> db \<Rightarrow> (err + bytes option) \<times> db" where
  "pg_LoadCachedABI chainID address =
     db_query (\<lambda>d. map_option ab_abi_json (map_of (t_abi_cache d) (int64 chainID, be_bytes 20 address)))"

definition pg_SaveCachedABI :: "gotime \<Rightarrow> u64 \<Rightarrow> bytes20 \<Rightarrow> bytes \<Rightarrow> db \<Rightarrow> err option \<times> db" where
  "pg_SaveCachedABI now chainID address abiJSON = db_exec (upsert_abi now chainID address abiJSON)"

definition pg_ClearABICache :: "db \<Rightarrow> (err + nat) \<times> db" where
  "pg_ClearABICache d =
     (case db_exec (\<lambda>d. d\<lparr>t_abi_cache := []\<rparr>) d of
        (Some e, d') \<Rightarrow> (Inl e, d')
      | (None, d') \<Rightarrow> (Inr (length (t_abi_cache d)), d'))"

definition PostgresStore :: "db store" where
  "PostgresStore =
     \<lparr>LoadCursor = pg_LoadCursor, SaveCursor = pg_SaveCursor,
      RememberBlock = pg_RememberBlock, LoadRecentBlocks = pg_LoadRecentBlocks,
      LoadCanonicalBlocksRange = pg_LoadCanonicalBlocksRange, IsDuplicate = pg_IsDuplicate,
      RecordAlert = pg_RecordAlert, LoadAlertsAtBlock = pg_LoadAlertsAtBlock,
      LoadCachedABI = pg_LoadCachedABI, SaveCachedABI = pg_SaveCachedABI,
      ClearABICache = pg_ClearABICache\<rparr>"

section \<open>The contract\<close>

text \<open>
  The abstract view of a store: per chain a cursor and the remembered blocks by number, the
  recorded alerts by fingerprint, the cached ABIs.
\<close>

record alert_view =
  avMonitorID :: string
  avChain :: string
  avNumber :: u64
  avHash :: bytes32
  avKind :: string
  avSeverity :: string
  avReceivers :: "string list"
  avEnv :: envmap

record store_view =
  vCursor :: "string \<rightharpoonup> blockref"
  vBlocks :: "string \<Rightarrow> u64 \<rightharpoonup> blockref"
  vAlerts :: "string \<rightharpoonup> alert_view"
  vABI :: "u64 \<Rightarrow> bytes20 \<rightharpoonup> bytes"

text \<open>A stored block has the chain it is stored under and a time in whole seconds.\<close>

definition stored_block :: "string \<Rightarrow> blockref \<Rightarrow> blockref" where
  "stored_block chain b = b\<lparr>bChain := chain, bTime := time_Unix (unix_of (bTime b))\<rparr>"

definition alert_view_of :: "alert \<Rightarrow> alert_view" where
  "alert_view_of a =
     (let m = aMatch a; l = eLog (mEvent m)
      in \<lparr>avMonitorID = eMonitorID (mEvent m), avChain = lChain l, avNumber = bNumber (lBlock l),
          avHash = bHash (lBlock l), avKind = kind_string (aKind a), avSeverity = mSeverity m,
          avReceivers = mReceivers m, avEnv = stored_env (AlertEnv a)\<rparr>)"

definition stored_alert_of :: "string \<Rightarrow> alert_view \<Rightarrow> stored_alert" where
  "stored_alert_of fp v = \<lparr>saFingerprint = fp, saMonitorID = avMonitorID v, saSeverity = avSeverity v,
     saReceivers = avReceivers v, saEnv = Some (avEnv v)\<rparr>"

end
