(* ===== verification/Store_Contract.thy ===== *)
theory Store_Contract
  imports Storage
begin

text \<open>
  The contract of the store interface as a locale over an abstract view, the lemmas its clients
  share, and the interpretations for the SQLite and the Postgres back end.
\<close>

section \<open>The laws\<close>

text \<open>
  Every operation keeps the store's invariant. A failed write and every read leave the view
  unchanged; a successful write changes exactly its entry; a successful read returns the entries
  of the view. Block numbers are compared as signed 64-bit integers, as the database does.
\<close>

locale store_laws =
  fixes st :: "'s store" and view :: "'s \<Rightarrow> store_view" and inv :: "'s \<Rightarrow> bool"
  assumes block_number: "inv s \<Longrightarrow> vBlocks (view s) chain n = Some b \<Longrightarrow> bNumber b = n \<and> bChain b = chain"
    and load_cursor: "inv s \<Longrightarrow> LoadCursor st chain s = (outC, s') \<Longrightarrow> inv s' \<and> view s' = view s \<and>
      (\<forall>c. outC = Inr c \<longrightarrow> c = map_option (\<lambda>b. \<lparr>cuChain = chain, cuBlock = b\<rparr>) (vCursor (view s) chain))"
    and save_cursor: "inv s \<Longrightarrow> SaveCursor st now c s = (e, s') \<Longrightarrow> inv s' \<and>
      view s' = (if e = None
        then (view s)\<lparr>vCursor := (vCursor (view s))(cuChain c \<mapsto> stored_block (cuChain c) (cuBlock c))\<rparr>
        else view s)"
    and remember_block: "inv s \<Longrightarrow> RememberBlock st b s = (e, s') \<Longrightarrow> inv s' \<and>
      view s' = (if e = None
        then (view s)\<lparr>vBlocks := (vBlocks (view s))(bChain b :=
               (vBlocks (view s) (bChain b))(bNumber b \<mapsto> stored_block (bChain b) b))\<rparr>
        else view s)"
    and load_recent: "inv s \<Longrightarrow> LoadRecentBlocks st chain lo s = (out, s') \<Longrightarrow> inv s' \<and> view s' = view s \<and>
      (\<forall>bs. out = Inr bs \<longrightarrow>
        set bs = {b. \<exists>n. int64 lo \<le> int64 n \<and> vBlocks (view s) chain n = Some b} \<and>
        sorted_wrt (\<lambda>a b. int64 (bNumber a) < int64 (bNumber b)) bs)"
    and load_range: "inv s \<Longrightarrow> LoadCanonicalBlocksRange st chain lo hi s = (out, s') \<Longrightarrow>
      inv s' \<and> view s' = view s \<and>
      (\<forall>bs. out = Inr bs \<longrightarrow>
        set bs = {b. \<exists>n. int64 lo \<le> int64 n \<and> int64 n \<le> int64 hi \<and> vBlocks (view s) chain n = Some b} \<and>
        sorted_wrt (\<lambda>a b. int64 (bNumber a) < int64 (bNumber b)) bs)"
    and is_duplicate: "inv s \<Longrightarrow> IsDuplicate st fp s = (outD, s') \<Longrightarrow> inv s' \<and> view s' = view s \<and>
      (\<forall>d. outD = Inr d \<longrightarrow> (d \<longleftrightarrow> vAlerts (view s) fp \<noteq> None))"
    and record_alert: "inv s \<Longrightarrow> RecordAlert st a s = (e, s') \<Longrightarrow> inv s' \<and>
      view s' = (if e = None \<and> vAlerts (view s) (aFingerprint a) = None
        then (view s)\<lparr>vAlerts := (vAlerts (view s))(aFingerprint a \<mapsto> alert_view_of a)\<rparr>
        else view s)"
    and load_alerts: "inv s \<Longrightarrow> LoadAlertsAtBlock st chain n h s = (outA, s') \<Longrightarrow>
      inv s' \<and> view s' = view s \<and>
      (\<forall>sas. outA = Inr sas \<longrightarrow>
        set sas = {stored_alert_of fp v | fp v. vAlerts (view s) fp = Some v \<and> avChain v = chain \<and>
                     avNumber v = n \<and> avHash v = h \<and> avKind v = ''firing''} \<and>
        distinct (map saFingerprint sas))"
    and load_abi: "inv s \<Longrightarrow> LoadCachedABI st cid addr s = (outX, s') \<Longrightarrow> inv s' \<and> view s' = view s \<and>
      (\<forall>x. outX = Inr x \<longrightarrow> x = vABI (view s) cid addr)"
    and save_abi: "inv s \<Longrightarrow> SaveCachedABI st now cid addr abi s = (e, s') \<Longrightarrow> inv s' \<and>
      view s' = (if e = None
        then (view s)\<lparr>vABI := (vABI (view s))(cid := (vABI (view s) cid)(addr \<mapsto> abi))\<rparr>
        else view s)"
    and clear_abi: "inv s \<Longrightarrow> ClearABICache st s = (outN, s') \<Longrightarrow> inv s' \<and>
      view s' = (if isl outN then view s else (view s)\<lparr>vABI := (\<lambda>_. Map.empty)\<rparr>)"
begin

text \<open>Reading back what was written.\<close>

lemma cursor_roundtrip:
  assumes "inv s" "SaveCursor st now c s = (None, s')" "LoadCursor st (cuChain c) s' = (Inr out, s'')"
  shows "out = Some \<lparr>cuChain = cuChain c, cuBlock = stored_block (cuChain c) (cuBlock c)\<rparr>"
  using save_cursor [OF assms(1,2)] load_cursor [of s', OF _ assms(3)] by auto

lemma abi_roundtrip:
  assumes "inv s" "SaveCachedABI st now cid addr abi s = (None, s')"
    and "LoadCachedABI st cid addr s' = (Inr out, s'')"
  shows "out = Some abi"
  using save_abi [OF assms(1,2)] load_abi [of s', OF _ assms(3)] by auto

lemma duplicate_after_record:
  assumes "inv s" "RecordAlert st a s = (None, s')" "IsDuplicate st (aFingerprint a) s' = (Inr d, s'')"
  shows d
  using record_alert [OF assms(1,2)] is_duplicate [of s', OF _ assms(3)] by (auto split: if_splits)

lemma range_sees_remembered:
  assumes "inv s" "RememberBlock st b s = (None, s')"
    and "LoadCanonicalBlocksRange st (bChain b) lo hi s' = (Inr bs, s'')"
    and "int64 lo \<le> int64 (bNumber b)" "int64 (bNumber b) \<le> int64 hi"
  shows "stored_block (bChain b) b \<in> set bs"
  using remember_block [OF assms(1,2)] load_range [of s', OF _ assms(3)] assms(4,5)
  by auto

end

section \<open>The view of the tables\<close>

definition alert_view_row :: "alert_row \<Rightarrow> alert_view" where
  "alert_view_row row =
     \<lparr>avMonitorID = al_monitor_id row, avChain = al_chain row, avNumber = uint64 (al_block_num row),
      avHash = arr32 (al_block_hash row), avKind = al_kind row, avSeverity = al_severity row,
      avReceivers = (case json_strings (al_receivers row) of Some rs \<Rightarrow> rs | None \<Rightarrow> []),
      avEnv = (case json_env (al_payload row) of Some (Some env) \<Rightarrow> env | _ \<Rightarrow> [])\<rparr>"

definition db_view :: "db \<Rightarrow> store_view" where
  "db_view d =
     \<lparr>vCursor = (\<lambda>chain. map_option (\<lambda>row. cuBlock (scan_cursor chain row)) (map_of (t_cursors d) chain)),
      vBlocks = (\<lambda>chain n. map_option (scan_block chain (int64 n)) (map_of (t_blocks d) (chain, int64 n))),
      vAlerts = (\<lambda>fp. map_option alert_view_row (map_of (t_alerts d) fp)),
      vABI = (\<lambda>cid addr. map_option ab_abi_json (map_of (t_abi_cache d) (int64 cid, be_bytes 20 addr)))\<rparr>"

text \<open>Rows were written by the statements above: keys are unique, numbers come from 64-bit words,
  hashes from 32-byte arrays, JSON columns decode.\<close>

definition alert_row_ok :: "alert_row \<Rightarrow> bool" where
  "alert_row_ok row \<longleftrightarrow> (\<exists>n. al_block_num row = int64 n) \<and> (\<exists>h :: bytes32. al_block_hash row = be_bytes 32 h) \<and>
     json_strings (al_receivers row) \<noteq> None \<and> (\<exists>env. json_env (al_payload row) = Some (Some env))"

definition db_ok :: "db \<Rightarrow> bool" where
  "db_ok d \<longleftrightarrow> distinct (map fst (t_blocks d)) \<and> distinct (map fst (t_alerts d)) \<and>
     (\<forall>((c, num), row) \<in> set (t_blocks d). \<exists>n. num = int64 n) \<and>
     (\<forall>(fp, row) \<in> set (t_alerts d). alert_row_ok row)"

lemma uint64_int64 [simp]: "uint64 (int64 n) = n"
  by (simp add: uint64_def int64_def)

lemma int64_inject [simp]: "int64 m = int64 n \<longleftrightarrow> m = n"
  by (metis uint64_int64)

lemma arr32_be_bytes [simp]: "arr32 (be_bytes 32 h) = h"
  by (simp add: arr32_def of_nat_be_nat_be_bytes)

lemma those_Some: "those (map Some xs) = Some xs"
  by (induction xs) auto

lemma json_strings_map [simp]: "json_strings (JArr (map JStr rs)) = Some rs"
  by (simp add: comp_def those_Some)

lemma json_env_to_json [simp]: "json_env (to_json (VMap env)) = Some (Some (stored_env env))"
  by (simp add: stored_env_def comp_def case_prod_beta)

lemma db_ok_migrated [simp]: "db_ok (migrated fs)"
  by (simp add: db_ok_def migrated_def)

lemma db_view_faults [simp]: "db_view (d\<lparr>faults := fs\<rparr>) = db_view d" "db_ok (d\<lparr>faults := fs\<rparr>) = db_ok d"
  by (simp_all add: db_view_def db_ok_def)

lemma db_exec_cases:
  assumes "db_exec stmt d = (e, d')"
  obtains fs err where "e = Some err" "d' = d\<lparr>faults := fs\<rparr>" | fs where "e = None" "d' = stmt (d\<lparr>faults := fs\<rparr>)"
proof (cases "faults d")
  case Nil
  then have "d\<lparr>faults := []\<rparr> = d" by (cases d) simp
  with Nil assms that(2) [of "[]"] show thesis by (auto simp: db_exec_def next_fault_def)
next
  case (Cons f fs)
  with assms that show thesis by (cases f) (auto simp: db_exec_def next_fault_def)
qed

lemma db_query_cases:
  assumes "db_query q d = (out, d')"
  obtains fs where "d' = d\<lparr>faults := fs\<rparr>" "\<forall>x. out = Inr x \<longrightarrow> x = q (d\<lparr>faults := fs\<rparr>)"
proof (cases "faults d")
  case Nil
  then have "d\<lparr>faults := []\<rparr> = d" by (cases d) simp
  with Nil assms that [of "[]"] show thesis by (auto simp: db_query_def next_fault_def)
next
  case (Cons f fs)
  with assms that [of fs] show thesis by (cases f) (auto simp: db_query_def next_fault_def)
qed

text \<open>A write that satisfies a law whenever it runs satisfies it with driver failures, and likewise
  a read.\<close>

lemma exec_law:
  assumes "db_exec stmt d = (e, d')" "db_ok d"
    and "\<And>fs. db_ok (stmt (d\<lparr>faults := fs\<rparr>)) \<and> db_view (stmt (d\<lparr>faults := fs\<rparr>)) = upd (db_view d)"
  shows "db_ok d' \<and> db_view d' = (if e = None then upd (db_view d) else db_view d)"
  using assms(1) by (rule db_exec_cases) (use assms(2,3) in auto)

lemma query_law:
  assumes "db_query q d = (out, d')" "db_ok d" and "\<And>fs. P (q (d\<lparr>faults := fs\<rparr>))"
  shows "db_ok d' \<and> db_view d' = db_view d \<and> (\<forall>x. out = Inr x \<longrightarrow> P x)"
  using assms(1) by (rule db_query_cases) (use assms(2,3) in auto)

section \<open>The statements on the view\<close>

lemma distinct_gm_put [simp]: "distinct (map fst m) \<Longrightarrow> distinct (map fst (gm_put k v m))"
  by (simp add: gm_put_def distinct_update)

lemma set_gm_put: "set (gm_put k v m) \<subseteq> insert (k, v) (set m)"
  unfolding gm_put_def by (induction m) auto

lemma upsert_cursor_view:
  "db_ok d \<Longrightarrow> db_ok (upsert_cursor now c d) \<and> db_view (upsert_cursor now c d) =
     (db_view d)\<lparr>vCursor := (vCursor (db_view d))(cuChain c \<mapsto> stored_block (cuChain c) (cuBlock c))\<rparr>"
  by (auto simp: upsert_cursor_def db_ok_def db_view_def gomap_simps scan_cursor_def stored_block_def fun_eq_iff)

lemma upsert_block_view:
  assumes "db_ok d"
  shows "db_ok (upsert_block b d) \<and> db_view (upsert_block b d) =
     (db_view d)\<lparr>vBlocks := (vBlocks (db_view d))(bChain b :=
        (vBlocks (db_view d) (bChain b))(bNumber b \<mapsto> stored_block (bChain b) b))\<rparr>"
proof
  let ?row = "\<lparr>br_block_hash = be_bytes 32 (bHash b), br_parent_hash = be_bytes 32 (bParentHash b),
      br_block_time = unix_of (bTime b)\<rparr>"
  show "db_ok (upsert_block b d)"
    using assms set_gm_put [of "(bChain b, int64 (bNumber b))" ?row "t_blocks d"]
    by (fastforce simp: upsert_block_def db_ok_def)
  show "db_view (upsert_block b d) = (db_view d)\<lparr>vBlocks := (vBlocks (db_view d))(bChain b :=
        (vBlocks (db_view d) (bChain b))(bNumber b \<mapsto> stored_block (bChain b) b))\<rparr>"
    by (auto simp: upsert_block_def db_view_def gomap_simps scan_block_def stored_block_def fun_eq_iff)
qed

lemma upsert_abi_view:
  "db_ok d \<Longrightarrow> db_ok (upsert_abi now cid addr abi d) \<and> db_view (upsert_abi now cid addr abi d) =
     (db_view d)\<lparr>vABI := (vABI (db_view d))(cid := (vABI (db_view d) cid)(addr \<mapsto> abi))\<rparr>"
  by (auto simp: upsert_abi_def db_ok_def db_view_def gomap_simps fun_eq_iff)

lemma insert_alert_view:
  assumes "db_ok d"
  shows "db_ok (insert_alert a d) \<and> db_view (insert_alert a d) =
     (if vAlerts (db_view d) (aFingerprint a) = None
      then (db_view d)\<lparr>vAlerts := (vAlerts (db_view d))(aFingerprint a \<mapsto> alert_view_of a)\<rparr>
      else db_view d)"
proof (cases "map_of (t_alerts d) (aFingerprint a)")
  case (Some row)
  with assms show ?thesis by (simp add: insert_alert_def Let_def db_view_def)
next
  case None
  define row where "row = \<lparr>al_monitor_id = eMonitorID (mEvent (aMatch a)), al_chain = lChain (eLog (mEvent (aMatch a))),
      al_block_num = int64 (bNumber (lBlock (eLog (mEvent (aMatch a))))),
      al_block_hash = be_bytes 32 (bHash (lBlock (eLog (mEvent (aMatch a))))),
      al_kind = kind_string (aKind a), al_severity = mSeverity (aMatch a),
      al_receivers = JArr (map JStr (mReceivers (aMatch a))), al_at = unix_of (aAt a),
      al_payload = to_json (VMap (AlertEnv a))\<rparr>"
  have ins: "insert_alert a d = d\<lparr>t_alerts := gm_put (aFingerprint a) row (t_alerts d)\<rparr>"
    using None by (simp add: insert_alert_def Let_def row_def)
  have "alert_row_ok row" unfolding alert_row_ok_def row_def by (simp del: to_json.simps json_strings.simps)
  with assms set_gm_put [of "aFingerprint a" row "t_alerts d"] have "db_ok (insert_alert a d)"
    by (fastforce simp: ins db_ok_def)
  moreover have "alert_view_row row = alert_view_of a"
    by (simp add: alert_view_row_def row_def alert_view_of_def Let_def del: to_json.simps json_strings.simps)
  ultimately show ?thesis
    using None by (auto simp: ins db_view_def gomap_simps fun_eq_iff)
qed

text \<open>The rows a block query selects, in strictly ascending order of the signed block number.\<close>

lemma sorted_wrt_strict:
  "sorted (map f xs) \<Longrightarrow> distinct (map f xs) \<Longrightarrow> sorted_wrt (\<lambda>a b. f a < f b) xs"
  by (induction xs) (auto simp: less_le)

lemma set_select_blocks:
  assumes "db_ok d"
  shows "set (select_blocks chain cond d) =
    {b. \<exists>n. cond (int64 n) \<and> vBlocks (db_view d) chain n = Some b}" (is "?A = ?B")
proof
  have dist: "distinct (map fst (t_blocks d))" using assms by (simp add: db_ok_def)
  have num: "\<exists>n. num = int64 n" if "((c, num), row) \<in> set (t_blocks d)" for c num row
    using assms that by (fastforce simp: db_ok_def)
  show "?A \<subseteq> ?B"
  proof
    fix b assume "b \<in> ?A"
    then obtain num row where *: "((chain, num), row) \<in> set (t_blocks d)" "cond num" "b = scan_block chain num row"
      by (auto simp: select_blocks_def)
    with num obtain n where "num = int64 n" by blast
    with * dist show "b \<in> ?B" by (auto simp: db_view_def intro!: exI [of _ n])
  qed
  show "?B \<subseteq> ?A"
    by (force simp: db_view_def select_blocks_def image_iff dest: map_of_SomeD)
qed

lemma sorted_select_blocks:
  assumes "db_ok d"
  shows "sorted_wrt (\<lambda>a b. int64 (bNumber a) < int64 (bNumber b)) (select_blocks chain cond d)"
proof -
  let ?k = "\<lambda>((c :: string, num :: int), row :: block_row). num"
  let ?rows = "filter (\<lambda>((c, num), row). c = chain \<and> cond num) (t_blocks d)"
  let ?g = "\<lambda>((c :: string, num), row). scan_block chain num row"
  have dist: "distinct (map fst ?rows)"
    using assms by (simp add: db_ok_def distinct_map_filter)
  have inj: "inj_on ?k (set ?rows)"
    using dist by (auto simp: distinct_map inj_on_def)
  have "distinct ?rows" using dist by (simp add: distinct_map)
  then have "distinct (map ?k (sort_key ?k ?rows))"
    using inj by (simp add: distinct_map)
  then have "sorted_wrt (\<lambda>a b. ?k a < ?k b) (sort_key ?k ?rows)"
    by (intro sorted_wrt_strict) simp_all
  moreover have "int64 (bNumber (?g x)) = ?k x" if "x \<in> set (sort_key ?k ?rows)" for x
    using assms that by (fastforce simp: db_ok_def scan_block_def)
  ultimately have "sorted_wrt (\<lambda>a b. int64 (bNumber (?g a)) < int64 (bNumber (?g b))) (sort_key ?k ?rows)"
    by (elim sorted_wrt_mono_rel [rotated]) simp
  then show ?thesis unfolding select_blocks_def sorted_wrt_map .
qed

lemma scan_alerts_ok:
  assumes "\<forall>(fp, row) \<in> set rows. alert_row_ok row"
  shows "scan_alerts rows = Inr (map (\<lambda>(fp, row). stored_alert_of fp (alert_view_row row)) rows)"
  using assms
  by (induction rows rule: scan_alerts.induct)
     (auto simp: alert_row_ok_def stored_alert_of_def alert_view_row_def split: option.splits)

lemma select_alerts_view:
  assumes "db_ok d"
  obtains sas where "select_alerts chain (int64 n) (be_bytes 32 (h :: bytes32)) d = Inr sas"
    "set sas = {stored_alert_of fp v | fp v. vAlerts (db_view d) fp = Some v \<and> avChain v = chain \<and>
                     avNumber v = n \<and> avHash v = h \<and> avKind v = ''firing''}"
    "distinct (map saFingerprint sas)"
proof -
  let ?P = "\<lambda>(fp :: string, row). al_chain row = chain \<and> al_block_num row = int64 n \<and>
                  al_block_hash row = be_bytes 32 h \<and> al_kind row = ''firing''"
  let ?f = "\<lambda>(fp, row). stored_alert_of fp (alert_view_row row)"
  let ?rows = "filter ?P (t_alerts d)"
  have ok: "alert_row_ok row" if "(fp, row) \<in> set (t_alerts d)" for fp row
    using assms that by (auto simp: db_ok_def)
  have dist: "distinct (map fst (t_alerts d))" using assms by (simp add: db_ok_def)
  have key: "?P (fp, row) \<longleftrightarrow> avChain (alert_view_row row) = chain \<and> avNumber (alert_view_row row) = n \<and>
      avHash (alert_view_row row) = h \<and> avKind (alert_view_row row) = ''firing''"
    if "alert_row_ok row" for fp row
    using that by (auto simp: alert_row_ok_def alert_view_row_def)
  have "select_alerts chain (int64 n) (be_bytes 32 h) d = Inr (map ?f ?rows)"
    unfolding select_alerts_def by (rule scan_alerts_ok) (use ok in auto)
  moreover have "set (map ?f ?rows) = {stored_alert_of fp v | fp v. vAlerts (db_view d) fp = Some v \<and>
      avChain v = chain \<and> avNumber v = n \<and> avHash v = h \<and> avKind v = ''firing''}" (is "_ = ?B")
  proof
    show "set (map ?f ?rows) \<subseteq> ?B"
    proof
      fix sa assume "sa \<in> set (map ?f ?rows)"
      then obtain fp row where *: "(fp, row) \<in> set (t_alerts d)" "?P (fp, row)" "sa = ?f (fp, row)" by auto
      then have "vAlerts (db_view d) fp = Some (alert_view_row row)" using dist by (simp add: db_view_def)
      with * key [OF ok [OF *(1)]] show "sa \<in> ?B" by auto
    qed
    show "?B \<subseteq> set (map ?f ?rows)"
    proof
      fix sa assume "sa \<in> ?B"
      then obtain fp row where *: "(fp, row) \<in> set (t_alerts d)" "sa = stored_alert_of fp (alert_view_row row)"
        "avChain (alert_view_row row) = chain" "avNumber (alert_view_row row) = n"
        "avHash (alert_view_row row) = h" "avKind (alert_view_row row) = ''firing''"
        by (auto simp: db_view_def dest: map_of_SomeD)
      with key [OF ok [OF *(1)], of fp] have "(fp, row) \<in> set ?rows" by simp
      with *(2) show "sa \<in> set (map ?f ?rows)" by (auto simp: image_iff)
    qed
  qed
  moreover have "map saFingerprint (map ?f ?rows) = map fst ?rows"
    by (auto simp: stored_alert_of_def)
  then have "distinct (map saFingerprint (map ?f ?rows))" using dist by (simp only: distinct_map_filter)
  ultimately show thesis by (rule that)
qed

section \<open>Both back ends keep the contract\<close>

text \<open>The two back ends issue the same statements, so each law is shown once for the statement.\<close>

lemma db_block_number:
  "vBlocks (db_view d) chain n = Some b \<Longrightarrow> bNumber b = n \<and> bChain b = chain"
  by (auto simp: db_view_def scan_block_def)

lemma db_load_cursor:
  assumes "db_ok d" "db_query (\<lambda>d. map_option (scan_cursor chain) (map_of (t_cursors d) chain)) d = (out, d')"
  shows "db_ok d' \<and> db_view d' = db_view d \<and>
    (\<forall>c. out = Inr c \<longrightarrow> c = map_option (\<lambda>b. \<lparr>cuChain = chain, cuBlock = b\<rparr>) (vCursor (db_view d) chain))"
  using assms(2,1) by (rule query_law) (cases "map_of (t_cursors d) chain", auto simp: db_view_def scan_cursor_def)

lemma db_save_cursor:
  assumes "db_ok d" "db_exec (upsert_cursor now c) d = (e, d')"
  shows "db_ok d' \<and> db_view d' = (if e = None
    then (db_view d)\<lparr>vCursor := (vCursor (db_view d))(cuChain c \<mapsto> stored_block (cuChain c) (cuBlock c))\<rparr>
    else db_view d)"
  using assms(2,1) by (rule exec_law [where upd = "\<lambda>v. v\<lparr>vCursor := (vCursor v)(cuChain c \<mapsto> stored_block (cuChain c) (cuBlock c))\<rparr>"]) (use assms(1) upsert_cursor_view in simp)

lemma db_remember_block:
  assumes "db_ok d" "db_exec (upsert_block b) d = (e, d')"
  shows "db_ok d' \<and> db_view d' = (if e = None
    then (db_view d)\<lparr>vBlocks := (vBlocks (db_view d))(bChain b :=
            (vBlocks (db_view d) (bChain b))(bNumber b \<mapsto> stored_block (bChain b) b))\<rparr>
    else db_view d)"
  using assms(2,1) by (rule exec_law [where upd = "\<lambda>v. v\<lparr>vBlocks := (vBlocks v)(bChain b :=
      (vBlocks v (bChain b))(bNumber b \<mapsto> stored_block (bChain b) b))\<rparr>"]) (use assms(1) upsert_block_view in simp)

lemma db_load_blocks:
  assumes "db_ok d" "db_query (select_blocks chain cond) d = (out, d')"
  shows "db_ok d' \<and> db_view d' = db_view d \<and> (\<forall>bs. out = Inr bs \<longrightarrow>
    set bs = {b. \<exists>n. cond (int64 n) \<and> vBlocks (db_view d) chain n = Some b} \<and>
    sorted_wrt (\<lambda>a b. int64 (bNumber a) < int64 (bNumber b)) bs)"
  using assms(2,1) by (rule query_law) (use assms(1) set_select_blocks sorted_select_blocks in simp)

lemma db_is_duplicate:
  assumes "db_ok d" "db_query (\<lambda>d. map_of (t_alerts d) fp \<noteq> None) d = (out, d')"
  shows "db_ok d' \<and> db_view d' = db_view d \<and> (\<forall>x. out = Inr x \<longrightarrow> (x \<longleftrightarrow> vAlerts (db_view d) fp \<noteq> None))"
  using assms(2,1) by (rule query_law) (simp add: db_view_def)

lemma db_record_alert:
  assumes "db_ok d" "db_exec (insert_alert a) d = (e, d')"
  shows "db_ok d' \<and> db_view d' = (if e = None \<and> vAlerts (db_view d) (aFingerprint a) = None
    then (db_view d)\<lparr>vAlerts := (vAlerts (db_view d))(aFingerprint a \<mapsto> alert_view_of a)\<rparr>
    else db_view d)"
proof -
  have "db_ok d' \<and> db_view d' = (if e = None then
      (\<lambda>v. if vAlerts v (aFingerprint a) = None
        then v\<lparr>vAlerts := (vAlerts v)(aFingerprint a \<mapsto> alert_view_of a)\<rparr> else v) (db_view d)
      else db_view d)"
    using assms(2,1) by (rule exec_law [where upd = "\<lambda>v. if vAlerts v (aFingerprint a) = None
      then v\<lparr>vAlerts := (vAlerts v)(aFingerprint a \<mapsto> alert_view_of a)\<rparr> else v"]) (use assms(1) insert_alert_view in simp)
  then show ?thesis by auto
qed

lemma db_load_alerts:
  assumes "db_ok d"
    and "(flatten_query \<circ> db_query (select_alerts chain (int64 n) (be_bytes 32 (h :: bytes32)))) d = (out, d')"
  shows "db_ok d' \<and> db_view d' = db_view d \<and> (\<forall>sas. out = Inr sas \<longrightarrow>
    set sas = {stored_alert_of fp v | fp v. vAlerts (db_view d) fp = Some v \<and> avChain v = chain \<and>
                 avNumber v = n \<and> avHash v = h \<and> avKind v = ''firing''} \<and>
    distinct (map saFingerprint sas))" (is "_ \<and> _ \<and> (\<forall>sas. _ \<longrightarrow> ?P sas)")
proof -
  obtain r where r: "db_query (select_alerts chain (int64 n) (be_bytes 32 h)) d = (r, d')"
      "out = (case r of Inl e \<Rightarrow> Inl e | Inr x \<Rightarrow> x)"
    using assms(2)
    by (cases "db_query (select_alerts chain (int64 n) (be_bytes 32 h)) d")
       (auto simp: flatten_query_def split: sum.splits)
  have "db_ok d' \<and> db_view d' = db_view d \<and> (\<forall>x. r = Inr x \<longrightarrow> (\<exists>sas. x = Inr sas \<and> ?P sas))"
    using r(1) assms(1)
  proof (rule query_law)
    fix fs
    have "db_ok (d\<lparr>faults := fs\<rparr>)" using assms(1) by simp
    then show "\<exists>sas. select_alerts chain (int64 n) (be_bytes 32 h) (d\<lparr>faults := fs\<rparr>) = Inr sas \<and> ?P sas"
      by (rule select_alerts_view [where chain = chain and n = n and h = h]) auto
  qed
  with r(2) show ?thesis by (auto split: sum.splits)
qed

lemma db_load_abi:
  assumes "db_ok d"
    and "db_query (\<lambda>d. map_option ab_abi_json (map_of (t_abi_cache d) (int64 cid, be_bytes 20 addr))) d = (out, d')"
  shows "db_ok d' \<and> db_view d' = db_view d \<and> (\<forall>x. out = Inr x \<longrightarrow> x = vABI (db_view d) cid addr)"
  using assms(2,1) by (rule query_law) (simp add: db_view_def)

lemma db_save_abi:
  assumes "db_ok d" "db_exec (upsert_abi now cid addr abi) d = (e, d')"
  shows "db_ok d' \<and> db_view d' = (if e = None
    then (db_view d)\<lparr>vABI := (vABI (db_view d))(cid := (vABI (db_view d) cid)(addr \<mapsto> abi))\<rparr>
    else db_view d)"
  using assms(2,1) by (rule exec_law [where upd = "\<lambda>v. v\<lparr>vABI := (vABI v)(cid := (vABI v cid)(addr \<mapsto> abi))\<rparr>"]) (use assms(1) upsert_abi_view in simp)

lemma db_clear_abi:
  assumes "db_ok d" "sqlite_ClearABICache d = (out, d')"
  shows "db_ok d' \<and> db_view d' = (if isl out then db_view d else (db_view d)\<lparr>vABI := (\<lambda>_. Map.empty)\<rparr>)"
proof -
  obtain e where e: "db_exec (\<lambda>d. d\<lparr>t_abi_cache := []\<rparr>) d = (e, d')" "isl out \<longleftrightarrow> e \<noteq> None"
    using assms(2) by (auto simp: sqlite_ClearABICache_def split: prod.splits option.splits)
  have "db_ok d' \<and> db_view d' = (if e = None then (db_view d)\<lparr>vABI := (\<lambda>_. Map.empty)\<rparr> else db_view d)"
    using e(1) assms(1) by (rule exec_law [where upd = "\<lambda>v. v\<lparr>vABI := (\<lambda>_. Map.empty)\<rparr>"]) (use assms(1) in \<open>simp add: db_ok_def db_view_def\<close>)
  with e(2) show ?thesis by auto
qed

lemma pg_ClearABICache_eq: "pg_ClearABICache = sqlite_ClearABICache"
  by (simp add: fun_eq_iff pg_ClearABICache_def sqlite_ClearABICache_def)

lemmas db_laws = db_load_cursor db_save_cursor db_remember_block db_is_duplicate db_record_alert
  db_load_alerts db_load_abi db_save_abi db_clear_abi

interpretation lite: store_laws SQLiteStore db_view db_ok
  unfolding SQLiteStore_def sqlite_LoadCursor_def sqlite_SaveCursor_def sqlite_RememberBlock_def
    sqlite_LoadRecentBlocks_def sqlite_LoadCanonicalBlocksRange_def sqlite_IsDuplicate_def
    sqlite_RecordAlert_def sqlite_LoadAlertsAtBlock_def sqlite_LoadCachedABI_def sqlite_SaveCachedABI_def
  by unfold_locales (unfold store.simps, (rule db_block_number db_laws db_load_blocks [where cond = "\<lambda>num. num \<ge> int64 lo" for lo]
      db_load_blocks [where cond = "\<lambda>num. int64 lo \<le> num \<and> num \<le> int64 hi" for lo hi, unfolded conj_assoc]; assumption)+)

interpretation pg: store_laws PostgresStore db_view db_ok
  unfolding PostgresStore_def pg_LoadCursor_def pg_SaveCursor_def pg_RememberBlock_def
    pg_LoadRecentBlocks_def pg_LoadCanonicalBlocksRange_def pg_IsDuplicate_def
    pg_RecordAlert_def pg_LoadAlertsAtBlock_def pg_LoadCachedABI_def pg_SaveCachedABI_def
    pg_ClearABICache_eq
  by unfold_locales (unfold store.simps, (rule db_block_number db_laws db_load_blocks [where cond = "\<lambda>num. num \<ge> int64 lo" for lo]
      db_load_blocks [where cond = "\<lambda>num. int64 lo \<le> num \<and> num \<le> int64 hi" for lo hi, unfolded conj_assoc]; assumption)+)

section \<open>The store as part of a larger world\<close>

text \<open>The components above act on a world of which the database is one part.\<close>

definition on_snd :: "('s \<Rightarrow> 'r \<times> 's) \<Rightarrow> 'x \<times> 's \<Rightarrow> 'r \<times> ('x \<times> 's)" where
  "on_snd f w = (case f (snd w) of (r, s) \<Rightarrow> (r, (fst w, s)))"

definition lift_store :: "'s store \<Rightarrow> ('x \<times> 's) store" where
  "lift_store st =
     \<lparr>LoadCursor = (\<lambda>c. on_snd (LoadCursor st c)),
      SaveCursor = (\<lambda>now c. on_snd (SaveCursor st now c)),
      RememberBlock = (\<lambda>b. on_snd (RememberBlock st b)),
      LoadRecentBlocks = (\<lambda>c lo. on_snd (LoadRecentBlocks st c lo)),
      LoadCanonicalBlocksRange = (\<lambda>c lo hi. on_snd (LoadCanonicalBlocksRange st c lo hi)),
      IsDuplicate = (\<lambda>fp. on_snd (IsDuplicate st fp)),
      RecordAlert = (\<lambda>a. on_snd (RecordAlert st a)),
      LoadAlertsAtBlock = (\<lambda>c n h. on_snd (LoadAlertsAtBlock st c n h)),
      LoadCachedABI = (\<lambda>c a. on_snd (LoadCachedABI st c a)),
      SaveCachedABI = (\<lambda>now c a abi. on_snd (SaveCachedABI st now c a abi)),
      ClearABICache = on_snd (ClearABICache st)\<rparr>"

lemma on_snd_eq: "on_snd f w = (r, w') \<longleftrightarrow> f (snd w) = (r, snd w') \<and> fst w' = fst w"
  by (cases w; cases w') (auto simp: on_snd_def split: prod.splits)

context store_laws
begin

lemma lifted_store_laws: "store_laws (lift_store st) (\<lambda>w. view (snd w)) (\<lambda>w. inv (snd w))"
  by unfold_locales
    (unfold lift_store_def store.simps on_snd_eq, ((elim conjE)?, (rule block_number load_cursor save_cursor
       remember_block load_recent load_range is_duplicate record_alert load_alerts load_abi save_abi
       clear_abi; assumption))+)

end

interpretation lifted_lite: store_laws "lift_store SQLiteStore" "\<lambda>w. db_view (snd w)" "\<lambda>w. db_ok (snd w)"
  by (rule lite.lifted_store_laws)

interpretation lifted_pg: store_laws "lift_store PostgresStore" "\<lambda>w. db_view (snd w)" "\<lambda>w. db_ok (snd w)"
  by (rule pg.lifted_store_laws)

lemma lifted_backends:
  assumes "st = SQLiteStore \<or> st = PostgresStore"
  shows "store_laws (lift_store st) (\<lambda>w. db_view (snd w)) (\<lambda>w. db_ok (snd w))"
  using assms lifted_lite.store_laws_axioms lifted_pg.store_laws_axioms by auto

lemma lift_store_fst:
  "fst (snd (LoadAlertsAtBlock (lift_store st) chain k hash w)) = fst w"
  "fst (snd (IsDuplicate (lift_store st) fp w)) = fst w"
  "fst (snd (RecordAlert (lift_store st) a w)) = fst w"
  "fst (snd (LoadCachedABI (lift_store st) c ad w)) = fst w"
  "fst (snd (SaveCachedABI (lift_store st) now c ad abi w)) = fst w"
  by (simp_all add: lift_store_def on_snd_def split: prod.splits)

lemma int64_small:
  assumes "unat n < 2 ^ 63"
  shows "int64 n = int (unat n)"
proof -
  have "uint n < 2 ^ 63" using assms by (simp only: uint_nat of_nat_less_numeral_power_cancel_iff)
  then have "signed_take_bit 63 (uint n) = uint n"
    by (intro signed_take_bit_int_eq_self) (auto intro: order_trans [of _ 0])
  then show ?thesis by (simp add: int64_def sint_uint)
qed

lemma int64_le: "unat m < 2 ^ 63 \<Longrightarrow> unat n < 2 ^ 63 \<Longrightarrow> int64 m \<le> int64 n \<longleftrightarrow> m \<le> n"
  and int64_less: "unat m < 2 ^ 63 \<Longrightarrow> unat n < 2 ^ 63 \<Longrightarrow> int64 m < int64 n \<longleftrightarrow> m < n"
  by (simp_all only: int64_small word_le_nat_alt word_less_nat_alt of_nat_le_iff of_nat_less_iff)

text \<open>A signed comparison with both ends of a range below \<open>2 ^ 63\<close> is the unsigned one.\<close>

lemma int64_nonneg: "0 \<le> int64 n \<longleftrightarrow> unat n < 2 ^ 63"
proof
  assume "0 \<le> int64 n"
  moreover have "int64 n < 2 ^ 63" using sint_lt [of n] by (simp add: int64_def)
  ultimately have "uint (word_of_int (int64 n) :: u64) = int64 n" by (simp add: uint_word_of_int_eq take_bit_int_eq_self)
  with \<open>int64 n < 2 ^ 63\<close> have "uint n < 2 ^ 63" by (simp add: int64_def)
  then show "unat n < 2 ^ 63" by (simp only: uint_nat of_nat_less_numeral_power_cancel_iff)
qed (simp add: int64_small)

lemma signed_range:
  assumes "unat (lo + 1) = Suc (unat lo)" "unat (lo + 1) < 2 ^ 63" "unat hi < 2 ^ 63"
  shows "int64 (lo + 1) \<le> int64 k \<and> int64 k \<le> int64 hi \<longleftrightarrow> lo < k \<and> k \<le> hi"
proof (cases "unat k < 2 ^ 63")
  case True
  with assms show ?thesis by (simp add: int64_le) (simp add: word_le_nat_alt word_less_nat_alt Suc_le_eq)
next
  case False
  moreover from False have "int64 k < 0" using int64_nonneg [of k] by simp
  moreover have "0 \<le> int64 (lo + 1)" using assms(2) int64_nonneg by blast
  ultimately show ?thesis using assms(3) by (auto simp: word_le_nat_alt)
qed

end
