(* ===== verification/Metrics.thy ===== *)
theory Metrics
  imports Values
begin

text \<open>
  The metrics (\<open>internal/obs/metrics.go\<close>): the collectors that the package declares and registers, and the
  calls that the components make on them. The Prometheus client is outside the repository: a call is a
  value of the type \<open>metric\<close>, and the component that makes it is given an operation on its world to
  make it with.
\<close>

section \<open>Collectors\<close>

datatype collector_kind = GaugeVec | CounterVec

record collector =
  coKind :: collector_kind
  coName :: string
  coHelp :: string
  coLabels :: "string list"

definition HeadLag :: collector where
  "HeadLag = \<lparr>coKind = GaugeVec, coName = ''opsentry_head_lag_blocks'',
     coHelp = ''Blocks behind chain head, per chain and confirmation policy'', coLabels = [''chain'', ''confirmation'']\<rparr>"

definition AlertsSent :: collector where
  "AlertsSent = \<lparr>coKind = CounterVec, coName = ''opsentry_alerts_sent_total'',
     coHelp = ''Alerts delivered, per receiver and kind'', coLabels = [''receiver'', ''kind'']\<rparr>"

definition AlertsDeduped :: collector where
  "AlertsDeduped = \<lparr>coKind = CounterVec, coName = ''opsentry_alerts_deduped_total'',
     coHelp = ''Alerts suppressed by dedup, per monitor'', coLabels = [''monitor'']\<rparr>"

definition AlertsThrottled :: collector where
  "AlertsThrottled = \<lparr>coKind = CounterVec, coName = ''opsentry_alerts_throttled_total'',
     coHelp = ''Alerts suppressed by receiver throttle, per receiver'', coLabels = [''receiver'']\<rparr>"

definition ReorgsSeen :: collector where
  "ReorgsSeen = \<lparr>coKind = CounterVec, coName = ''opsentry_reorgs_seen_total'',
     coHelp = ''Reorgs detected, per chain and depth bucket'', coLabels = [''chain'', ''depth'']\<rparr>"

definition RPCErrors :: collector where
  "RPCErrors = \<lparr>coKind = CounterVec, coName = ''opsentry_rpc_errors_total'',
     coHelp = ''RPC errors, per chain and rpc url'', coLabels = [''chain'', ''rpc'']\<rparr>"

text \<open>What \<open>init\<close> registers.\<close>

definition registered :: "collector list" where
  "registered = [HeadLag, AlertsSent, AlertsDeduped, AlertsThrottled, ReorgsSeen, RPCErrors]"

section \<open>Calls\<close>

text \<open>A call gives the values of the labels in order and increments a counter or sets a gauge. The value of the
  gauge is a \<open>float64\<close>, written as the integer it equals.\<close>

datatype metric = Inc collector "string list" | SetTo collector "string list" int

text \<open>\<open>WithLabelValues\<close> panics when the number of values is not that of the labels.\<close>

fun well_labelled :: "metric \<Rightarrow> bool" where
  "well_labelled (Inc c vs) \<longleftrightarrow> c \<in> set registered \<and> coKind c = CounterVec \<and> length vs = length (coLabels c)"
| "well_labelled (SetTo c vs x) \<longleftrightarrow> c \<in> set registered \<and> coKind c = GaugeVec \<and> length vs = length (coLabels c)"

lemmas collector_defs = HeadLag_def AlertsSent_def AlertsDeduped_def AlertsThrottled_def ReorgsSeen_def RPCErrors_def

text \<open>\<open>MustRegister\<close> panics when two collectors have the same name.\<close>

lemma registered_distinct: "distinct (map coName registered)"
  by (simp add: registered_def collector_defs)

text \<open>The collectors differ, so calls on different ones are told apart.\<close>

lemma collectors_differ [simp]:
  "AlertsSent \<noteq> AlertsThrottled" "AlertsThrottled \<noteq> AlertsSent" "AlertsSent \<noteq> AlertsDeduped" "AlertsDeduped \<noteq> AlertsSent"
  "AlertsSent \<noteq> ReorgsSeen" "ReorgsSeen \<noteq> AlertsSent" "AlertsSent \<noteq> RPCErrors" "RPCErrors \<noteq> AlertsSent"
  "AlertsThrottled \<noteq> AlertsDeduped" "AlertsDeduped \<noteq> AlertsThrottled"
  by (simp_all add: collector_defs)

text \<open>The time and the metrics, as operations on a world.\<close>

record 'w host =
  hoNow :: "'w \<Rightarrow> gotime"
  hoObs :: "metric \<Rightarrow> 'w \<Rightarrow> 'w"

end
