(* ===== verification/Tracker.thy ===== *)
theory Tracker
  imports Reorg Store_Contract Metrics
begin

text \<open>
  The head tracker of \<open>internal/ingest/tracker.go\<close>: each poll reconciles the new head, keeps the
  canonical blocks that are not yet deep enough as pending, drops reverted blocks that are still
  pending, reports the other reverted blocks, emits the blocks that reached the confirmation depth
  and saves the cursor. Two more loops follow the safe and the finalized head and hand out the
  stored blocks between two watermarks.

  Everything outside the tracker (the node, the store, the callbacks) acts on a world \<open>'w\<close>. Log
  lines are not modelled, and a mutex only guards fields that the modelled step reads and
  writes in one piece.
\<close>

section \<open>The model\<close>

record 'w headtracker =
  tChain :: string
  tInterval :: duration
  tTag :: string
  tConfirmDepth :: u64
  tHeadByTag :: "string \<Rightarrow> 'w \<Rightarrow> (err + blockref) \<times> 'w"
  tBlockByNumber :: "'w reader"
  tReconciler :: reconciler
  tStore :: "'w store"
  tNow :: "'w \<Rightarrow> gotime"
  tObs :: "metric \<Rightarrow> 'w \<Rightarrow> 'w"
  tOnCanonical :: "(blockref \<Rightarrow> 'w \<Rightarrow> 'w) option"
  tOnCanonicalBatch :: "(blockref list \<Rightarrow> 'w \<Rightarrow> 'w) option"
  tOnReverted :: "(blockref \<Rightarrow> 'w \<Rightarrow> 'w) option"
  tSafeTag :: string
  tFinalizedTag :: string
  tSafeInterval :: duration
  tFinalizedInterval :: duration
  tOnCanonicalSafe :: "(blockref list \<Rightarrow> 'w \<Rightarrow> 'w) option"
  tOnCanonicalFinalized :: "(blockref list \<Rightarrow> 'w \<Rightarrow> 'w) option"
  pending :: "blockref list"
  safeTip :: u64
  safeSeeded :: bool
  finalizedTip :: u64
  finalizedSeeded :: bool

text \<open>The errors of a poll; a panic of the reconciliation is among the reconciliation errors.\<close>

datatype poll_err = HeadErr string err | ReconcileErr rec_err | SaveCursorErr err

text \<open>Calling a callback that may be nil.\<close>

definition call :: "('a \<Rightarrow> 'w \<Rightarrow> 'w) option \<Rightarrow> 'a \<Rightarrow> 'w \<Rightarrow> 'w" where
  "call cb x w = (case cb of None \<Rightarrow> w | Some f \<Rightarrow> f x w)"

text \<open>The inner loop over \<open>pending\<close>: \<open>None\<close> when no entry has the number and hash of the block.\<close>

fun remove_pending :: "blockref \<Rightarrow> blockref list \<Rightarrow> blockref list option" where
  "remove_pending r [] = None"
| "remove_pending r (p # ps) =
     (if bNumber p = bNumber r \<and> bHash p = bHash r then Some ps
      else map_option (Cons p) (remove_pending r ps))"

text \<open>A reverted block that was not pending is counted and reported.\<close>

definition report :: "'w headtracker \<Rightarrow> blockref \<Rightarrow> 'w \<Rightarrow> 'w" where
  "report t r w = call (tOnReverted t) r (tObs t (Inc ReorgsSeen [tChain t, ''any'']) w)"

fun revert_pending :: "'w headtracker \<Rightarrow> blockref list \<Rightarrow> blockref list \<Rightarrow> 'w \<Rightarrow> blockref list \<times> 'w" where
  "revert_pending t [] ps w = (ps, w)"
| "revert_pending t (r # rs) ps w =
     (case remove_pending r ps of
        Some ps' \<Rightarrow> revert_pending t rs ps' w
      | None \<Rightarrow> revert_pending t rs ps (report t r w))"

definition emit_threshold :: "u64 \<Rightarrow> u64 \<Rightarrow> u64" where
  "emit_threshold headNumber depth = (if depth < headNumber then headNumber - depth else 0)"

text \<open>A block that cannot be remembered is logged and still handed to the callback.\<close>

fun emit_blocks :: "'w headtracker \<Rightarrow> blockref list \<Rightarrow> 'w \<Rightarrow> 'w" where
  "emit_blocks t [] w = w"
| "emit_blocks t (b # bs) w =
     emit_blocks t bs (call (tOnCanonical t) b (snd (RememberBlock (tStore t) b w)))"

text \<open>The gauge is set to the distance of the head, in 64 bits and then rounded to a \<open>float64\<close>.\<close>

definition head_lag :: "blockref \<Rightarrow> blockref \<Rightarrow> int" where
  "head_lag head newTip = f64_of_int (uint (bNumber head - bNumber newTip))"

definition finish_emit :: "'w headtracker \<Rightarrow> blockref \<Rightarrow> blockref list \<Rightarrow> 'w \<Rightarrow> poll_err option \<times> 'w" where
  "finish_emit t head emit w =
     (if emit = [] then (None, w)
      else let w' = call (tOnCanonicalBatch t) emit w
           in (case SaveCursor (tStore t) (tNow t w') \<lparr>cuChain = tChain t, cuBlock = last emit\<rparr> w' of
                 (Some e, w'') \<Rightarrow> (Some (SaveCursorErr e), w'')
               | (None, w'') \<Rightarrow> (None, tObs t (SetTo HeadLag [tChain t, ''fast''] (head_lag head (last emit))) w'')))"

definition pollOnce ::
  "'w headtracker \<Rightarrow> 'w \<Rightarrow> (poll_err option \<times> 'w headtracker \<times> 'w) option" where
  "pollOnce t w =
     (case tHeadByTag t (tTag t) w of
        (Inl e, w1) \<Rightarrow> Some (Some (HeadErr (tTag t) e), t, w1)
      | (Inr head, w1) \<Rightarrow>
          (case OnHead (tBlockByNumber t) (tReconciler t) head w1 of
             None \<Rightarrow> None
           | Some (Inl e, r, w2) \<Rightarrow> Some (Some (ReconcileErr e), t\<lparr>tReconciler := r\<rparr>, w2)
           | Some (Inr res, r, w2) \<Rightarrow>
               (let (ps, w3) = revert_pending t (Reverted res) (pending t @ Canonical res) w2;
                    thr = emit_threshold (bNumber head) (tConfirmDepth t);
                    emit = sort_key bNumber (filter (\<lambda>b. bNumber b \<le> thr) ps);
                    t' = t\<lparr>tReconciler := r, pending := filter (\<lambda>b. \<not> bNumber b \<le> thr) ps\<rparr>;
                    (e, w5) = finish_emit t' head emit (emit_blocks t' emit w3)
                in Some (e, t', w5))))"

text \<open>One poll of a confirmation loop, on the watermark \<open>(tip, seeded)\<close> it is given.\<close>

definition pollConfirmationOnce ::
  "'w headtracker \<Rightarrow> string \<Rightarrow> (blockref list \<Rightarrow> 'w \<Rightarrow> 'w) \<Rightarrow> u64 \<times> bool \<Rightarrow> 'w \<Rightarrow> (u64 \<times> bool) \<times> 'w" where
  "pollConfirmationOnce t tag cb mark w =
     (case tHeadByTag t tag w of
        (Inl e, w1) \<Rightarrow> (mark, w1)
      | (Inr head, w1) \<Rightarrow>
          (case mark of (prev, sd) \<Rightarrow>
             if \<not> sd then ((bNumber head, True), w1)
             else if bNumber head \<le> prev then (mark, w1)
             else
               (case LoadCanonicalBlocksRange (tStore t) (tChain t) (prev + 1) (bNumber head) w1 of
                  (Inl e, w2) \<Rightarrow> ((bNumber head, True), w2)
                | (Inr [], w2) \<Rightarrow> ((bNumber head, True), w2)
                | (Inr bs, w2) \<Rightarrow> ((bNumber head, True), cb bs w2))))"

definition seedFromStorage :: "'w headtracker \<Rightarrow> 'w \<Rightarrow> err option \<times> 'w headtracker \<times> 'w" where
  "seedFromStorage t w =
     (case LoadCursor (tStore t) (tChain t) w of
        (Inl e, w1) \<Rightarrow> (Some e, t, w1)
      | (Inr None, w1) \<Rightarrow> (None, t, w1)
      | (Inr (Some cur), w1) \<Rightarrow>
          (let minBlock = (if 256 < bNumber (cuBlock cur) then bNumber (cuBlock cur) - 256 else 0)
           in (case LoadRecentBlocks (tStore t) (tChain t) minBlock w1 of
                 (Inl e, w2) \<Rightarrow> (Some e, t, w2)
               | (Inr bs, w2) \<Rightarrow> (None, t\<lparr>tReconciler := LoadKnown bs (tReconciler t)\<rparr>, w2))))"

text \<open>The defaults \<open>Run\<close> fills in, and its start: a failed seeding is logged and ignored.\<close>

definition run_defaults :: "'w headtracker \<Rightarrow> 'w headtracker" where
  "run_defaults t =
     t\<lparr>tTag := (if tTag t = [] then ''latest'' else tTag t),
       tInterval := (if tInterval t = 0 then 2 * second else tInterval t),
       tSafeInterval := (if tSafeInterval t = 0 then 30 * second else tSafeInterval t),
       tFinalizedInterval := (if tFinalizedInterval t = 0 then 60 * second else tFinalizedInterval t)\<rparr>"

definition run_start :: "'w headtracker \<Rightarrow> 'w \<Rightarrow> 'w headtracker \<times> 'w" where
  "run_start t w = snd (seedFromStorage (run_defaults t) w)"

text \<open>
  What \<open>Run\<close> and the two confirmation loops do, one poll at a time in any interleaving. Between two
  polls the world may change on its own: new blocks, other chains' trackers, other goroutines.
\<close>

inductive track_step :: "'w headtracker \<times> 'w \<Rightarrow> 'w headtracker \<times> 'w \<Rightarrow> bool" where
  poll: "pollOnce t w = Some (e, t', w') \<Longrightarrow> track_step (t, w) (t', w')"
| safe: "tSafeTag t \<noteq> [] \<Longrightarrow> tOnCanonicalSafe t = Some cb \<Longrightarrow>
     pollConfirmationOnce t (tSafeTag t) cb (safeTip t, safeSeeded t) w = ((n, sd), w') \<Longrightarrow>
     track_step (t, w) (t\<lparr>safeTip := n, safeSeeded := sd\<rparr>, w')"
| finalized: "tFinalizedTag t \<noteq> [] \<Longrightarrow> tOnCanonicalFinalized t = Some cb \<Longrightarrow>
     pollConfirmationOnce t (tFinalizedTag t) cb (finalizedTip t, finalizedSeeded t) w = ((n, sd), w') \<Longrightarrow>
     track_step (t, w) (t\<lparr>finalizedTip := n, finalizedSeeded := sd\<rparr>, w')"
| elsewhere: "track_step (t, w) (t, w')"

section \<open>Pending blocks\<close>

definition block_key :: "blockref \<Rightarrow> u64 \<times> bytes32" where
  "block_key b = (bNumber b, bHash b)"

lemma remove_pending_None: "remove_pending r ps = None \<longleftrightarrow> block_key r \<notin> block_key ` set ps"
  by (induction ps) (auto simp: block_key_def)

lemma remove_pending_Some:
  "distinct (map block_key ps) \<Longrightarrow> remove_pending r ps = Some ps' \<Longrightarrow> ps' = filter (\<lambda>p. block_key p \<noteq> block_key r) ps"
proof (induction ps arbitrary: ps')
  case (Cons p ps)
  then show ?case
    by (force simp: block_key_def image_iff split: if_splits intro!: filter_True [symmetric])
qed simp

text \<open>Pending blocks that were reverted disappear without a report; every other reverted block is
  reported, in order.\<close>

lemma revert_pending_spec:
  "distinct (map block_key ps) \<Longrightarrow> distinct (map block_key rs) \<Longrightarrow>
     revert_pending t rs ps w =
       (filter (\<lambda>p. block_key p \<notin> block_key ` set rs) ps,
        fold (report t) (filter (\<lambda>r. block_key r \<notin> block_key ` set ps) rs) w)"
proof (induction rs arbitrary: ps w)
  case (Cons r rs)
  show ?case
  proof (cases "remove_pending r ps")
    case None
    with Cons have "block_key r \<notin> block_key ` set ps" by (simp add: remove_pending_None)
    moreover from this have "filter (\<lambda>p. block_key p \<notin> block_key ` set rs) ps =
        filter (\<lambda>p. block_key p \<notin> block_key ` set (r # rs)) ps"
      by (intro filter_cong) (force simp: image_iff)+
    ultimately show ?thesis using Cons None by simp
  next
    case (Some ps')
    let ?ps = "filter (\<lambda>p. block_key p \<noteq> block_key r) ps"
    have ps': "ps' = ?ps" using remove_pending_Some [OF Cons.prems(1) Some] .
    have r: "block_key r \<in> block_key ` set ps" using Some by (metis remove_pending_None option.distinct(1))
    have dist: "distinct (map block_key ?ps)" using Cons.prems(1) by (rule distinct_map_filter)
    have ne: "block_key x \<noteq> block_key r" if "x \<in> set rs" for x
      using Cons.prems(2) that by (metis distinct.simps(2) image_eqI list.set_map list.simps(9))
    have "filter (\<lambda>x. block_key x \<notin> block_key ` set ?ps) rs = filter (\<lambda>x. block_key x \<notin> block_key ` set ps) rs"
      by (intro filter_cong refl) (use ne in fastforce)
    moreover have "filter (\<lambda>p. block_key p \<notin> block_key ` set rs) ?ps =
        filter (\<lambda>p. block_key p \<notin> block_key ` set (r # rs)) ps"
      by (simp add: conj_commute)
    ultimately show ?thesis
      using Cons.IH [OF dist, of w] Cons.prems Some r by (simp add: ps')
  qed
qed simp

lemma emit_threshold_le:
  "n \<le> emit_threshold h depth \<longleftrightarrow> unat n + unat depth \<le> unat h \<or> n = 0"
proof (cases "depth < h")
  case True
  then have "unat (h - depth) = unat h - unat depth" by (simp add: unat_sub)
  with True show ?thesis
    by (auto simp: emit_threshold_def word_le_nat_alt word_less_nat_alt)
next
  case False
  then show ?thesis
    by (auto simp: emit_threshold_def word_le_nat_alt word_less_nat_alt word_unat_eq_iff)
qed

text \<open>A canonical block above block 0 takes the place of a reverted block or of none.\<close>

lemma canonical_displaces:
  assumes wf: "rec_wf r" and c: "rec_case_of c r head res r'"
    and d: "d \<in> set (Canonical res)" "bNumber d \<noteq> 0" and p: "map_of (known r) (bNumber d) = Some p"
  shows "p \<in> set (Reverted res)"
proof (cases c)
  case Seeding
  with wf c p show ?thesis by (simp add: rec_wf_def)
next
  case Duplicate
  with c d show ?thesis by (simp add: empty_result_def)
next
  case Forward
  with c have cu: "caught_up r head (Canonical res)" by simp
  with d linked_number_range [of "Canonical res" d] have "unat (tip r) < unat (bNumber d)"
    by (simp add: caught_up_def)
  moreover have "bNumber d \<le> tip r" using wf p by (auto simp: rec_wf_def)
  ultimately show ?thesis by (simp add: word_le_nat_alt)
next
  case (Reorg anc)
  with c have ro: "reorg_to r head anc res r'" by simp
  have tp: "unat (bNumber d) < Suc (unat (tip r))"
    using wf p by (auto simp: rec_wf_def word_le_nat_alt less_Suc_eq_le)
  have we: "walk_ends r anc (hd (Canonical res))" using ro by (simp add: reorg_to_def)
  have "unat (bNumber (hd (Canonical res))) \<le> unat (bNumber d)"
    using ro d linked_number_range [of "Canonical res" d] by (simp add: reorg_to_def)
  then have "Suc (unat anc) \<le> unat (bNumber d)"
    using we d(2) unat_dec [of "bNumber (hd (Canonical res))"]
    by (auto simp: walk_ends_def word_unat_eq_iff)
  with tp p have "p \<in> set (blocks_between (map_of (known r)) (Suc (unat anc)) (Suc (unat (tip r))))"
    by (auto simp: set_blocks_between intro!: exI [of _ "unat (bNumber d)"])
  with ro show ?thesis by (simp add: reorg_to_def)
qed

text \<open>A canonical block is not one that was known already.\<close>

lemma canonical_fresh:
  assumes wf: "rec_wf r" and c: "rec_case_of c r head res r'"
    and d: "d \<in> set (Canonical res)" and p: "map_of (known r) (bNumber d) = Some p"
  shows "bHash p \<noteq> bHash d"
proof (cases c)
  case Forward
  with c have cu: "caught_up r head (Canonical res)" by simp
  with d linked_number_range [of "Canonical res" d] have "unat (tip r) < unat (bNumber d)"
    by (simp add: caught_up_def)
  moreover have "bNumber d \<le> tip r" using wf p by (auto simp: rec_wf_def)
  ultimately show ?thesis by (simp add: word_le_nat_alt)
next
  case (Reorg anc)
  with c d p show ?thesis by (auto simp: reorg_to_def displaces_def)
qed (use assms in \<open>auto simp: rec_wf_def empty_result_def\<close>)

section \<open>What a poll does\<close>

text \<open>
  The pending blocks are known blocks of distinct numbers. The confirmation depth may not exceed
  the reconciler's window, or a pending block could leave the window before it is emitted.
\<close>

definition tracker_inv :: "'w headtracker \<Rightarrow> bool" where
  "tracker_inv t \<longleftrightarrow> rec_wf (tReconciler t) \<and> tip (tReconciler t) \<noteq> max_u64 \<and>
     tConfirmDepth t \<le> maxDepth (tReconciler t) \<and> distinct (map bNumber (pending t)) \<and>
     (\<forall>p \<in> set (pending t). map_of (known (tReconciler t)) (bNumber p) = Some p \<and> bNumber p \<noteq> 0)"

text \<open>What the node documents: blocks have the requested number, heads are below the largest number.\<close>

definition good_node :: "'w headtracker \<Rightarrow> bool" where
  "good_node t \<longleftrightarrow> numbered (tBlockByNumber t) \<and>
     (\<forall>tag w b w'. tHeadByTag t tag w = (Inr b, w') \<longrightarrow> bNumber b \<noteq> max_u64)"

text \<open>The blocks a poll has to place, and the effects of a poll on the world.\<close>

definition unsettled :: "'w headtracker \<Rightarrow> reconcile_result \<Rightarrow> blockref list" where
  "unsettled t res = filter (\<lambda>p. p \<notin> set (Reverted res)) (pending t) @ Canonical res"

definition deliver ::
  "'w headtracker \<Rightarrow> blockref \<Rightarrow> blockref list \<Rightarrow> blockref list \<Rightarrow> 'w \<Rightarrow> poll_err option \<times> 'w" where
  "deliver t head reported emitted w =
     finish_emit t head emitted (emit_blocks t emitted (fold (report t) reported w))"

lemma report_frame: "report (t\<lparr>tReconciler := r, pending := ps\<rparr>) = report t"
  by (simp add: report_def fun_eq_iff)

lemma linked_canonical: "rec_wf r \<Longrightarrow> rec_case_of c r head res r' \<Longrightarrow> linked (Canonical res)"
  by (cases c) (auto simp: empty_result_def caught_up_def reorg_to_def)

lemma distinct_keys:
  assumes "tracker_inv t" and c: "rec_case_of c (tReconciler t) head res r'"
  shows "distinct (map block_key (pending t @ Canonical res))" "distinct (map block_key (Reverted res))"
proof -
  have wf: "rec_wf (tReconciler t)" using assms by (simp add: tracker_inv_def)
  have by_number: "distinct (map block_key bs)" if "distinct (map bNumber bs)" for bs
    using that by (auto simp: distinct_map inj_on_def block_key_def)
  have "distinct (map block_key (pending t))" "distinct (map block_key (Canonical res))"
    using assms(1) linked_distinct_numbers [OF linked_canonical [OF wf c]]
    by (auto simp: tracker_inv_def intro: by_number)
  moreover have "block_key p \<noteq> block_key d" if "p \<in> set (pending t)" "d \<in> set (Canonical res)" for p d
    using canonical_fresh [OF wf c that(2)] that(1) assms(1)
    by (auto simp: tracker_inv_def block_key_def)
  ultimately show "distinct (map block_key (pending t @ Canonical res))"
    by (simp add: disjoint_iff image_iff) metis
  show "distinct (map block_key (Reverted res))"
    using reverted_step(1) [OF wf c] by (intro by_number) (simp add: strict_sorted_iff)
qed

lemma revert_pending_step:
  assumes inv: "tracker_inv t" and c: "rec_case_of c (tReconciler t) head res r'"
  shows "revert_pending t (Reverted res) (pending t @ Canonical res) w =
    (unsettled t res, fold (report t) (filter (\<lambda>b. b \<notin> set (pending t)) (Reverted res)) w)"
proof -
  have wf: "rec_wf (tReconciler t)" using inv by (simp add: tracker_inv_def)
  note rs = reverted_step [OF wf c]
  have same: "p = b" if "p \<in> set (pending t)" "b \<in> set (Reverted res)" "block_key p = block_key b" for p b
  proof -
    have "map_of (known (tReconciler t)) (bNumber p) = Some p" using inv that(1) by (simp add: tracker_inv_def)
    moreover have "bNumber p = bNumber b" using that(3) by (simp add: block_key_def)
    ultimately show ?thesis using rs(2) [OF that(2)] by (metis option.inject)
  qed
  have no_can: "block_key d \<noteq> block_key b" if "d \<in> set (Canonical res)" "b \<in> set (Reverted res)" for d b
    using rs(3) [OF that(2)] that(1) by (auto simp: block_key_def)
  have "filter (\<lambda>p. block_key p \<notin> block_key ` set (Reverted res)) (pending t) =
      filter (\<lambda>p. p \<notin> set (Reverted res)) (pending t)"
    by (intro filter_cong refl) (use same in \<open>blast intro: imageI\<close>)
  moreover have "filter (\<lambda>p. block_key p \<notin> block_key ` set (Reverted res)) (Canonical res) = Canonical res"
    by (intro filter_True) (use no_can in blast)
  moreover have "filter (\<lambda>b. block_key b \<notin> block_key ` set (pending t @ Canonical res)) (Reverted res) =
      filter (\<lambda>b. b \<notin> set (pending t)) (Reverted res)"
    by (intro filter_cong refl) (unfold set_append image_Un Un_iff image_iff, use same no_can in metis)
  ultimately show ?thesis
    using revert_pending_spec [OF distinct_keys [OF inv c]] by (simp add: unsettled_def)
qed

text \<open>
  A poll that ends either leaves the tracker as it was, or reconciles, reports the reverted blocks
  that are not pending, emits what is deep enough and keeps the rest.
\<close>

definition settles ::
  "'w headtracker \<Rightarrow> blockref \<Rightarrow> reconcile_result \<Rightarrow> 'w headtracker \<Rightarrow> blockref list \<Rightarrow> blockref list \<Rightarrow> bool" where
  "settles t head res t' reported emitted \<longleftrightarrow>
     reported = filter (\<lambda>b. b \<notin> set (pending t)) (Reverted res) \<and>
     emitted = sort_key bNumber (filter (\<lambda>b. bNumber b \<le> emit_threshold (bNumber head) (tConfirmDepth t))
       (unsettled t res)) \<and>
     (\<exists>c r'. rec_case_of c (tReconciler t) head res r' \<and>
        t' = t\<lparr>tReconciler := r',
          pending := filter (\<lambda>b. \<not> bNumber b \<le> emit_threshold (bNumber head) (tConfirmDepth t))
            (unsettled t res)\<rparr>)"

lemma pollOnce_spec:
  assumes inv: "tracker_inv t" and node: "good_node t"
  shows "\<exists>e t' w'. pollOnce t w = Some (e, t', w') \<and>
    ((\<exists>er. e = Some er \<and> \<not> (\<exists>x. er = SaveCursorErr x)) \<and> t' = t \<or>
     (\<exists>head res reported emitted w1 w2.
        tHeadByTag t (tTag t) w = (Inr head, w1) \<and> bNumber head \<noteq> max_u64 \<and>
        OnHead (tBlockByNumber t) (tReconciler t) head w1 = Some (Inr res, tReconciler t', w2) \<and>
        settles t head res t' reported emitted \<and> deliver t' head reported emitted w2 = (e, w')))"
proof (cases "tHeadByTag t (tTag t) w")
  case (Pair h w1)
  show ?thesis
  proof (cases h)
    case (Inl e)
    with Pair show ?thesis by (simp add: pollOnce_def)
  next
    case (Inr head)
    have nb: "numbered (tBlockByNumber t)" and hm: "bNumber head \<noteq> max_u64"
      using node Pair Inr by (auto simp: good_node_def)
    have tp: "tip (tReconciler t) \<noteq> max_u64" using inv by (simp add: tracker_inv_def)
    obtain out r' w2 where oh: "OnHead (tBlockByNumber t) (tReconciler t) head w1 = Some (out, r', w2)"
      and er: "\<forall>e. out = Inl e \<longrightarrow> r' = tReconciler t"
      and ok: "\<forall>res. out = Inr res \<longrightarrow> (\<exists>c. rec_case_of c (tReconciler t) head res r')"
      using OnHead_spec [OF nb tp hm, of w1] by blast
    show ?thesis
    proof (cases out)
      case (Inl e)
      with Pair Inr oh er show ?thesis by (simp add: pollOnce_def)
    next
      case res: (Inr res)
      with ok obtain c where c: "rec_case_of c (tReconciler t) head res r'" by blast
      let ?thr = "emit_threshold (bNumber head) (tConfirmDepth t)"
      let ?t = "t\<lparr>tReconciler := r', pending := filter (\<lambda>b. \<not> bNumber b \<le> ?thr) (unsettled t res)\<rparr>"
      let ?em = "sort_key bNumber (filter (\<lambda>b. bNumber b \<le> ?thr) (unsettled t res))"
      let ?rp = "filter (\<lambda>b. b \<notin> set (pending t)) (Reverted res)"
      obtain e w' where d: "deliver ?t head ?rp ?em w2 = (e, w')" by force
      have "pollOnce t w = Some (e, ?t, w')"
        using Pair Inr oh res d
        by (simp add: pollOnce_def revert_pending_step [OF inv c] deliver_def report_frame Let_def)
      moreover have "settles t head res ?t ?rp ?em" using c by (auto simp: settles_def)
      ultimately show ?thesis using Pair Inr hm oh res d by (intro exI conjI disjI2) auto
    qed
  qed
qed

lemma pollOnce_elim:
  assumes "tracker_inv t" "good_node t" "pollOnce t w = Some (e, t', w')"
  obtains "t' = t" "e \<noteq> None" "\<And>x. e \<noteq> Some (SaveCursorErr x)"
  | head res reported emitted w1 w2 where
      "tHeadByTag t (tTag t) w = (Inr head, w1)" "bNumber head \<noteq> max_u64"
      "OnHead (tBlockByNumber t) (tReconciler t) head w1 = Some (Inr res, tReconciler t', w2)"
      "settles t head res t' reported emitted" "deliver t' head reported emitted w2 = (e, w')"
  using pollOnce_spec [OF assms(1,2), of w] assms(3) that by auto

section \<open>Delivery\<close>

lemma assign_mem: "distinct (map bNumber bs) \<Longrightarrow> b \<in> set bs \<Longrightarrow> assign m bs (bNumber b) = Some b"
proof (induction bs rule: rev_induct)
  case (snoc c bs)
  then show ?case by (cases "b = c") (force simp: image_iff)+
qed simp

lemma assign_other: "k \<notin> bNumber ` set bs \<Longrightarrow> assign m bs k = m k"
  by (induction bs rule: rev_induct) auto

lemma assign_append: "assign m (as @ bs) = assign (assign m as) bs"
  by (simp add: assign_def)

lemma rec_case_max_depth: "rec_case_of c r head res r' \<Longrightarrow> maxDepth r' = maxDepth r"
  by (cases c) (auto simp: reorg_to_def)

lemma settlesE:
  assumes "settles t head res t' reported emitted"
  obtains c where "rec_case_of c (tReconciler t) head res (tReconciler t')"
    and "pending t' = filter (\<lambda>b. \<not> bNumber b \<le> emit_threshold (bNumber head) (tConfirmDepth t)) (unsettled t res)"
    and "emitted = sort_key bNumber
      (filter (\<lambda>b. bNumber b \<le> emit_threshold (bNumber head) (tConfirmDepth t)) (unsettled t res))"
    and "reported = filter (\<lambda>b. b \<notin> set (pending t)) (Reverted res)"
    and "tConfirmDepth t' = tConfirmDepth t" "tHeadByTag t' = tHeadByTag t"
      "tBlockByNumber t' = tBlockByNumber t" "tStore t' = tStore t" "tChain t' = tChain t" "tObs t' = tObs t"
  using assms by (auto simp: settles_def)

lemma distinct_unsettled:
  assumes inv: "tracker_inv t" and c: "rec_case_of c (tReconciler t) head res r'"
  shows "distinct (map bNumber (unsettled t res))"
proof -
  have wf: "rec_wf (tReconciler t)" using inv by (simp add: tracker_inv_def)
  have "bNumber p \<noteq> bNumber d" if "p \<in> set (pending t)" "p \<notin> set (Reverted res)" "d \<in> set (Canonical res)" for p d
  proof
    assume eq: "bNumber p = bNumber d"
    have "map_of (known (tReconciler t)) (bNumber d) = Some p" "bNumber d \<noteq> 0"
      using inv that(1) eq by (auto simp: tracker_inv_def)
    with canonical_displaces [OF wf c that(3)] that(2) show False by blast
  qed
  moreover have "distinct (map bNumber (filter (\<lambda>p. p \<notin> set (Reverted res)) (pending t)))"
    using inv by (simp add: tracker_inv_def distinct_map_filter)
  ultimately show ?thesis
    using linked_distinct_numbers [OF linked_canonical [OF wf c]]
    by (auto simp: unsettled_def)
qed

lemma distinct_settled:
  assumes inv: "tracker_inv t" and s: "settles t head res t' reported emitted"
  shows "distinct (map bNumber (emitted @ pending t'))" "distinct (map bNumber (unsettled t res))"
proof -
  from s obtain c where c: "rec_case_of c (tReconciler t) head res (tReconciler t')"
    and sp: "pending t' = filter (\<lambda>b. \<not> bNumber b \<le> emit_threshold (bNumber head) (tConfirmDepth t)) (unsettled t res)"
      "emitted = sort_key bNumber
        (filter (\<lambda>b. bNumber b \<le> emit_threshold (bNumber head) (tConfirmDepth t)) (unsettled t res))"
    by (rule settlesE)
  show d: "distinct (map bNumber (unsettled t res))" using distinct_unsettled [OF inv c] .
  have "inj_on bNumber (set (unsettled t res))" "distinct (unsettled t res)" using d by (simp_all add: distinct_map)
  then show "distinct (map bNumber (emitted @ pending t'))"
    unfolding sp by (auto simp: distinct_map inj_on_def)
qed

lemma set_settled:
  assumes "settles t head res t' reported emitted"
  shows "set emitted \<union> set (pending t') = set (unsettled t res)"
  using assms by (rule settlesE) auto

text \<open>Where a block to be placed stands in the new window.\<close>

lemma unsettled_known:
  assumes inv: "tracker_inv t" and c: "rec_case_of c (tReconciler t) head res r'"
    and b: "b \<in> set (unsettled t res)" and thr: "threshold r' \<le> bNumber b"
  shows "map_of (known r') (bNumber b) = Some b"
proof -
  have wf: "rec_wf (tReconciler t)" using inv by (simp add: tracker_inv_def)
  have rp: "map_of (known r') (bNumber b) = replay (map_of (known (tReconciler t))) res (bNumber b)"
    using replay_step [OF wf c] thr by simp
  have dc: "distinct (map bNumber (Canonical res))"
    using linked_distinct_numbers [OF linked_canonical [OF wf c]] .
  show ?thesis
  proof (cases "b \<in> set (Canonical res)")
    case True
    with dc show ?thesis by (simp add: rp replay_def assign_mem)
  next
    case False
    with b have pb: "b \<in> set (pending t)" "b \<notin> set (Reverted res)" by (auto simp: unsettled_def)
    have du: "distinct (map bNumber (unsettled t res))" using distinct_unsettled [OF inv c] .
    then have nc: "bNumber b \<notin> bNumber ` set (Canonical res)"
      using pb by (auto simp: unsettled_def)
    have kb: "map_of (known (tReconciler t)) (bNumber b) = Some b" using inv pb by (simp add: tracker_inv_def)
    have "bNumber b \<notin> bNumber ` set (Reverted res)"
    proof
      assume "bNumber b \<in> bNumber ` set (Reverted res)"
      then obtain x where "x \<in> set (Reverted res)" "bNumber b = bNumber x" by auto
      with reverted_step(2) [OF wf c] kb pb(2) show False by (metis option.inject)
    qed
    with nc kb show ?thesis by (simp add: rp replay_def assign_other forget_def)
  qed
qed

lemma tracker_inv_step:
  assumes inv: "tracker_inv t" and s: "settles t head res t' reported emitted"
    and mx: "bNumber head \<noteq> max_u64"
  shows "tracker_inv t'"
proof -
  from s obtain c where c: "rec_case_of c (tReconciler t) head res (tReconciler t')"
    and pe: "pending t' = filter (\<lambda>b. \<not> bNumber b \<le> emit_threshold (bNumber head) (tConfirmDepth t)) (unsettled t res)"
    and dp: "tConfirmDepth t' = tConfirmDepth t"
    by (rule settlesE)
  have wf: "rec_wf (tReconciler t)" and tp: "tip (tReconciler t) \<noteq> max_u64"
    and dm: "tConfirmDepth t \<le> maxDepth (tReconciler t)"
    using inv by (auto simp: tracker_inv_def)
  have wf': "rec_wf (tReconciler t')" using rec_wf_step [OF wf c] .
  have md: "maxDepth (tReconciler t') = maxDepth (tReconciler t)"
    using rec_case_max_depth [OF c] .
  have tp': "tip (tReconciler t') \<noteq> max_u64"
    using c tp mx tip_step [OF wf c] by (cases "c = Duplicate") auto
  have "map_of (known (tReconciler t')) (bNumber p) = Some p \<and> bNumber p \<noteq> 0" if p: "p \<in> set (pending t')" for p
  proof -
    have pu: "p \<in> set (unsettled t res)" and
      pt: "\<not> (unat (bNumber p) + unat (tConfirmDepth t) \<le> unat (bNumber head) \<or> bNumber p = 0)"
      using p pe by (auto simp: emit_threshold_le)
    have "map_of (known (tReconciler t')) (bNumber p) = Some p"
    proof (cases "c = Duplicate")
      case True
      with c pu inv show ?thesis by (auto simp: unsettled_def empty_result_def tracker_inv_def)
    next
      case False
      then have "threshold (tReconciler t') \<le> bNumber p"
        using tip_step [OF wf c] pt dm md by (auto simp: word_le_nat_alt unat_threshold)
      with unsettled_known [OF inv c pu] show ?thesis .
    qed
    with pt show ?thesis by simp
  qed
  then show ?thesis
    using wf' tp' dm md dp distinct_settled(1) [OF inv s] by (simp add: tracker_inv_def)
qed

text \<open>
  The view of a consumer that forgets a reported block and assigns an emitted one agrees with the
  reconciler's view at a number when the two coincide once the pending blocks are added, and
  nothing pending was handed out yet.
\<close>

definition agree :: "'w headtracker \<Rightarrow> (u64 \<rightharpoonup> blockref) \<Rightarrow> u64 \<Rightarrow> bool" where
  "agree t c k \<longleftrightarrow> map_of (known (tReconciler t)) k = assign c (pending t) k \<and>
     (k \<in> bNumber ` set (pending t) \<longrightarrow> c k = None)"

definition follow :: "(u64 \<rightharpoonup> blockref) \<Rightarrow> blockref list \<Rightarrow> blockref list \<Rightarrow> (u64 \<rightharpoonup> blockref)" where
  "follow c reported emitted = assign (forget c reported) emitted"

lemma agree_pending:
  assumes "tracker_inv t" "agree t c k" "map_of (known (tReconciler t)) k = Some b"
  shows "if b \<in> set (pending t) then c k = None else c k = Some b \<and> k \<notin> bNumber ` set (pending t)"
proof (cases "k \<in> bNumber ` set (pending t)")
  case True
  then obtain p where "p \<in> set (pending t)" "k = bNumber p" by auto
  moreover from this assms(1,3) have "p = b" by (auto simp: tracker_inv_def)
  ultimately show ?thesis using assms(2) True by (auto simp: agree_def)
next
  case False
  moreover have "bNumber b = k" using assms(1,3) by (auto simp: tracker_inv_def rec_wf_def)
  ultimately have "b \<notin> set (pending t)" by auto
  with False assms(2,3) show ?thesis by (simp add: agree_def assign_other)
qed

text \<open>Every slot a poll fills is empty once the reported blocks are forgotten, block 0 apart.\<close>

lemma slot_empty:
  assumes inv: "tracker_inv t" and s: "settles t head res t' reported emitted"
    and ag: "agree t c (bNumber b)" and b: "b \<in> set (unsettled t res)" "bNumber b \<noteq> 0"
  shows "forget c reported (bNumber b) = None"
proof (cases "b \<in> set (pending t)")
  case True
  then have "bNumber b \<in> bNumber ` set (pending t)" by simp
  with ag show ?thesis by (auto simp: agree_def forget_def)
next
  case False
  with b have bc: "b \<in> set (Canonical res)" by (auto simp: unsettled_def)
  from s obtain cs where c: "rec_case_of cs (tReconciler t) head res (tReconciler t')"
    and rep: "reported = filter (\<lambda>b. b \<notin> set (pending t)) (Reverted res)"
    by (rule settlesE)
  have wf: "rec_wf (tReconciler t)" using inv by (simp add: tracker_inv_def)
  show ?thesis
  proof (cases "map_of (known (tReconciler t)) (bNumber b)")
    case None
    with ag have "assign c (pending t) (bNumber b) = None" by (simp add: agree_def)
    then show ?thesis by (simp add: forget_def assign_None)
  next
    case (Some p)
    have pr: "p \<in> set (Reverted res)" using canonical_displaces [OF wf c bc b(2) Some] .
    have pn: "bNumber p = bNumber b" using wf Some by (auto simp: rec_wf_def)
    have "bNumber b \<in> bNumber ` set reported \<or> c (bNumber b) = None"
      using agree_pending [OF inv ag Some] pr by (auto simp: rep simp flip: pn)
    then show ?thesis by (auto simp: forget_def)
  qed
qed

lemma agree_step:
  assumes inv: "tracker_inv t" and s: "settles t head res t' reported emitted"
    and ag: "agree t c k" and thr: "threshold (tReconciler t') \<le> k"
  shows "agree t' (follow c reported emitted) k"
proof -
  from s obtain cs where cs: "rec_case_of cs (tReconciler t) head res (tReconciler t')"
    and pe: "pending t' = filter (\<lambda>b. \<not> bNumber b \<le> emit_threshold (bNumber head) (tConfirmDepth t)) (unsettled t res)"
    and rep: "reported = filter (\<lambda>b. b \<notin> set (pending t)) (Reverted res)"
    by (rule settlesE)
  have wf: "rec_wf (tReconciler t)" using inv by (simp add: tracker_inv_def)
  note ds = distinct_settled(1) [OF inv s]
  have all: "assign (follow c reported emitted) (pending t') = assign (forget c reported) (emitted @ pending t')"
    by (simp add: follow_def assign_append)
  show ?thesis
  proof (cases "k \<in> bNumber ` set (unsettled t res)")
    case True
    then obtain b where b: "b \<in> set (unsettled t res)" "k = bNumber b" by auto
    have "map_of (known (tReconciler t')) k = Some b"
      using unsettled_known [OF inv cs b(1)] thr b(2) by simp
    moreover have "assign (forget c reported) (emitted @ pending t') k = Some b"
      using assign_mem [OF ds, of b] b set_settled [OF s] by auto
    moreover have "follow c reported emitted k = None" if "k \<in> bNumber ` set (pending t')"
    proof -
      have "k \<noteq> 0" using that pe by (auto simp: emit_threshold_le)
      moreover have "k \<notin> bNumber ` set emitted" using ds that by auto
      ultimately show ?thesis
        using slot_empty [OF inv s, of c b] ag b by (simp add: follow_def assign_other)
    qed
    ultimately show ?thesis by (simp add: agree_def all)
  next
    case False
    then have nc: "k \<notin> bNumber ` set (Canonical res)" and nu: "k \<notin> bNumber ` set (emitted @ pending t')"
      using set_settled [OF s] by (auto simp: unsettled_def)
    have "map_of (known (tReconciler t')) k = forget (map_of (known (tReconciler t))) (Reverted res) k"
      using replay_step [OF wf cs, of k] thr nc by (simp add: replay_def assign_other)
    also have "\<dots> = forget c reported k"
    proof (cases "k \<in> bNumber ` set (Reverted res)")
      case True
      then obtain b where b: "b \<in> set (Reverted res)" "k = bNumber b" by auto
      then have "map_of (known (tReconciler t)) k = Some b" using reverted_step(2) [OF wf cs] by auto
      from agree_pending [OF inv ag this] b show ?thesis
        by (auto simp: forget_def rep split: if_splits)
    next
      case nr: False
      have "k \<notin> bNumber ` set (pending t)"
        using False nr by (auto simp: unsettled_def)
      with ag nr show ?thesis by (auto simp: forget_def rep agree_def assign_other)
    qed
    finally show ?thesis using nu by (auto simp: agree_def all assign_other)
  qed
qed

section \<open>Runs\<close>

lemma good_node_settles: "settles t head res t' reported emitted \<Longrightarrow> good_node t' = good_node t"
  by (erule settlesE) (simp add: good_node_def)

lemma track_step_inv:
  assumes "track_step (t, w) (t', w')" "tracker_inv t" "good_node t"
  shows "tracker_inv t' \<and> good_node t'"
  using assms(1)
proof cases
  case (poll e)
  from assms(2,3) this show ?thesis
    by (rule pollOnce_elim) (use assms(2,3) in \<open>auto simp: tracker_inv_step good_node_settles\<close>)
qed (use assms(2,3) in \<open>auto simp: tracker_inv_def good_node_def\<close>)

lemma track_run_inv:
  assumes "track_step\<^sup>*\<^sup>* x y" "tracker_inv (fst x)" "good_node (fst x)"
  shows "tracker_inv (fst y) \<and> good_node (fst y)"
  using assms
proof (induction rule: rtranclp_induct)
  case (step y z)
  then show ?case
    using track_step_inv [of "fst y" "snd y" "fst z" "snd z"] by simp
qed simp

text \<open>A tracker before \<open>Run\<close>: a new reconciler, nothing pending.\<close>

definition fresh_tracker :: "'w headtracker \<Rightarrow> bool" where
  "fresh_tracker t \<longleftrightarrow> pending t = [] \<and> tConfirmDepth t \<le> maxDepth (tReconciler t) \<and>
     (\<exists>depth. tReconciler t = NewReconciler (tChain t) depth)"

text \<open>The store holds blocks of existing numbers only.\<close>

definition good_store :: "'w headtracker \<Rightarrow> bool" where
  "good_store t \<longleftrightarrow> (\<forall>chain lo w bs w'. LoadRecentBlocks (tStore t) chain lo w = (Inr bs, w') \<longrightarrow>
     (\<forall>b \<in> set bs. bNumber b \<noteq> max_u64))"

lemma tracker_inv_load:
  assumes "fresh_tracker t" "\<forall>b \<in> set bs. bNumber b \<noteq> max_u64"
  shows "tracker_inv (t\<lparr>tReconciler := LoadKnown bs (tReconciler t)\<rparr>)"
proof -
  obtain depth where r: "tReconciler t = NewReconciler (tChain t) depth"
    using assms(1) by (auto simp: fresh_tracker_def)
  have "rec_wf (NewReconciler (tChain t) depth)" "\<not> seeded (NewReconciler (tChain t) depth)"
    "tip (NewReconciler (tChain t) depth) \<noteq> max_u64"
    using rec_inv_new [of "tChain t" depth] by (auto simp: rec_inv_def NewReconciler_def)
  with assms r show ?thesis
    by (auto simp: tracker_inv_def fresh_tracker_def LoadKnown_wf tip_fold_ne_max)
qed

lemma tracker_inv_fresh: "fresh_tracker t \<Longrightarrow> tracker_inv t"
  using rec_inv_new [of "tChain t"]
  by (auto simp: fresh_tracker_def tracker_inv_def rec_inv_def NewReconciler_def)

lemma good_node_load: "good_node (t\<lparr>tReconciler := r\<rparr>) = good_node t"
  by (simp add: good_node_def)

lemma run_start_cases:
  assumes "run_start t w = (t', w')"
  shows "t' = run_defaults t \<or> (\<exists>out v lo bs. LoadCursor (tStore t) (tChain t) w = (out, v) \<and>
    LoadRecentBlocks (tStore t) (tChain t) lo v = (Inr bs, w') \<and>
    t' = (run_defaults t)\<lparr>tReconciler := LoadKnown bs (tReconciler t)\<rparr>)"
proof -
  have "tStore (run_defaults t) = tStore t" "tChain (run_defaults t) = tChain t" "tReconciler (run_defaults t) = tReconciler t"
    by (simp_all add: run_defaults_def)
  then show ?thesis
    using assms by (auto simp: run_start_def seedFromStorage_def Let_def split: prod.splits sum.splits option.splits)
qed

lemma run_start_inv_at:
  assumes "fresh_tracker t" "good_node t" "run_start t w = (t', w')"
    and loaded: "\<And>out v lo bs. LoadCursor (tStore t) (tChain t) w = (out, v) \<Longrightarrow>
      LoadRecentBlocks (tStore t) (tChain t) lo v = (Inr bs, w') \<Longrightarrow> \<forall>b \<in> set bs. bNumber b \<noteq> max_u64"
  shows "tracker_inv t' \<and> good_node t'"
proof -
  let ?d = "run_defaults t"
  have d: "fresh_tracker ?d" "good_node ?d" "tReconciler ?d = tReconciler t"
    using assms(1,2) by (auto simp: run_defaults_def fresh_tracker_def good_node_def)
  have "t' = ?d \<or> (\<exists>bs. (\<forall>b \<in> set bs. bNumber b \<noteq> max_u64) \<and> t' = ?d\<lparr>tReconciler := LoadKnown bs (tReconciler ?d)\<rparr>)"
    using run_start_cases [OF assms(3)] loaded d(3) by metis
  then show ?thesis
    using d(2) tracker_inv_fresh [OF d(1)] tracker_inv_load [OF d(1)] by (auto simp: good_node_load)
qed

lemma run_start_inv:
  assumes "fresh_tracker t" "good_store t" "good_node t" "run_start t w = (t', w')"
  shows "tracker_inv t' \<and> good_node t'"
  using run_start_inv_at [OF assms(1,3,4)] assms(2) unfolding good_store_def by blast

section \<open>The confirmation loops\<close>

context store_laws
begin

text \<open>A poll that finds a higher head hands out exactly the stored blocks between the watermarks,
  unless the store fails.\<close>

lemma confirmation_range:
  assumes "tStore t = st" "tHeadByTag t tag w = (Inr head, w1)" "inv w1"
    and "prev < bNumber head" "unat (bNumber head) < 2 ^ 63"
    and "pollConfirmationOnce t tag cb (prev, True) w = ((n, sd), w')"
  shows "n = bNumber head \<and> sd \<and>
    (\<exists>e w2. LoadCanonicalBlocksRange st (tChain t) (prev + 1) (bNumber head) w1 = (Inl e, w2) \<and> w' = w2 \<or>
     (\<exists>bs. LoadCanonicalBlocksRange st (tChain t) (prev + 1) (bNumber head) w1 = (Inr bs, w2) \<and>
        w' = (if bs = [] then w2 else cb bs w2) \<and>
        set bs = {b. \<exists>k. prev < k \<and> k \<le> bNumber head \<and> vBlocks (view w1) (tChain t) k = Some b} \<and>
        sorted_wrt (\<lambda>a b. bNumber a < bNumber b) bs))"
proof -
  obtain out w2 where ld: "LoadCanonicalBlocksRange st (tChain t) (prev + 1) (bNumber head) w1 = (out, w2)"
    by force
  have run: "n = bNumber head \<and> sd \<and> (\<forall>e. out = Inl e \<longrightarrow> w' = w2) \<and>
      (\<forall>bs. out = Inr bs \<longrightarrow> w' = (if bs = [] then w2 else cb bs w2))"
    using assms(1,2,4,6) ld
    by (auto simp: pollConfirmationOnce_def not_le [symmetric] split: sum.splits list.splits)
  show ?thesis
  proof (cases out)
    case (Inl e)
    with run ld show ?thesis by auto
  next
    case (Inr bs)
    note law = load_range [OF assms(3) ld]
    have small: "unat k < 2 ^ 63" if "k \<le> bNumber head" for k
      using that assms(5) by (simp add: word_le_nat_alt)
    have "unat prev < unat (bNumber head)" using assms(4) by (simp add: word_less_nat_alt)
    have lo: "unat (prev + 1) = Suc (unat prev)" using assms(4) by (rule unat_inc)
    have lo': "unat (prev + 1) < 2 ^ 63" using lo assms(4,5) by (simp add: word_less_nat_alt)
    have rng: "int64 (prev + 1) \<le> int64 k \<and> int64 k \<le> int64 (bNumber head) \<longleftrightarrow> prev < k \<and> k \<le> bNumber head" for k
      by (rule signed_range [OF lo lo' assms(5)])
    have set: "set bs = {b. \<exists>k. prev < k \<and> k \<le> bNumber head \<and> vBlocks (view w1) (tChain t) k = Some b}"
      using law Inr rng by (simp only: conj_assoc [symmetric])
    have le: "bNumber a \<le> bNumber head" if "a \<in> set bs" for a
      using that block_number [OF assms(3)] unfolding set by blast
    have signed: "sorted_wrt (\<lambda>a b. int64 (bNumber a) < int64 (bNumber b)) bs" using law Inr by simp
    have sorted: "sorted_wrt (\<lambda>a b. bNumber a < bNumber b) bs"
      by (rule sorted_wrt_mono_rel [OF _ signed]) (use small le int64_less in blast)
    from run ld Inr show ?thesis by (simp add: set [symmetric] sorted)
  qed
qed

end

lemma confirmation_mark:
  assumes "pollConfirmationOnce t tag cb (prev, sd) w = ((n, sd'), w')"
  shows "(sd \<longrightarrow> sd' \<and> prev \<le> n)"
  using assms by (auto simp: pollConfirmationOnce_def split: prod.splits sum.splits if_splits list.splits)

end
