(* ===== verification/Logs.thy ===== *)
theory Logs
  imports Pipeline "HOL-Library.Product_Lexorder" "HOL-Library.Multiset"
begin

text \<open>
  The log fetcher of \<open>internal/ingest/logs.go\<close>: a batch of canonical blocks is split into runs of
  consecutive numbers, each run is asked for in one \<open>eth_getLogs\<close> query, and the returned logs are
  handed on in order of block and index, each with the block it belongs to. The client is a
  parameter with the world \<open>'w\<close> as its state.
\<close>

section \<open>The model\<close>

text \<open>The fields of go-ethereum's \<open>types.Log\<close> that the fetcher can read.\<close>

record gethlog =
  glAddress :: bytes20
  glTopics :: "bytes32 list"
  glData :: bytes
  glBlockNumber :: u64
  glTxHash :: bytes32
  glTxIndex :: u64
  glBlockHash :: bytes32
  glIndex :: u64

record 'w logfetcher =
  lfChain :: string
  lfFilterLogs :: "u64 \<Rightarrow> u64 \<Rightarrow> bytes20 list \<Rightarrow> 'w \<Rightarrow> (err + gethlog list) \<times> 'w"
  lfAddresses :: "bytes20 list"
  lfBatchSize :: int
  lfOnLog :: "(log \<Rightarrow> 'w \<Rightarrow> 'w) option"

definition defaultLogsBatchSize :: int where
  "defaultLogsBatchSize = 1000"

text \<open>The address and the hashes are copied into arrays of their own size.\<close>

definition toPipelineLog :: "string \<Rightarrow> blockref \<Rightarrow> gethlog \<Rightarrow> log" where
  "toPipelineLog chain b lg =
     \<lparr>lChain = chain, lBlock = b, lTxHash = glTxHash lg, lTxIndex = glTxIndex lg, lLogIndex = glIndex lg,
      lAddress = glAddress lg, lTopics = glTopics lg, lData = glData lg\<rparr>"

fun hand_on :: "string \<Rightarrow> (log \<Rightarrow> 'w \<Rightarrow> 'w) \<Rightarrow> (u64, blockref) gomap \<Rightarrow> gethlog list \<Rightarrow> 'w \<Rightarrow> 'w" where
  "hand_on chain onLog byNumber [] w = w"
| "hand_on chain onLog byNumber (lg # lgs) w =
     (case map_of byNumber (glBlockNumber lg) of
        None \<Rightarrow> hand_on chain onLog byNumber lgs w
      | Some b \<Rightarrow> hand_on chain onLog byNumber lgs (onLog (toPipelineLog chain b lg) w))"

text \<open>A failed query is logged and its range skipped.\<close>

definition fetchRange ::
  "'w logfetcher \<Rightarrow> (log \<Rightarrow> 'w \<Rightarrow> 'w) \<Rightarrow> u64 \<Rightarrow> u64 \<Rightarrow> (u64, blockref) gomap \<Rightarrow> 'w \<Rightarrow> 'w" where
  "fetchRange f onLog from to byNumber w =
     (case lfFilterLogs f from to (lfAddresses f) w of
        (Inl e, w') \<Rightarrow> w'
      | (Inr lgs, w') \<Rightarrow>
          hand_on (lfChain f) onLog byNumber (sort_key (\<lambda>lg. (glBlockNumber lg, glIndex lg)) lgs) w')"

text \<open>The inner loop: the end of the run that starts at index \<open>start\<close>.\<close>

function run_end :: "u64 list \<Rightarrow> int \<Rightarrow> nat \<Rightarrow> nat \<Rightarrow> nat" where
  "run_end nums batchSize start e =
     (if e + 1 < length nums \<and> nums ! (e + 1) = nums ! e + 1 \<and> int (e - start + 1) < batchSize
      then run_end nums batchSize start (e + 1) else e)"
  by pat_completeness auto
termination
  by (relation "measure (\<lambda>(nums, b, s, e). length nums - e)") auto

declare run_end.simps [simp del]

lemma run_end_ge: "e \<le> run_end nums b s e"
  by (induction nums b s e rule: run_end.induct) (subst run_end.simps, force)

lemma run_end_less: "e < length nums \<Longrightarrow> run_end nums b s e < length nums"
  by (induction nums b s e rule: run_end.induct) (subst run_end.simps, force)

text \<open>The outer loop.\<close>

function fetch_runs ::
  "'w logfetcher \<Rightarrow> (log \<Rightarrow> 'w \<Rightarrow> 'w) \<Rightarrow> (u64, blockref) gomap \<Rightarrow> int \<Rightarrow> u64 list \<Rightarrow> nat \<Rightarrow> 'w \<Rightarrow> 'w" where
  "fetch_runs f onLog byNumber batchSize nums i w =
     (if i < length nums then
        (let e = run_end nums batchSize i i
         in fetch_runs f onLog byNumber batchSize nums (e + 1)
              (fetchRange f onLog (nums ! i) (nums ! e) byNumber w))
      else w)"
  by pat_completeness auto
termination
proof (relation "measure (\<lambda>(f, onLog, byNumber, b, nums, i, w). length nums - i)", goal_cases)
  case (2 f onLog byNumber batchSize nums i w x)
  then show ?case using run_end_ge [of i nums batchSize i] by auto
qed simp

declare fetch_runs.simps [simp del]

definition index_blocks :: "blockref list \<Rightarrow> (u64, blockref) gomap" where
  "index_blocks blocks = fold (\<lambda>b. gm_put (bNumber b) b) blocks []"

definition OnCanonicalBatch :: "'w logfetcher \<Rightarrow> blockref list \<Rightarrow> 'w \<Rightarrow> 'w" where
  "OnCanonicalBatch f blocks w =
     (case lfOnLog f of
        None \<Rightarrow> w
      | Some onLog \<Rightarrow>
          (if blocks = [] then w
           else fetch_runs f onLog (index_blocks blocks)
                  (if lfBatchSize f \<le> 0 then defaultLogsBatchSize else lfBatchSize f)
                  (sort (map bNumber blocks)) 0 w))"

definition OnCanonical :: "'w logfetcher \<Rightarrow> blockref \<Rightarrow> 'w \<Rightarrow> 'w" where
  "OnCanonical f b w = OnCanonicalBatch f [b] w"

section \<open>Runs of consecutive numbers\<close>

lemma run_end_run:
  assumes "s \<le> e" "e < length nums" "\<forall>j. s \<le> j \<and> j \<le> e \<longrightarrow> unat (nums ! j) = unat (nums ! s) + (j - s)"
    and "sorted_wrt (<) nums"
  shows "\<forall>j. s \<le> j \<and> j \<le> run_end nums b s e \<longrightarrow> unat (nums ! j) = unat (nums ! s) + (j - s)"
  using assms
proof (induction nums b s e rule: run_end.induct)
  case (1 nums b s e)
  note run = 1(4)
  show ?case
  proof (cases "e + 1 < length nums \<and> nums ! (e + 1) = nums ! e + 1 \<and> int (e - s + 1) < b")
    case True
    have "nums ! e < nums ! (e + 1)" by (rule sorted_wrt_nth_less [OF 1(5)]) (use True in auto)
    then have "unat (nums ! e + 1) = Suc (unat (nums ! e))" by (rule unat_inc)
    moreover have "unat (nums ! e) = unat (nums ! s) + (e - s)" using 1(2,4) by blast
    ultimately have nxt: "unat (nums ! (e + 1)) = unat (nums ! s) + (e + 1 - s)" using True 1(2) by simp
    have upto: "\<forall>j. s \<le> j \<and> j \<le> e + 1 \<longrightarrow> unat (nums ! j) = unat (nums ! s) + (j - s)"
    proof (intro allI impI)
      fix j assume "s \<le> j \<and> j \<le> e + 1"
      then consider "s \<le> j \<and> j \<le> e" | "j = e + 1" by linarith
      then show "unat (nums ! j) = unat (nums ! s) + (j - s)" 
      proof cases
        case 1
        with run show ?thesis by blast
      next
        case 2
        with nxt show ?thesis by simp
      qed
    qed
    have "run_end nums b s e = run_end nums b s (e + 1)"
      using True by (subst run_end.simps) simp
    then show ?thesis
      by (simp only:) (rule 1(1) [OF True _ _ upto 1(5)], use 1(2) True in auto)
  next
    case False
    then have "run_end nums b s e = e" by (subst run_end.simps) (simp only: if_False)
    with run show ?thesis by (simp only:)
  qed
qed

text \<open>The numbers of a run are the interval between its ends.\<close>

lemma run_interval:
  assumes "i < length nums" "sorted_wrt (<) nums" "e = run_end nums b i i"
  shows "n \<in> set (take (e + 1 - i) (drop i nums)) \<longleftrightarrow> nums ! i \<le> n \<and> n \<le> nums ! e"
proof -
  have e: "i \<le> e" "e < length nums" using assms run_end_ge run_end_less by auto
  have run: "unat (nums ! j) = unat (nums ! i) + (j - i)" if "i \<le> j" "j \<le> e" for j
  proof -
    have "\<forall>j. i \<le> j \<and> j \<le> run_end nums b i i \<longrightarrow> unat (nums ! j) = unat (nums ! i) + (j - i)"
      by (rule run_end_run) (use assms(1,2) in auto)
    with that assms(3) show ?thesis by blast
  qed
  have mem: "n \<in> set (take (e + 1 - i) (drop i nums)) \<longleftrightarrow> (\<exists>j. i \<le> j \<and> j \<le> e \<and> n = nums ! j)"
  proof
    assume "n \<in> set (take (e + 1 - i) (drop i nums))"
    then obtain k where k: "k < e + 1 - i" "n = nums ! (i + k)"
      using e by (auto simp: in_set_conv_nth)
    then show "\<exists>j. i \<le> j \<and> j \<le> e \<and> n = nums ! j" by (intro exI [of _ "i + k"]) auto
  next
    assume "\<exists>j. i \<le> j \<and> j \<le> e \<and> n = nums ! j"
    then obtain j where "i \<le> j" "j \<le> e" "n = nums ! j" by auto
    then show "n \<in> set (take (e + 1 - i) (drop i nums))"
      using e by (auto simp: in_set_conv_nth intro!: exI [of _ "j - i"])
  qed
  show ?thesis
  proof
    assume "n \<in> set (take (e + 1 - i) (drop i nums))"
    with mem obtain j where "i \<le> j" "j \<le> e" "n = nums ! j" by auto
    then have "unat n = unat (nums ! i) + (j - i)" "unat (nums ! e) = unat (nums ! i) + (e - i)" "j - i \<le> e - i"
      using run [of j] run [of e] e(1) by (simp_all only: order_refl diff_le_mono)
    then show "nums ! i \<le> n \<and> n \<le> nums ! e" by (simp add: word_le_nat_alt)
  next
    assume n: "nums ! i \<le> n \<and> n \<le> nums ! e"
    let ?j = "i + (unat n - unat (nums ! i))"
    have "?j \<le> e" using n run [of e] e by (auto simp: word_le_nat_alt)
    moreover have "unat (nums ! ?j) = unat n" using run [of ?j, OF le_add1 \<open>?j \<le> e\<close>] n by (simp add: word_le_nat_alt)
    then have "n = nums ! ?j" by (simp add: word_unat_eq_iff)
    ultimately show "n \<in> set (take (e + 1 - i) (drop i nums))" using mem by (meson le_add1)
  qed
qed

text \<open>No run is longer than the batch size.\<close>

lemma run_end_batch: "s \<le> e \<Longrightarrow> int (e - s + 1) \<le> max 1 b \<Longrightarrow> int (run_end nums b s e - s + 1) \<le> max 1 b"
proof (induction nums b s e rule: run_end.induct)
  case (1 nums b s e)
  then show ?case by (subst run_end.simps) (auto simp: of_nat_diff max_def split: if_splits)
qed

section \<open>Batched fetching and its reference\<close>

lemma index_fold:
  assumes "distinct (map bNumber blocks)"
  shows "map_of (fold (\<lambda>b. gm_put (bNumber b) b) blocks []) = map_of (map (\<lambda>b. (bNumber b, b)) blocks)"
proof (rule ext)
  fix k
  have "map_of (fold (\<lambda>b. gm_put (bNumber b) b) blocks m) k =
      (case map_of (map (\<lambda>b. (bNumber b, b)) blocks) k of Some b \<Rightarrow> Some b | None \<Rightarrow> map_of m k)" for m
    using assms
  proof (induction blocks arbitrary: m)
    case (Cons b bs)
    then have "map_of (map (\<lambda>b. (bNumber b, b)) bs) (bNumber b) = None"
      by (auto simp: map_of_eq_None_iff)
    with Cons show ?case by (auto simp: gomap_simps split: option.splits)
  qed simp
  from this [of "[]"] show "map_of (fold (\<lambda>b. gm_put (bNumber b) b) blocks []) k = map_of (map (\<lambda>b. (bNumber b, b)) blocks) k"
    by (simp split: option.splits)
qed

definition log_key :: "gethlog \<Rightarrow> u64 \<times> u64" where
  "log_key lg = (glBlockNumber lg, glIndex lg)"

text \<open>Splitting a stable sort at a bound of the keys.\<close>

lemma sort_key_split:
  assumes "\<And>x y. P x \<Longrightarrow> R y \<Longrightarrow> key x < key y"
  shows "sort_key key (filter (\<lambda>x. P x \<or> R x) xs) = sort_key key (filter P xs) @ sort_key key (filter R xs)"
proof (rule properties_for_sort_key)
  have "\<not> (P x \<and> R x)" for x using assms [of x x] by auto
  then show "mset (sort_key key (filter P xs) @ sort_key key (filter R xs)) = mset (filter (\<lambda>x. P x \<or> R x) xs)"
    by (induction xs) auto
next
  fix k assume k: "k \<in> set (sort_key key (filter P xs) @ sort_key key (filter R xs))"
  have "filter (\<lambda>x. key k = key x) (filter (\<lambda>x. P x \<or> R x) xs) =
      filter (\<lambda>x. key k = key x) (filter P xs) @ filter (\<lambda>x. key k = key x) (filter R xs)"
  proof (cases "P k")
    case True
    then have nR: "\<not> R x" if "key k = key x" for x using assms [of k x] that by auto
    then have "filter (\<lambda>x. key k = key x) (filter R xs) = []" by (auto simp: filter_empty_conv)
    with nR show ?thesis by (auto intro: filter_cong)
  next
    case False
    then have "R k" using k by auto
    then have nP: "\<not> P x" if "key k = key x" for x using assms [of x k] that by auto
    then have "filter (\<lambda>x. key k = key x) (filter P xs) = []" by (auto simp: filter_empty_conv)
    with nP show ?thesis by (auto intro: filter_cong)
  qed
  then show "filter (\<lambda>x. key k = key x) (sort_key key (filter P xs) @ sort_key key (filter R xs)) =
      filter (\<lambda>x. key k = key x) (filter (\<lambda>x. P x \<or> R x) xs)"
    using sort_key_stable [of key "key k"] by (simp add: eq_commute [of "key k"])
next
  show "sorted (map key (sort_key key (filter P xs) @ sort_key key (filter R xs)))"
    using assms by (auto simp: sorted_append less_imp_le)
qed

text \<open>
  The reference: sort all logs of the batch's blocks at once, attach each to its block and hand
  them on.
\<close>

definition attach :: "string \<Rightarrow> (u64 \<rightharpoonup> blockref) \<Rightarrow> gethlog list \<Rightarrow> log list" where
  "attach chain blk lgs =
     concat (map (\<lambda>lg. case blk (glBlockNumber lg) of None \<Rightarrow> [] | Some b \<Rightarrow> [toPipelineLog chain b lg]) lgs)"

lemma attach_append: "attach chain blk (xs @ ys) = attach chain blk xs @ attach chain blk ys"
  by (simp add: attach_def)

lemma hand_on_attach: "hand_on chain onLog byNumber lgs w = fold onLog (attach chain (map_of byNumber) lgs) w"
  by (induction lgs arbitrary: w) (auto simp: attach_def split: option.splits)

text \<open>What \<open>eth_getLogs\<close> documents, on a chain whose logs do not change while the batch is fetched: the
  logs of the requested addresses (all, when none is given) in the requested range.\<close>

definition serves :: "'w logfetcher \<Rightarrow> gethlog list \<Rightarrow> bool" where
  "serves f lgs \<longleftrightarrow> (\<forall>from to w. lfFilterLogs f from to (lfAddresses f) w =
     (Inr (filter (\<lambda>lg. from \<le> glBlockNumber lg \<and> glBlockNumber lg \<le> to \<and>
        (lfAddresses f = [] \<or> glAddress lg \<in> set (lfAddresses f))) lgs), w))"

definition wanted :: "'w logfetcher \<Rightarrow> u64 set \<Rightarrow> gethlog \<Rightarrow> bool" where
  "wanted f ns lg \<longleftrightarrow> glBlockNumber lg \<in> ns \<and> (lfAddresses f = [] \<or> glAddress lg \<in> set (lfAddresses f))"

lemma fetchRange_serves:
  assumes "serves f lgs"
  shows "fetchRange f onLog from to byNumber w =
    fold onLog (attach (lfChain f) (map_of byNumber)
      (sort_key log_key (filter (wanted f {n. from \<le> n \<and> n \<le> to}) lgs))) w"
proof -
  have "wanted f {n. from \<le> n \<and> n \<le> to} = (\<lambda>lg. from \<le> glBlockNumber lg \<and> glBlockNumber lg \<le> to \<and>
      (lfAddresses f = [] \<or> glAddress lg \<in> set (lfAddresses f)))"
    by (auto simp: wanted_def fun_eq_iff)
  then show ?thesis
    using assms unfolding serves_def
    by (simp add: fetchRange_def hand_on_attach log_key_def [abs_def])
qed

lemma fetch_runs_serves:
  assumes "serves f lgs" "sorted_wrt (<) nums"
  shows "fetch_runs f onLog byNumber b nums i w =
    fold onLog (attach (lfChain f) (map_of byNumber)
      (sort_key log_key (filter (wanted f (set (drop i nums))) lgs))) w"
proof (induction "length nums - i" arbitrary: i w rule: less_induct)
  case less
  show ?case
  proof (cases "i < length nums")
    case False
    then show ?thesis by (subst fetch_runs.simps) (simp add: wanted_def attach_def)
  next
    case True
    define e where "e = run_end nums b i i"
    let ?seg = "take (e + 1 - i) (drop i nums)"
    have e: "i \<le> e" "e < length nums" using True run_end_ge run_end_less by (auto simp: e_def)
    then have split: "drop i nums = ?seg @ drop (e + 1) nums"
      using append_take_drop_id [of "e + 1 - i" "drop i nums"] by simp
    have seg: "set ?seg = {n. nums ! i \<le> n \<and> n \<le> nums ! e}"
      using run_interval [OF True assms(2) e_def] by blast
    have "sorted_wrt (<) (?seg @ drop (e + 1) nums)"
      using assms(2) sorted_wrt_drop [of "(<)" nums i] by (simp only: split [symmetric])
    then have lt: "n < m" if "n \<in> set ?seg" "m \<in> set (drop (e + 1) nums)" for n m
      using that by (auto simp: sorted_wrt_append)
    have either: "wanted f (set (drop i nums)) = (\<lambda>lg. wanted f (set ?seg) lg \<or> wanted f (set (drop (e + 1) nums)) lg)"
      by (subst split) (auto simp: wanted_def fun_eq_iff)
    have sorts: "sort_key log_key (filter (\<lambda>lg. wanted f (set ?seg) lg \<or> wanted f (set (drop (e + 1) nums)) lg) lgs) =
        sort_key log_key (filter (wanted f (set ?seg)) lgs) @ sort_key log_key (filter (wanted f (set (drop (e + 1) nums))) lgs)"
      by (rule sort_key_split) (use lt in \<open>auto simp: wanted_def log_key_def less_prod_def\<close>)
    have "length nums - (e + 1) < length nums - i" using e by simp
    note IH = less [OF this]
    have step: "fetch_runs f onLog byNumber b nums i w =
        fetch_runs f onLog byNumber b nums (e + 1) (fetchRange f onLog (nums ! i) (nums ! e) byNumber w)"
      using True by (subst fetch_runs.simps) (simp flip: e_def)
    show ?thesis
      by (simp only: step IH fetchRange_serves [OF assms(1)] either sorts [unfolded seg] attach_append fold_append
          comp_apply seg)
  qed
qed

lemma batch_serves:
  assumes "serves f lgs" "lfOnLog f = Some onLog" "distinct (map bNumber blocks)"
  shows "OnCanonicalBatch f blocks w = fold onLog (attach (lfChain f) (map_of (index_blocks blocks))
    (sort_key log_key (filter (wanted f (bNumber ` set blocks)) lgs))) w"
proof (cases "blocks = []")
  case True
  then show ?thesis by (simp add: OnCanonicalBatch_def assms(2) wanted_def attach_def)
next
  case False
  have "sorted_wrt (<) (sort (map bNumber blocks))"
    using assms(3) by (simp add: strict_sorted_iff)
  from fetch_runs_serves [OF assms(1) this] show ?thesis
    using False assms(2) by (simp add: OnCanonicalBatch_def)
qed

section \<open>Properties\<close>

text \<open>
  C24. Splitting a batch into runs is invisible: for every batch of blocks of distinct numbers and
  every batch size, the logs handed on are those of one sorted pass over all logs of the batch's
  blocks, each exactly once, attached to the block of its number and in order of block and index.
\<close>

theorem batch_as_one_pass:
  assumes "serves f lgs" "lfOnLog f = Some onLog" "distinct (map bNumber blocks)"
  shows "OnCanonicalBatch f blocks w =
    fold onLog (attach (lfChain f) (map_of (map (\<lambda>b. (bNumber b, b)) blocks))
      (sort_key log_key (filter (wanted f (bNumber ` set blocks)) lgs))) w"
  using batch_serves [OF assms] index_fold [OF assms(3)] by (simp add: index_blocks_def)

definition ex_geth :: "u64 \<Rightarrow> u64 \<Rightarrow> gethlog" where
  "ex_geth n i = \<lparr>glAddress = 5, glTopics = [], glData = [], glBlockNumber = n, glTxHash = 1, glTxIndex = 0,
     glBlockHash = 0, glIndex = i\<rparr>"

definition ex_fetcher :: "log list logfetcher" where
  "ex_fetcher = \<lparr>lfChain = ''op'', lfFilterLogs = (\<lambda>from to addrs w.
       (Inr (filter (\<lambda>lg. from \<le> glBlockNumber lg \<and> glBlockNumber lg \<le> to \<and>
          (addrs = [] \<or> glAddress lg \<in> set addrs)) [ex_geth 9 0, ex_geth 8 1, ex_geth 8 0]), w)),
     lfAddresses = [5], lfBatchSize = 1, lfOnLog = Some (\<lambda>l w. w @ [l])\<rparr>"

definition ex_b :: "u64 \<Rightarrow> blockref" where
  "ex_b n = \<lparr>bChain = ''op'', bNumber = n, bHash = 1, bParentHash = 0, bTime = 0\<rparr>"

theorem batch_as_one_pass_witness:
  "OnCanonicalBatch ex_fetcher [ex_b 9, ex_b 8] [] =
     [toPipelineLog ''op'' (ex_b 8) (ex_geth 8 0), toPipelineLog ''op'' (ex_b 8) (ex_geth 8 1),
      toPipelineLog ''op'' (ex_b 9) (ex_geth 9 0)]"
proof -
  have "serves ex_fetcher [ex_geth 9 0, ex_geth 8 1, ex_geth 8 0]"
    by (auto simp: serves_def ex_fetcher_def)
  from batch_as_one_pass [OF this, of "\<lambda>l w. w @ [l]" "[ex_b 9, ex_b 8]" "[]"]
  show ?thesis
    by (simp add: ex_fetcher_def ex_b_def wanted_def ex_geth_def attach_def log_key_def less_prod_def
        less_eq_prod_def)
qed

text \<open>
  Every query is bounded: a run that starts at index \<open>i\<close> ends inside the list, its numbers are
  exactly the interval that is asked for, and it has at most as many blocks as the batch size.
\<close>

theorem query_bounded:
  assumes "i < length nums" "sorted_wrt (<) nums" "0 < batchSize" "e = run_end nums batchSize i i"
  shows "i \<le> e \<and> e < length nums \<and> int (e - i + 1) \<le> batchSize \<and>
    set (take (e + 1 - i) (drop i nums)) = {n. nums ! i \<le> n \<and> n \<le> nums ! e}"
proof -
  have "int (e - i + 1) \<le> batchSize"
    using run_end_batch [of i i batchSize nums] assms(3,4) by (simp add: max_def split: if_splits)
  then show ?thesis
    using assms run_end_ge run_end_less run_interval [OF assms(1,2,4)] by auto
qed

theorem query_bounded_witness:
  "set (take (run_end [7, 8, 9, 12 :: u64] 1000 0 0 + 1 - 0) (drop 0 [7, 8, 9, 12 :: u64])) =
     {n. 7 \<le> n \<and> n \<le> [7, 8, 9, 12] ! run_end [7, 8, 9, 12 :: u64] 1000 0 0}"
  using query_bounded [of 0 "[7, 8, 9, 12 :: u64]" 1000 "run_end [7, 8, 9, 12 :: u64] 1000 0 0"] by simp

end
