(* ===== verification/Sha256.thy ===== *)
theory Sha256
  imports Opsentry_Prelude
begin

text \<open>
  SHA-256 (FIPS 180-4), the hash of \<open>crypto/sha256\<close> that alert fingerprints use, on 32-bit words.
\<close>

type_synonym w32 = "32 word"

text \<open>
  The constants are the first 32 bits of the fractional parts of roots of the first primes: cube
  roots for the rounds, square roots for the initial state. Integer roots are found by bisection.
\<close>

function root_between :: "nat \<Rightarrow> nat \<Rightarrow> nat \<Rightarrow> nat \<Rightarrow> nat" where
  "root_between k n lo hi =
     (if hi \<le> lo + 1 then lo
      else let mid = (lo + hi) div 2
           in if mid ^ k \<le> n then root_between k n mid hi else root_between k n lo mid)"
  by pat_completeness auto
termination
  by (relation "measure (\<lambda>(k, n, lo, hi). hi - lo)") auto

declare root_between.simps [simp del]

definition first_primes :: "nat list" where
  "first_primes =
    [2, 3, 5, 7, 11, 13, 17, 19, 23, 29, 31, 37, 41, 43, 47, 53,
     59, 61, 67, 71, 73, 79, 83, 89, 97, 101, 103, 107, 109, 113, 127, 131,
     137, 139, 149, 151, 157, 163, 167, 173, 179, 181, 191, 193, 197, 199, 211, 223,
     227, 229, 233, 239, 241, 251, 257, 263, 269, 271, 277, 281, 283, 293, 307, 311]"

definition sha_K :: "w32 list" where
  "sha_K = map (\<lambda>p. word_of_nat (root_between 3 (p * 2 ^ 96) 0 (p * 2 ^ 32))) first_primes"

definition sha_H0 :: "w32 list" where
  "sha_H0 = map (\<lambda>p. word_of_nat (root_between 2 (p * 2 ^ 64) 0 (p * 2 ^ 32))) (take 8 first_primes)"

unbundle bit_operations_syntax

definition sha_rotr :: "nat \<Rightarrow> w32 \<Rightarrow> w32" where
  "sha_rotr n x = drop_bit n x OR push_bit (32 - n) x"

definition sha_pad :: "bytes \<Rightarrow> bytes" where
  "sha_pad m = m @ [0x80] @ replicate ((119 - length m mod 64) mod 64) 0 @ be_bytes 8 (word_of_nat (8 * length m) :: u64)"

definition word_at :: "bytes \<Rightarrow> nat \<Rightarrow> w32" where
  "word_at bs i = fold (\<lambda>b acc. push_bit 8 acc OR ucast b) (take 4 (drop (4 * i) bs)) 0"

text \<open>The message schedule, kept as the sixteen most recent words, newest first.\<close>

fun sha_schedule :: "nat \<Rightarrow> w32 list \<Rightarrow> w32 list" where
  "sha_schedule 0 ws = ws"
| "sha_schedule (Suc n) ws =
     (let w15 = ws ! 14; w2 = ws ! 1;
          s0 = sha_rotr 7 w15 XOR sha_rotr 18 w15 XOR drop_bit 3 w15;
          s1 = sha_rotr 17 w2 XOR sha_rotr 19 w2 XOR drop_bit 10 w2
      in sha_schedule n ((ws ! 15 + s0 + ws ! 6 + s1) # ws))"

fun sha_round :: "w32 \<times> w32 \<Rightarrow> w32 list \<Rightarrow> w32 list" where
  "sha_round (k, w) [a, b, c, d, e, f, g, h] =
     (let S1 = sha_rotr 6 e XOR sha_rotr 11 e XOR sha_rotr 25 e;
          ch = (e AND f) XOR (NOT e AND g);
          t1 = h + S1 + ch + k + w;
          S0 = sha_rotr 2 a XOR sha_rotr 13 a XOR sha_rotr 22 a;
          maj = (a AND b) XOR (a AND c) XOR (b AND c)
      in [t1 + (S0 + maj), a, b, c, d + t1, e, f, g])"
| "sha_round _ hs = hs"

definition sha_block :: "w32 list \<Rightarrow> bytes \<Rightarrow> w32 list" where
  "sha_block hs block =
     (let ws = rev (sha_schedule 48 (rev (map (word_at block) [0..<16])))
      in map2 (+) hs (fold sha_round (zip sha_K ws) hs))"

function sha_blocks :: "w32 list \<Rightarrow> bytes \<Rightarrow> w32 list" where
  "sha_blocks hs m = (if length m < 64 then hs else sha_blocks (sha_block hs (take 64 m)) (drop 64 m))"
  by pat_completeness auto
termination
  by (relation "measure (\<lambda>(hs, m). length m)") auto

declare sha_blocks.simps [simp del]

definition sha256 :: "bytes \<Rightarrow> bytes" where
  "sha256 m = concat (map (be_bytes 4) (sha_blocks sha_H0 (sha_pad m)))"

end
