(* ===== verification/Alerts.thy ===== *)
theory Alerts
  imports Store_Contract Metrics Sha256
begin

text \<open>
  Alert fingerprints and the alert manager (\<open>internal/alerts/fingerprint.go\<close>, \<open>manager.go\<close>): a match
  fires once, when no alert of its fingerprint is recorded, and the record is what suppresses it
  from then on.
\<close>

section \<open>The model\<close>

text \<open>What is written to the hash, and the fingerprint.\<close>

definition fingerprint_preimage :: "rmatch \<Rightarrow> bytes" where
  "fingerprint_preimage m =
     (let l = eLog (mEvent m)
      in string_bytes (lChain l) @ [0] @ string_bytes (eMonitorID (mEvent m)) @ [0] @
         be_bytes 8 (mRuleIdx m) @ be_bytes 32 (bHash (lBlock l)) @ be_bytes 32 (lTxHash l) @
         be_bytes 8 (lLogIndex l))"

definition Fingerprint :: "rmatch \<Rightarrow> string" where
  "Fingerprint m = hex_encode (sha256 (fingerprint_preimage m))"

record 's manager =
  mgStore :: "'s store"
  mgNow :: "'s \<Rightarrow> gotime"
  mgObs :: "metric \<Rightarrow> 's \<Rightarrow> 's"

text \<open>The outcome is an error, or the alert when it fired.\<close>

definition Handle :: "'s manager \<Rightarrow> rmatch \<Rightarrow> 's \<Rightarrow> (err + alert option) \<times> 's" where
  "Handle mg m s =
     (let fp = Fingerprint m
      in (case IsDuplicate (mgStore mg) fp s of
            (Inl e, s1) \<Rightarrow> (Inl e, s1)
          | (Inr True, s1) \<Rightarrow> (Inr None, mgObs mg (Inc AlertsDeduped [eMonitorID (mEvent m)]) s1)
          | (Inr False, s1) \<Rightarrow>
              (let a = \<lparr>aMatch = m, aFingerprint = fp, aKind = AlertFiring, aAt = mgNow mg s1\<rparr>
               in (case RecordAlert (mgStore mg) a s1 of
                     (Some e, s2) \<Rightarrow> (Inl e, s2)
                   | (None, s2) \<Rightarrow> (Inr (Some a), s2)))))"

definition HandleReverted :: "'s manager \<Rightarrow> rmatch \<Rightarrow> 's \<Rightarrow> (err + alert option) \<times> 's" where
  "HandleReverted mg m s =
     (let a = \<lparr>aMatch = m, aFingerprint = Fingerprint m, aKind = AlertReverted, aAt = mgNow mg s\<rparr>
      in (case RecordAlert (mgStore mg) a s of
            (Some e, s1) \<Rightarrow> (Inl e, s1)
          | (None, s1) \<Rightarrow> (Inr (Some a), s1)))"

text \<open>Handling matches one after the other, as the log callback does.\<close>

fun handle_all :: "'s manager \<Rightarrow> rmatch list \<Rightarrow> 's \<Rightarrow> (err + alert option) list \<times> 's" where
  "handle_all mg [] s = ([], s)"
| "handle_all mg (m # ms) s =
     (case Handle mg m s of (out, s1) \<Rightarrow> (case handle_all mg ms s1 of (outs, s2) \<Rightarrow> (out # outs, s2)))"

fun fired :: "(err + alert option) list \<Rightarrow> alert list" where
  "fired [] = []"
| "fired (Inr (Some a) # outs) = a # fired outs"
| "fired (_ # outs) = fired outs"

section \<open>Fingerprints\<close>

lemma split_at_zero:
  fixes as :: bytes
  assumes "as @ 0 # bs = as' @ 0 # bs'" "0 \<notin> set as" "0 \<notin> set as'"
  shows "as = as' \<and> bs = bs'"
  using assms by (induction as arbitrary: as') (auto simp: Cons_eq_append_conv)

definition nul_free :: "string \<Rightarrow> bool" where
  "nul_free s \<longleftrightarrow> CHR 0x00 \<notin> set s"

lemma zero_string_bytes: "nul_free s \<Longrightarrow> 0 \<notin> set (string_bytes s)"
proof -
  have "of_char c = (0 :: byte) \<Longrightarrow> c = CHR 0x00" for c
    using string_bytes_inject [of "[c]" "[CHR 0x00]"] by (simp add: string_bytes_def)
  then show "nul_free s \<Longrightarrow> ?thesis" by (auto simp: nul_free_def string_bytes_def image_iff)
qed

text \<open>What identifies a match: the fields that the hash covers.\<close>

definition match_id :: "rmatch \<Rightarrow> string \<times> string \<times> u64 \<times> bytes32 \<times> bytes32 \<times> u64" where
  "match_id m = (lChain (eLog (mEvent m)), eMonitorID (mEvent m), mRuleIdx m,
     bHash (lBlock (eLog (mEvent m))), lTxHash (eLog (mEvent m)), lLogIndex (eLog (mEvent m)))"

definition id_nul_free :: "rmatch \<Rightarrow> bool" where
  "id_nul_free m \<longleftrightarrow> nul_free (lChain (eLog (mEvent m))) \<and> nul_free (eMonitorID (mEvent m))"

lemma preimage_inject:
  assumes "id_nul_free m" "id_nul_free m'"
  shows "fingerprint_preimage m = fingerprint_preimage m' \<longleftrightarrow> match_id m = match_id m'"
proof
  assume eq: "fingerprint_preimage m = fingerprint_preimage m'"
  let ?tail = "\<lambda>m. be_bytes 8 (mRuleIdx m) @ be_bytes 32 (bHash (lBlock (eLog (mEvent m)))) @
      be_bytes 32 (lTxHash (eLog (mEvent m))) @ be_bytes 8 (lLogIndex (eLog (mEvent m)))"
  have "string_bytes (lChain (eLog (mEvent m))) @ 0 # string_bytes (eMonitorID (mEvent m)) @ 0 # ?tail m =
      string_bytes (lChain (eLog (mEvent m'))) @ 0 # string_bytes (eMonitorID (mEvent m')) @ 0 # ?tail m'"
    using eq by (simp add: fingerprint_preimage_def Let_def)
  from split_at_zero [OF this] assms have
    chain: "lChain (eLog (mEvent m)) = lChain (eLog (mEvent m'))" and
    rest: "string_bytes (eMonitorID (mEvent m)) @ 0 # ?tail m = string_bytes (eMonitorID (mEvent m')) @ 0 # ?tail m'"
    by (auto simp: id_nul_free_def zero_string_bytes)
  from split_at_zero [OF rest] assms have
    "eMonitorID (mEvent m) = eMonitorID (mEvent m')" "?tail m = ?tail m'"
    by (auto simp: id_nul_free_def zero_string_bytes)
  with chain show "match_id m = match_id m'" by (simp add: match_id_def)
qed (auto simp: match_id_def fingerprint_preimage_def Let_def)

lemma Fingerprint_eq_iff:
  "Fingerprint m = Fingerprint m' \<longleftrightarrow> sha256 (fingerprint_preimage m) = sha256 (fingerprint_preimage m')"
  by (simp add: Fingerprint_def)

section \<open>The manager\<close>

context store_laws
begin

lemma handle_law:
  assumes "inv s" "mgStore mg = st" "Handle mg m s = (out, s')"
    and obs: "\<And>x s. inv s \<Longrightarrow> inv (mgObs mg x s) \<and> view (mgObs mg x s) = view s"
  shows "inv s' \<and> (case out of
      Inl e \<Rightarrow> view s' = view s
    | Inr None \<Rightarrow> view s' = view s \<and> vAlerts (view s) (Fingerprint m) \<noteq> None
    | Inr (Some a) \<Rightarrow> vAlerts (view s) (Fingerprint m) = None \<and> aFingerprint a = Fingerprint m \<and>
        aMatch a = m \<and> aKind a = AlertFiring \<and>
        view s' = (view s)\<lparr>vAlerts := (vAlerts (view s))(Fingerprint m \<mapsto> alert_view_of a)\<rparr>)"
proof -
  obtain dup s1 where d: "IsDuplicate st (Fingerprint m) s = (dup, s1)" by force
  note dl = is_duplicate [OF assms(1) d]
  show ?thesis
  proof (cases "dup = Inr False")
    case False
    with d dl assms(1-3) obs show ?thesis
      by (cases dup) (auto simp: Handle_def Let_def split: bool.splits)
  next
    case True
    define a where "a = \<lparr>aMatch = m, aFingerprint = Fingerprint m, aKind = AlertFiring, aAt = mgNow mg s1\<rparr>"
    obtain e s2 where r: "RecordAlert st a s1 = (e, s2)" by force
    have "inv s1" using dl by simp
    note rl = record_alert [OF this r]
    have "Handle mg m s = (case e of Some x \<Rightarrow> (Inl x, s2) | None \<Rightarrow> (Inr (Some a), s2))"
      using True d r assms(2) by (simp add: Handle_def Let_def a_def split: option.splits)
    with True rl dl assms(3) show ?thesis by (cases e) (auto simp: a_def)
  qed
qed

lemma handle_all_law:
  assumes "inv s" "mgStore mg = st" "handle_all mg ms s = (outs, s')"
    and obs: "\<And>x s. inv s \<Longrightarrow> inv (mgObs mg x s) \<and> view (mgObs mg x s) = view s"
  shows "inv s' \<and> distinct (map aFingerprint (fired outs)) \<and>
    (\<forall>a \<in> set (fired outs). vAlerts (view s) (aFingerprint a) = None \<and> vAlerts (view s') (aFingerprint a) \<noteq> None \<and>
       aMatch a \<in> set ms \<and> aFingerprint a = Fingerprint (aMatch a) \<and> aKind a = AlertFiring) \<and>
    (\<forall>fp v. vAlerts (view s) fp = Some v \<longrightarrow> vAlerts (view s') fp = Some v)"
  using assms(1,3)
proof (induction ms arbitrary: s outs)
  case (Cons m ms)
  obtain out s1 where h: "Handle mg m s = (out, s1)" by force
  obtain outs1 where r: "handle_all mg ms s1 = (outs1, s')" "outs = out # outs1"
    using Cons.prems(2) h by (auto split: prod.splits)
  note hl = handle_law [OF Cons.prems(1) assms(2) h obs]
  have "inv s1" using hl by simp
  note IH = Cons.IH [OF this r(1)]
  show ?case
  proof (cases out)
    case (Inl e)
    with hl IH r(2) show ?thesis by auto
  next
    case (Inr oa)
    show ?thesis
    proof (cases oa)
      case None
      with Inr hl IH r(2) show ?thesis by auto
    next
      case (Some a)
      with Inr hl have v1: "vAlerts (view s) (aFingerprint a) = None"
          "vAlerts (view s1) = (vAlerts (view s))(aFingerprint a \<mapsto> alert_view_of a)"
          "aFingerprint a = Fingerprint m" "aMatch a = m" "aKind a = AlertFiring" by auto
      have "aFingerprint b \<noteq> aFingerprint a \<and> vAlerts (view s) (aFingerprint b) = None" if "b \<in> set (fired outs1)" for b
        using IH that v1(2) by (auto split: if_splits)
      moreover have "vAlerts (view s') (aFingerprint a) \<noteq> None" using IH v1(2) by auto
      moreover have "vAlerts (view s') fp = Some v" if "vAlerts (view s) fp = Some v" for fp v
        using IH that v1 by (metis fun_upd_other option.distinct(1))
      ultimately show ?thesis using IH v1 r(2) Inr Some by auto
    qed
  qed
qed simp

end

text \<open>A manager on one of the back ends, as part of a larger world: what it does to the metrics does not touch the
  database.\<close>

definition db_manager :: "('x \<times> db) manager \<Rightarrow> bool" where
  "db_manager mg \<longleftrightarrow> (mgStore mg = lift_store SQLiteStore \<or> mgStore mg = lift_store PostgresStore) \<and>
     (\<forall>x w. snd (mgObs mg x w) = snd w)"

lemma db_manager_obs: "db_manager mg \<Longrightarrow> snd (mgObs mg x w) = snd w"
  unfolding db_manager_def by blast

lemma db_manager_laws:
  assumes "db_manager mg"
  shows "store_laws (mgStore mg) (\<lambda>w. db_view (snd w)) (\<lambda>w. db_ok (snd w))"
    "db_ok (snd s) \<Longrightarrow> db_ok (snd (mgObs mg x s)) \<and> db_view (snd (mgObs mg x s)) = db_view (snd s)"
  using assms lifted_lite.store_laws_axioms lifted_pg.store_laws_axioms
  by (auto simp: db_manager_obs [OF assms]) (auto simp: db_manager_def)

lemmas db_handle_law = store_laws.handle_law [OF db_manager_laws(1) _ refl _ db_manager_laws(2)]
  and db_handle_all_law = store_laws.handle_all_law [OF db_manager_laws(1) _ refl _ db_manager_laws(2)]

text \<open>A database whose driver does not fail.\<close>

lemma handle_no_fault:
  assumes "db_manager mg" "faults (snd w) = []"
  shows "\<exists>oa w'. Handle mg m w = (Inr oa, w') \<and> faults (snd w') = []"
proof -
  have st: "mgStore mg = lift_store SQLiteStore \<or> mgStore mg = lift_store PostgresStore" using assms(1) by (simp add: db_manager_def)
  obtain dup where d: "IsDuplicate (mgStore mg) (Fingerprint m) w = (Inr dup, w)"
    using st assms(2) by (auto simp: lift_store_def on_snd_def SQLiteStore_def PostgresStore_def sqlite_IsDuplicate_def
      pg_IsDuplicate_def db_query_def next_fault_def)
  have r: "\<exists>w'. RecordAlert (mgStore mg) a w = (None, w') \<and> faults (snd w') = []" for a
    using st assms(2) by (auto simp: lift_store_def on_snd_def SQLiteStore_def PostgresStore_def sqlite_RecordAlert_def
      pg_RecordAlert_def db_exec_def next_fault_def insert_alert_def Let_def)
  show ?thesis
  proof (cases dup)
    case True
    then show ?thesis using d assms(2) db_manager_obs [OF assms(1)] by (simp add: Handle_def)
  next
    case False
    define a where "a = \<lparr>aMatch = m, aFingerprint = Fingerprint m, aKind = AlertFiring, aAt = mgNow mg w\<rparr>"
    obtain w' where "RecordAlert (mgStore mg) a w = (None, w')" "faults (snd w') = []" using r by blast
    then show ?thesis using d False by (simp add: Handle_def a_def)
  qed
qed

text \<open>The matches that should fire: the first of each fingerprint that is not recorded yet.\<close>

fun first_new :: "string set \<Rightarrow> rmatch list \<Rightarrow> rmatch list" where
  "first_new seen [] = []"
| "first_new seen (m # ms) =
     (if Fingerprint m \<in> seen then first_new seen ms else m # first_new (insert (Fingerprint m) seen) ms)"

section \<open>Properties\<close>

text \<open>
  The metric of suppressed alerts is exact: handling matches counts, for its monitor, each match that
  was answered as a duplicate, and nothing else.
\<close>

theorem dedup_counted:
  fixes w :: "metric list \<times> db"
  assumes "mgStore mg = lift_store st" "mgObs mg = (\<lambda>x w. (fst w @ [x], snd w))" "handle_all mg ms w = (outs, w')"
  shows "fst w' = fst w @ map (\<lambda>(m, out). Inc AlertsDeduped [eMonitorID (mEvent m)]) (filter (\<lambda>(m, out). out = Inr None) (zip ms outs))"
  using assms(3)
proof (induction ms arbitrary: w outs)
  case (Cons m ms)
  obtain out w1 where h: "Handle mg m w = (out, w1)" by (rule prod.exhaust)
  obtain outs1 where r: "handle_all mg ms w1 = (outs1, w')" "outs = out # outs1"
    using Cons.prems h by (auto split: prod.splits)
  obtain dup w2 where d: "IsDuplicate (lift_store st) (Fingerprint m) w = (dup, w2)" by (rule prod.exhaust)
  have d': "fst w2 = fst w" using lift_store_fst(2) [of st "Fingerprint m" w] d by simp
  have a: "fst w3 = fst w2" if "RecordAlert (lift_store st) a w2 = (e, w3)" for a e w3
    using lift_store_fst(3) [of st a w2] that by simp
  have "fst w1 = fst w @ (if out = Inr None then [Inc AlertsDeduped [eMonitorID (mEvent m)]] else [])"
    using h d d' a by (auto simp: Handle_def assms(1,2) Let_def split: sum.splits bool.splits prod.splits option.splits)
  then show ?case using Cons.IH [OF r(1)] r(2) by simp
qed simp

text \<open>
  C25. A fingerprint identifies what it should: two matches have the same fingerprint exactly when
  they agree in chain, monitor, rule index, block hash, transaction hash and log index, provided
  SHA-256 has no collision between the two and neither the chain nor the monitor name contains a
  NUL character. In particular a match in another block of the same number is another alert.
\<close>

theorem fingerprint_identifies:
  assumes "id_nul_free m" "id_nul_free m'"
    and "sha256 (fingerprint_preimage m) = sha256 (fingerprint_preimage m') \<Longrightarrow>
      fingerprint_preimage m = fingerprint_preimage m'"
  shows "Fingerprint m = Fingerprint m' \<longleftrightarrow> match_id m = match_id m'"
  using assms preimage_inject [OF assms(1,2)] by (metis Fingerprint_eq_iff)

definition ex_match :: "u64 \<Rightarrow> string \<Rightarrow> rmatch" where
  "ex_match i sev = \<lparr>mEvent = \<lparr>eLog = \<lparr>lChain = ''op'', lBlock = \<lparr>bChain = ''op'', bNumber = 7, bHash = 0xb7,
       bParentHash = 0xb6, bTime = 0\<rparr>, lTxHash = 1, lTxIndex = 0, lLogIndex = i, lAddress = 5, lTopics = [],
       lData = []\<rparr>, eMonitorID = ''m'', eName = ''Transfer'', eParams = [], eState = None, ePrevState = None,
       eConfirmation = ''fast''\<rparr>, mRuleIdx = 0, mSeverity = sev, mReceivers = [''ops'']\<rparr>"

theorem fingerprint_identifies_witness:
  "Fingerprint (ex_match 2 ''high'') = Fingerprint (ex_match 2 ''low'')"
proof -
  have "fingerprint_preimage (ex_match 2 ''high'') = fingerprint_preimage (ex_match 2 ''low'')"
    by (simp add: fingerprint_preimage_def ex_match_def)
  then show ?thesis
    using fingerprint_identifies [of "ex_match 2 ''high''" "ex_match 2 ''low''"]
    by (simp add: id_nul_free_def nul_free_def ex_match_def match_id_def)
qed

text \<open>
  C26. At most once, on both back ends and whatever the driver's failures: over any sequence of
  matches no two alerts that fire share a fingerprint, an alert fires only when its fingerprint was
  not recorded before, its fingerprint is recorded afterwards, and no record is ever lost.
\<close>

theorem alert_fires_at_most_once:
  assumes "db_manager mg" "db_ok (snd w)" "handle_all mg ms w = (outs, w')"
  shows "distinct (map aFingerprint (fired outs)) \<and>
    (\<forall>a \<in> set (fired outs). vAlerts (db_view (snd w)) (aFingerprint a) = None \<and>
       vAlerts (db_view (snd w')) (aFingerprint a) \<noteq> None \<and>
       aMatch a \<in> set ms \<and> aFingerprint a = Fingerprint (aMatch a) \<and> aKind a = AlertFiring) \<and>
    (\<forall>fp v. vAlerts (db_view (snd w)) fp = Some v \<longrightarrow> vAlerts (db_view (snd w')) fp = Some v)"
  using db_handle_all_law [OF assms(1,2,3,1)] by blast

text \<open>A world of a list of the calls on the metrics, and the database.\<close>

definition ex_manager :: "(metric list \<times> db) manager" where
  "ex_manager = \<lparr>mgStore = lift_store SQLiteStore, mgNow = (\<lambda>w. 0), mgObs = (\<lambda>x w. (fst w @ [x], snd w))\<rparr>"

lemma ex_manager_ok: "db_manager ex_manager"
  by (simp add: db_manager_def ex_manager_def)

theorem alert_fires_at_most_once_witness:
  "\<exists>outs w. handle_all ex_manager [ex_match 2 ''high'', ex_match 2 ''low'', ex_match 3 ''low''] ([], migrated [None, Some ''locked'']) =
     (outs, w) \<and> distinct (map aFingerprint (fired outs))"
proof -
  let ?w = "([] :: metric list, migrated [None, Some ''locked''])"
  obtain outs w where h: "handle_all ex_manager [ex_match 2 ''high'', ex_match 2 ''low'', ex_match 3 ''low''] ?w = (outs, w)"
    by (rule prod.exhaust)
  with alert_fires_at_most_once [OF ex_manager_ok _ h] show ?thesis by simp
qed

text \<open>
  C27. Exactly once when the driver does not fail: the matches that fire are the first of each
  fingerprint that was not recorded before, in order, and no match is answered with an error.
\<close>

theorem alert_fires_exactly_once:
  assumes "db_manager mg" "db_ok (snd w)" "faults (snd w) = []" "handle_all mg ms w = (outs, w')"
  shows "map aMatch (fired outs) = first_new {fp. vAlerts (db_view (snd w)) fp \<noteq> None} ms \<and> (\<forall>out \<in> set outs. \<not> isl out)"
  using assms(2-4)
proof (induction ms arbitrary: w outs)
  case (Cons m ms)
  obtain oa w1 where h: "Handle mg m w = (Inr oa, w1)" "faults (snd w1) = []"
    using handle_no_fault [OF assms(1) Cons.prems(2)] by blast
  define d d1 where "d = snd w" and "d1 = snd w1"
  obtain outs1 where r: "handle_all mg ms w1 = (outs1, w')" "outs = Inr oa # outs1"
    using Cons.prems(3) h(1) by (auto split: prod.splits)
  have hl: "db_ok d1 \<and> (case oa of None \<Rightarrow> db_view d1 = db_view d \<and> vAlerts (db_view d) (Fingerprint m) \<noteq> None
      | Some a \<Rightarrow> vAlerts (db_view d) (Fingerprint m) = None \<and> aMatch a = m \<and>
          db_view d1 = (db_view d)\<lparr>vAlerts := (vAlerts (db_view d))(Fingerprint m \<mapsto> alert_view_of a)\<rparr>)"
    using db_handle_law [OF assms(1) Cons.prems(1) h(1) assms(1)] by (auto simp: d_def d1_def split: option.splits)
  have IH: "map aMatch (fired outs1) = first_new {fp. vAlerts (db_view d1) fp \<noteq> None} ms \<and> (\<forall>out \<in> set outs1. \<not> isl out)"
    using Cons.IH [OF _ h(2) r(1)] hl by (simp add: d1_def)
  show ?case
  proof (cases oa)
    case None
    with hl IH r(2) show ?thesis by (auto simp: d_def)
  next
    case (Some a)
    with hl have "{fp. vAlerts (db_view d1) fp \<noteq> None} = insert (Fingerprint m) {fp. vAlerts (db_view d) fp \<noteq> None}"
      by auto
    with Some hl IH r(2) show ?thesis by (auto simp: d_def)
  qed
qed simp

theorem alert_fires_exactly_once_witness:
  "\<exists>outs d. handle_all ex_manager [ex_match 2 ''high'', ex_match 2 ''low''] ([], migrated []) = (outs, d) \<and>
     map aMatch (fired outs) = [ex_match 2 ''high'']"
proof -
  obtain outs d where h: "handle_all ex_manager [ex_match 2 ''high'', ex_match 2 ''low''] ([], migrated []) = (outs, d)"
    by (rule prod.exhaust)
  have "fingerprint_preimage (ex_match 2 ''high'') = fingerprint_preimage (ex_match 2 ''low'')"
    by (simp add: fingerprint_preimage_def ex_match_def)
  then have fp: "Fingerprint (ex_match 2 ''high'') = Fingerprint (ex_match 2 ''low'')" by (simp add: Fingerprint_def)
  have "vAlerts (db_view (migrated [])) fp = None" for fp by (simp add: db_view_def migrated_def)
  moreover have "faults (migrated []) = []" by (simp add: migrated_def)
  ultimately have "map aMatch (fired outs) = [ex_match 2 ''high'']"
    using alert_fires_exactly_once [OF ex_manager_ok _ _ h] fp by simp
  with h show ?thesis by (intro exI conjI)
qed

theorem dedup_counted_witness:
  "\<exists>outs w. handle_all ex_manager [ex_match 2 ''high'', ex_match 2 ''low''] ([], migrated []) = (outs, w) \<and>
     length (fst w) = length (filter (\<lambda>out. out = Inr None) outs)"
proof -
  obtain outs w where h: "handle_all ex_manager [ex_match 2 ''high'', ex_match 2 ''low''] ([], migrated []) = (outs, w)"
    by (rule prod.exhaust)
  then obtain o1 o2 where "outs = [o1, o2]" by (auto split: prod.splits)
  with dedup_counted [OF _ _ h] h show ?thesis by (auto simp: ex_manager_def)
qed

text \<open>
  Recording a revert of an alert that fired has no effect on the store: the revert has the
  fingerprint of the firing alert, the insert does nothing on a conflict, and the call still
  reports that the revert was recorded.
\<close>

theorem revert_not_recorded:
  assumes "db_manager mg" "db_ok (snd w)"
    and "Handle mg m w = (Inr (Some a), w1)" "HandleReverted mg m w1 = (Inr r, w2)"
  shows "db_view (snd w2) = db_view (snd w1) \<and> (\<exists>b. r = Some b \<and> aKind b = AlertReverted)"
proof -
  note h = db_handle_law [OF assms(1,2,3,1)]
  define b where "b = \<lparr>aMatch = m, aFingerprint = Fingerprint m, aKind = AlertReverted, aAt = mgNow mg w1\<rparr>"
  have r: "RecordAlert (mgStore mg) b w1 = (None, w2)" "r = Some b"
    using assms(4) by (auto simp: HandleReverted_def b_def Let_def split: prod.splits option.splits)
  have "db_ok (snd w1)" using h by simp
  from store_laws.record_alert [OF db_manager_laws(1) [OF assms(1)] this r(1)] h r(2) show ?thesis by (auto simp: b_def)
qed

theorem revert_not_recorded_witness:
  "\<exists>a w1 r w2. Handle ex_manager (ex_match 2 ''high'') ([], migrated []) = (Inr (Some a), w1) \<and>
     HandleReverted ex_manager (ex_match 2 ''high'') w1 = (Inr r, w2) \<and> db_view (snd w2) = db_view (snd w1)"
proof -
  let ?w = "([] :: metric list, migrated [])"
  obtain oa w1 where h: "Handle ex_manager (ex_match 2 ''high'') ?w = (Inr oa, w1)" "faults (snd w1) = []"
    using handle_no_fault [OF ex_manager_ok, of ?w "ex_match 2 ''high''"] by (auto simp: migrated_def)
  have "vAlerts (db_view (migrated [])) fp = None" for fp by (simp add: db_view_def migrated_def)
  with db_handle_law [OF ex_manager_ok _ h(1) ex_manager_ok] obtain a where a: "oa = Some a" by (cases oa) auto
  obtain r w2 where r: "HandleReverted ex_manager (ex_match 2 ''high'') w1 = (Inr r, w2)"
    using h(2) by (auto simp: HandleReverted_def ex_manager_def lift_store_def on_snd_def SQLiteStore_def sqlite_RecordAlert_def
        db_exec_def next_fault_def Let_def)
  have "db_ok (snd ?w)" by simp
  from revert_not_recorded [OF ex_manager_ok this h(1) [unfolded a] r] h(1) a r show ?thesis by blast
qed

end
