(* ===== verification/Rpc.thy ===== *)
theory Rpc
  imports Reorg Metrics
begin

text \<open>
  The node client (\<open>internal/rpc/pool.go\<close>, \<open>client.go\<close>): a pool of endpoints in order of weight, a
  cooldown for an endpoint that failed, and failover over the available ones. go-ethereum's client
  is a parameter: a call on an endpoint acts on the world \<open>'w\<close>, which also holds the clock, and
  returns a value or an error; what else the client uses of the world is the record \<open>host\<close>.
\<close>

section \<open>The model\<close>

record endpoint =
  epURL :: string
  epWeight :: int
  epFailedUntil :: gotime

record pool =
  plEndpoints :: "endpoint list"
  plCooldown :: duration

definition defaultCooldown :: duration where
  "defaultCooldown = 30 * second"

definition newPool :: "endpoint list \<Rightarrow> pool" where
  "newPool eps = \<lparr>plEndpoints = sort_key (\<lambda>e. - epWeight e) eps, plCooldown = defaultCooldown\<rparr>"

text \<open>Endpoints are pointers in the source; here they are indices into the pool.\<close>

definition ready :: "gotime \<Rightarrow> pool \<Rightarrow> nat \<Rightarrow> bool" where
  "ready now p i \<longleftrightarrow> \<not> now < epFailedUntil (plEndpoints p ! i)"

definition available :: "gotime \<Rightarrow> pool \<Rightarrow> nat list \<times> pool" where
  "available now p =
     (let out = filter (ready now p) [0..<length (plEndpoints p)]
      in if out = []
         then ([0..<length (plEndpoints p)],
               p\<lparr>plEndpoints := map (\<lambda>e. e\<lparr>epFailedUntil := 0\<rparr>) (plEndpoints p)\<rparr>)
         else (out, p))"

definition markFailed :: "gotime \<Rightarrow> nat \<Rightarrow> pool \<Rightarrow> pool" where
  "markFailed now i p =
     p\<lparr>plEndpoints := (plEndpoints p)[i := (plEndpoints p ! i)\<lparr>epFailedUntil := now + plCooldown p\<rparr>]\<rparr>"

text \<open>The error of a call, with the context's own errors apart, and the errors of the client.\<close>

datatype call_err = CtxErr err | CallErr err

datatype rpc_err = CtxEnded err | NoEndpoints string | AllFailed string string err

type_synonym ('a, 'w) node_call = "string \<Rightarrow> 'w \<Rightarrow> (call_err + 'a) \<times> 'w"

definition count_failure :: "'w host \<Rightarrow> string \<Rightarrow> string \<Rightarrow> 'w \<Rightarrow> 'w" where
  "count_failure ho chain url w = hoObs ho (Inc RPCErrors [chain, url]) w"

fun try_endpoints ::
  "'w host \<Rightarrow> string \<Rightarrow> string \<Rightarrow> ('a, 'w) node_call \<Rightarrow> nat list \<Rightarrow> err option \<Rightarrow> pool \<Rightarrow> 'w
     \<Rightarrow> (rpc_err + 'a) \<times> pool \<times> 'w" where
  "try_endpoints ho chain what fn [] lastErr p w =
     (case lastErr of
        None \<Rightarrow> (Inl (NoEndpoints chain), p, w)
      | Some e \<Rightarrow> (Inl (AllFailed chain what e), p, w))"
| "try_endpoints ho chain what fn (i # is) lastErr p w =
     (case fn (epURL (plEndpoints p ! i)) w of
        (Inr v, w') \<Rightarrow> (Inr v, p, w')
      | (Inl (CtxErr e), w') \<Rightarrow> (Inl (CtxEnded e), p, w')
      | (Inl (CallErr e), w') \<Rightarrow>
          (let w'' = count_failure ho chain (epURL (plEndpoints p ! i)) w'
           in try_endpoints ho chain what fn is (Some e) (markFailed (hoNow ho w'') i p) w''))"

record client =
  cChain :: string
  cPool :: pool

definition tryFailover ::
  "'w host \<Rightarrow> client \<Rightarrow> ('a, 'w) node_call \<Rightarrow> string \<Rightarrow> 'w \<Rightarrow> (rpc_err + 'a) \<times> client \<times> 'w" where
  "tryFailover ho c fn what w =
     (case available (hoNow ho w) (cPool c) of
        (is, p) \<Rightarrow>
          (case try_endpoints ho (cChain c) what fn is None p w of
             (out, p', w') \<Rightarrow> (out, c\<lparr>cPool := p'\<rparr>, w')))"

text \<open>Dialling: the endpoints that cannot be reached are left out.\<close>

record endpoint_spec =
  esURL :: string
  esWeight :: int

fun dial_all ::
  "(string \<Rightarrow> 'w \<Rightarrow> err option \<times> 'w) \<Rightarrow> endpoint_spec list \<Rightarrow> endpoint list \<Rightarrow> err option \<Rightarrow> 'w
     \<Rightarrow> endpoint list \<times> err option \<times> 'w" where
  "dial_all dial [] pooled lastErr w = (pooled, lastErr, w)"
| "dial_all dial (ep # eps) pooled lastErr w =
     (case dial (esURL ep) w of
        (Some e, w') \<Rightarrow> dial_all dial eps pooled (Some e) w'
      | (None, w') \<Rightarrow>
          dial_all dial eps (pooled @ [\<lparr>epURL = esURL ep, epWeight = esWeight ep, epFailedUntil = 0\<rparr>]) lastErr w')"

datatype dial_err = NoEndpointsProvided string | NoneReachable string "err option"

definition Dial ::
  "(string \<Rightarrow> 'w \<Rightarrow> err option \<times> 'w) \<Rightarrow> string \<Rightarrow> endpoint_spec list \<Rightarrow> 'w \<Rightarrow> (dial_err + client) \<times> 'w" where
  "Dial dial chain endpoints w =
     (if endpoints = [] then (Inl (NoEndpointsProvided chain), w)
      else
        (case dial_all dial endpoints [] None w of
           (pooled, lastErr, w') \<Rightarrow>
             (if pooled = [] then (Inl (NoneReachable chain lastErr), w')
              else (Inr \<lparr>cChain = chain, cPool = newPool pooled\<rparr>, w'))))"

definition DialSingle ::
  "(string \<Rightarrow> 'w \<Rightarrow> err option \<times> 'w) \<Rightarrow> string \<Rightarrow> string \<Rightarrow> 'w \<Rightarrow> (dial_err + client) \<times> 'w" where
  "DialSingle dial chain url w = Dial dial chain [\<lparr>esURL = url, esWeight = 100\<rparr>] w"

text \<open>The fields of a block header that the client reads; the number is a big integer of which
  \<open>Uint64\<close> takes the low 64 bits.\<close>

record header =
  hHash :: bytes32
  hParentHash :: bytes32
  hNumber :: int
  hTime :: u64

definition toRef :: "string \<Rightarrow> header \<Rightarrow> blockref" where
  "toRef chain h =
     \<lparr>bChain = chain, bNumber = word_of_int (hNumber h), bHash = hHash h, bParentHash = hParentHash h,
      bTime = time_Unix (sint (hTime h))\<rparr>"

definition map_call :: "('a \<Rightarrow> 'b) \<Rightarrow> ('a, 'w) node_call \<Rightarrow> ('b, 'w) node_call" where
  "map_call f fn url w = (case fn url w of (Inl e, w') \<Rightarrow> (Inl e, w') | (Inr v, w') \<Rightarrow> (Inr (f v), w'))"

definition BlockByNumber ::
  "'w host \<Rightarrow> (u64 \<Rightarrow> (header, 'w) node_call) \<Rightarrow> client \<Rightarrow> u64 \<Rightarrow> 'w \<Rightarrow> (rpc_err + blockref) \<times> client \<times> 'w" where
  "BlockByNumber ho headerByNumber c n w =
     tryFailover ho c (map_call (toRef (cChain c)) (headerByNumber n)) (''header '' @ dec_nat (unat n)) w"

text \<open>A head that is null is an error of the endpoint.\<close>

definition head_call :: "string \<Rightarrow> (string \<Rightarrow> (header option, 'w) node_call) \<Rightarrow> string \<Rightarrow> (blockref, 'w) node_call" where
  "head_call chain headByTag tag url w =
     (case headByTag tag url w of
        (Inl e, w') \<Rightarrow> (Inl e, w')
      | (Inr None, w') \<Rightarrow> (Inl (CallErr (''null header for tag '' @ tag)), w')
      | (Inr (Some h), w') \<Rightarrow> (Inr (toRef chain h), w'))"

definition HeadByTag ::
  "'w host \<Rightarrow> (string \<Rightarrow> (header option, 'w) node_call) \<Rightarrow> client \<Rightarrow> string \<Rightarrow> 'w
     \<Rightarrow> (rpc_err + blockref) \<times> client \<times> 'w" where
  "HeadByTag ho headByTag c tag w = tryFailover ho c (head_call (cChain c) headByTag tag) (''head('' @ tag @ '')'') w"

text \<open>\<open>FilterLogs\<close>, \<open>StorageAt\<close> and \<open>CallContract\<close> are failover over the call of that name.\<close>

definition FilterLogs ::
  "'w host \<Rightarrow> ('q \<Rightarrow> ('l list, 'w) node_call) \<Rightarrow> client \<Rightarrow> 'q \<Rightarrow> 'w \<Rightarrow> (rpc_err + 'l list) \<times> client \<times> 'w" where
  "FilterLogs ho filterLogs c q w = tryFailover ho c (filterLogs q) ''filter logs'' w"

definition StorageAt ::
  "'w host \<Rightarrow> (bytes20 \<Rightarrow> bytes32 \<Rightarrow> (bytes, 'w) node_call) \<Rightarrow> client \<Rightarrow> bytes20 \<Rightarrow> bytes32 \<Rightarrow> 'w
     \<Rightarrow> (rpc_err + bytes) \<times> client \<times> 'w" where
  "StorageAt ho storageAt c address slot w = tryFailover ho c (storageAt address slot) ''storage at'' w"

definition CallContract ::
  "'w host \<Rightarrow> ('m \<Rightarrow> u64 option \<Rightarrow> (bytes, 'w) node_call) \<Rightarrow> client \<Rightarrow> 'm \<Rightarrow> u64 option \<Rightarrow> 'w
     \<Rightarrow> (rpc_err + bytes) \<times> client \<times> 'w" where
  "CallContract ho callContract c msg block w = tryFailover ho c (callContract msg block) ''call contract'' w"

section \<open>The pool\<close>

lemma markFailed_nth:
  "plEndpoints (markFailed now i p) ! j =
     (if i = j \<and> i < length (plEndpoints p) then (plEndpoints p ! j)\<lparr>epFailedUntil := now + plCooldown p\<rparr>
      else plEndpoints p ! j)"
  by (cases "i < length (plEndpoints p)") (simp_all add: markFailed_def nth_list_update list_update_beyond)

lemma markFailed_simps [simp]:
  "length (plEndpoints (markFailed now i p)) = length (plEndpoints p)"
  "plCooldown (markFailed now i p) = plCooldown p"
  by (simp_all add: markFailed_def)

lemma available_nonempty: "plEndpoints p \<noteq> [] \<Longrightarrow> fst (available now p) \<noteq> []"
  by (simp add: available_def Let_def)

lemma set_available: "set (fst (available now p)) \<subseteq> {..<length (plEndpoints p)}"
  by (auto simp: available_def Let_def)

lemma available_frame [simp]:
  "length (plEndpoints (snd (available now p))) = length (plEndpoints p)"
  "i < length (plEndpoints p) \<Longrightarrow> epURL (plEndpoints (snd (available now p)) ! i) = epURL (plEndpoints p ! i)"
  "plCooldown (snd (available now p)) = plCooldown p"
  by (simp_all add: available_def Let_def)

text \<open>The time of a failure is read once it is counted.\<close>

definition failed_at :: "'w host \<Rightarrow> string \<Rightarrow> string \<Rightarrow> 'w \<Rightarrow> gotime" where
  "failed_at ho chain url w = hoNow ho (count_failure ho chain url w)"

text \<open>
  The outcome of the loop over the available endpoints: the ones before the last one tried failed
  and are cooling down; the others are untouched.
\<close>

lemma try_endpoints_spec:
  assumes "distinct is" "set is \<subseteq> {..<length (plEndpoints p)}"
    and "try_endpoints ho chain what fn is lastErr p w = (out, p', w')"
  shows "\<exists>failed rest. is = failed @ rest \<and>
    (\<forall>i \<in> set failed. \<exists>v e v'. fn (epURL (plEndpoints p ! i)) v = (Inl (CallErr e), v') \<and>
       plEndpoints p' ! i = (plEndpoints p ! i)\<lparr>epFailedUntil := failed_at ho chain (epURL (plEndpoints p ! i)) v' + plCooldown p\<rparr>) \<and>
    (\<forall>i. i \<notin> set failed \<longrightarrow> plEndpoints p' ! i = plEndpoints p ! i) \<and>
    length (plEndpoints p') = length (plEndpoints p) \<and> plCooldown p' = plCooldown p \<and>
    (case out of
       Inr x \<Rightarrow> rest \<noteq> [] \<and> (\<exists>v. fn (epURL (plEndpoints p ! hd rest)) v = (Inr x, w'))
     | Inl (CtxEnded e) \<Rightarrow> rest \<noteq> [] \<and> (\<exists>v. fn (epURL (plEndpoints p ! hd rest)) v = (Inl (CtxErr e), w'))
     | Inl (NoEndpoints c) \<Rightarrow> rest = [] \<and> is = [] \<and> lastErr = None
     | Inl (AllFailed c wt e) \<Rightarrow> rest = [])"
  using assms
proof (induction "is" arbitrary: lastErr p w)
  case Nil
  then show ?case by (auto split: option.splits)
next
  case (Cons i "is")
  obtain r w1 where f: "fn (epURL (plEndpoints p ! i)) w = (r, w1)" by force
  show ?case
  proof (cases "\<exists>e. r = Inl (CallErr e)")
    case False
    with Cons.prems(3) f show ?thesis
      by (intro exI [of _ "[]"] exI [of _ "i # is"]) (auto split: sum.splits call_err.splits)
  next
    case True
    then obtain e where e: "r = Inl (CallErr e)" by blast
    define q where "q = markFailed (failed_at ho chain (epURL (plEndpoints p ! i)) w1) i p"
    have loop: "try_endpoints ho chain what fn is (Some e) q (count_failure ho chain (epURL (plEndpoints p ! i)) w1) = (out, p', w')"
      using Cons.prems(3) f e by (simp add: q_def failed_at_def Let_def)
    have ni: "i \<notin> set is" and il: "i < length (plEndpoints p)" using Cons.prems(1,2) by auto
    have q: "length (plEndpoints q) = length (plEndpoints p)" "plCooldown q = plCooldown p"
      "\<And>j. epURL (plEndpoints q ! j) = epURL (plEndpoints p ! j)"
      "\<And>j. j \<noteq> i \<Longrightarrow> plEndpoints q ! j = plEndpoints p ! j"
      "plEndpoints q ! i = (plEndpoints p ! i)\<lparr>epFailedUntil := failed_at ho chain (epURL (plEndpoints p ! i)) w1 + plCooldown p\<rparr>"
      using il by (simp_all add: q_def markFailed_nth)
    from Cons.IH [OF _ _ loop] Cons.prems(1,2) q(1) obtain failed rest where IH:
      "is = failed @ rest"
      "\<forall>j \<in> set failed. \<exists>v e v'. fn (epURL (plEndpoints q ! j)) v = (Inl (CallErr e), v') \<and>
         plEndpoints p' ! j = (plEndpoints q ! j)\<lparr>epFailedUntil := failed_at ho chain (epURL (plEndpoints q ! j)) v' + plCooldown q\<rparr>"
      "\<forall>j. j \<notin> set failed \<longrightarrow> plEndpoints p' ! j = plEndpoints q ! j"
      "length (plEndpoints p') = length (plEndpoints q)" "plCooldown p' = plCooldown q"
      "case out of
         Inr x \<Rightarrow> rest \<noteq> [] \<and> (\<exists>v. fn (epURL (plEndpoints q ! hd rest)) v = (Inr x, w'))
       | Inl (CtxEnded e) \<Rightarrow> rest \<noteq> [] \<and> (\<exists>v. fn (epURL (plEndpoints q ! hd rest)) v = (Inl (CtxErr e), w'))
       | Inl (NoEndpoints c) \<Rightarrow> rest = [] \<and> is = [] \<and> Some e = None
       | Inl (AllFailed c wt e) \<Rightarrow> rest = []"
      by auto
    have nf: "i \<notin> set failed" using ni IH(1) by auto
    have "\<forall>j \<in> set (i # failed). \<exists>v e v'. fn (epURL (plEndpoints p ! j)) v = (Inl (CallErr e), v') \<and>
         plEndpoints p' ! j = (plEndpoints p ! j)\<lparr>epFailedUntil := failed_at ho chain (epURL (plEndpoints p ! j)) v' + plCooldown p\<rparr>"
    proof
      fix j assume "j \<in> set (i # failed)"
      then show "\<exists>v e v'. fn (epURL (plEndpoints p ! j)) v = (Inl (CallErr e), v') \<and>
         plEndpoints p' ! j = (plEndpoints p ! j)\<lparr>epFailedUntil := failed_at ho chain (epURL (plEndpoints p ! j)) v' + plCooldown p\<rparr>"
        using IH(2) IH(3) [rule_format, of i] f e q(2,3,5) q(4) [of j] nf
        by (cases "j = i") (fastforce, metis set_ConsD)
    qed
    moreover have "\<forall>j. j \<notin> set (i # failed) \<longrightarrow> plEndpoints p' ! j = plEndpoints p ! j"
      using IH(3) q(4) by auto
    ultimately show ?thesis
      using IH(1,4,5,6) q(1,2,3) by (intro exI [of _ "i # failed"] exI [of _ rest]) (auto split: sum.splits rpc_err.splits)
  qed
qed

lemma available_cases:
  obtains (ready) "fst (available now p) = filter (ready now p) [0..<length (plEndpoints p)]" "snd (available now p) = p"
  | (reset) "\<forall>i < length (plEndpoints p). \<not> ready now p i" "fst (available now p) = [0..<length (plEndpoints p)]"
      "\<forall>e \<in> set (plEndpoints (snd (available now p))). epFailedUntil e = 0"
proof (cases "filter (ready now p) [0..<length (plEndpoints p)] = []")
  case True
  then have "\<forall>i < length (plEndpoints p). \<not> ready now p i" by (auto simp: filter_empty_conv)
  with True show thesis by (intro reset) (auto simp: available_def)
next
  case False
  then show thesis by (intro ready) (auto simp: available_def Let_def)
qed

lemma distinct_available: "distinct (fst (available now p))"
  by (simp add: available_def Let_def)

lemma dial_all_filter:
  assumes "\<And>url w. dial url w = (reach url, w)"
  shows "dial_all dial eps pooled lastErr w =
    (pooled @ map (\<lambda>ep. \<lparr>epURL = esURL ep, epWeight = esWeight ep, epFailedUntil = 0\<rparr>)
       (filter (\<lambda>ep. reach (esURL ep) = None) eps),
     fold (\<lambda>ep l. case reach (esURL ep) of None \<Rightarrow> l | Some e \<Rightarrow> Some e) eps lastErr, w)"
  by (induction eps arbitrary: pooled lastErr) (auto simp: assms split: option.splits)

section \<open>Properties\<close>

text \<open>
  C28. Failover: a call on a client with at least one endpoint tries available endpoints in order of
  the pool. A value comes from the first of them that did not fail; each one tried before it failed
  and is cooling down until the time of its failure plus the cooldown; the rest of the pool is as
  the availability check left it. The call reports that all endpoints failed only when every
  available endpoint did, and never that there is no endpoint.
\<close>

theorem failover_first_healthy:
  assumes "plEndpoints (cPool c) \<noteq> []" "tryFailover ho c fn what w = (out, c', w')"
    and "available (hoNow ho w) (cPool c) = (is, p)"
  shows "\<exists>failed rest. is = failed @ rest \<and>
    (\<forall>i \<in> set failed. \<exists>v e v'. fn (epURL (plEndpoints p ! i)) v = (Inl (CallErr e), v') \<and>
       epFailedUntil (plEndpoints (cPool c') ! i) = failed_at ho (cChain c) (epURL (plEndpoints p ! i)) v' + plCooldown p) \<and>
    (\<forall>i. i \<notin> set failed \<longrightarrow> plEndpoints (cPool c') ! i = plEndpoints p ! i) \<and>
    (case out of
       Inr x \<Rightarrow> rest \<noteq> [] \<and> (\<exists>v. fn (epURL (plEndpoints p ! hd rest)) v = (Inr x, w'))
     | Inl (CtxEnded e) \<Rightarrow> rest \<noteq> [] \<and> (\<exists>v. fn (epURL (plEndpoints p ! hd rest)) v = (Inl (CtxErr e), w'))
     | Inl (NoEndpoints x) \<Rightarrow> False
     | Inl (AllFailed x y e) \<Rightarrow> rest = [])"
proof -
  obtain p' where t: "try_endpoints ho (cChain c) what fn is None p w = (out, p', w')" "cPool c' = p'"
    using assms(2,3) by (auto simp: tryFailover_def split: prod.splits)
  have idx: "distinct is" "set is \<subseteq> {..<length (plEndpoints p)}" "is \<noteq> []"
    using distinct_available [of "hoNow ho w" "cPool c"] set_available [of "hoNow ho w" "cPool c"]
      available_nonempty [OF assms(1), of "hoNow ho w"] available_frame(1) [of "hoNow ho w" "cPool c"] assms(3)
    by auto
  from try_endpoints_spec [OF idx(1,2) t(1)] obtain failed rest where
    s: "is = failed @ rest"
      "\<forall>i \<in> set failed. \<exists>v e v'. fn (epURL (plEndpoints p ! i)) v = (Inl (CallErr e), v') \<and>
         plEndpoints p' ! i = (plEndpoints p ! i)\<lparr>epFailedUntil := failed_at ho (cChain c) (epURL (plEndpoints p ! i)) v' + plCooldown p\<rparr>"
      "\<forall>i. i \<notin> set failed \<longrightarrow> plEndpoints p' ! i = plEndpoints p ! i"
    and o: "case out of
       Inr x \<Rightarrow> rest \<noteq> [] \<and> (\<exists>v. fn (epURL (plEndpoints p ! hd rest)) v = (Inr x, w'))
     | Inl (CtxEnded e) \<Rightarrow> rest \<noteq> [] \<and> (\<exists>v. fn (epURL (plEndpoints p ! hd rest)) v = (Inl (CtxErr e), w'))
     | Inl (NoEndpoints c) \<Rightarrow> rest = [] \<and> is = [] \<and> (None :: err option) = None
     | Inl (AllFailed c wt e) \<Rightarrow> rest = []"
    by (elim exE conjE) (rule that; assumption)
  have "\<forall>i \<in> set failed. \<exists>v e v'. fn (epURL (plEndpoints p ! i)) v = (Inl (CallErr e), v') \<and>
      epFailedUntil (plEndpoints (cPool c') ! i) = failed_at ho (cChain c) (epURL (plEndpoints p ! i)) v' + plCooldown p"
  proof
    fix i assume "i \<in> set failed"
    with s(2) obtain v e v' where "fn (epURL (plEndpoints p ! i)) v = (Inl (CallErr e), v')"
      "plEndpoints p' ! i = (plEndpoints p ! i)\<lparr>epFailedUntil := failed_at ho (cChain c) (epURL (plEndpoints p ! i)) v' + plCooldown p\<rparr>" by blast
    then show "\<exists>v e v'. fn (epURL (plEndpoints p ! i)) v = (Inl (CallErr e), v') \<and>
      epFailedUntil (plEndpoints (cPool c') ! i) = failed_at ho (cChain c) (epURL (plEndpoints p ! i)) v' + plCooldown p"
      by (intro exI [of _ v] exI [of _ e] exI [of _ v']) (simp add: t(2))
  qed
  moreover have "case out of
       Inr x \<Rightarrow> rest \<noteq> [] \<and> (\<exists>v. fn (epURL (plEndpoints p ! hd rest)) v = (Inr x, w'))
     | Inl (CtxEnded e) \<Rightarrow> rest \<noteq> [] \<and> (\<exists>v. fn (epURL (plEndpoints p ! hd rest)) v = (Inl (CtxErr e), w'))
     | Inl (NoEndpoints x) \<Rightarrow> False
     | Inl (AllFailed x y e) \<Rightarrow> rest = []"
    using o idx(3) by (simp split: sum.splits rpc_err.splits)
  ultimately show ?thesis using s(1,3) t(2) by blast
qed

definition ex_client :: client where
  "ex_client = \<lparr>cChain = ''op'', cPool = newPool
     [\<lparr>epURL = ''a'', epWeight = 1, epFailedUntil = 0\<rparr>, \<lparr>epURL = ''b'', epWeight = 5, epFailedUntil = 0\<rparr>]\<rparr>"

definition ex_call :: "(nat, gotime) node_call" where
  "ex_call url w = (if url = ''a'' then Inr 7 else Inl (CallErr ''down''), w + second)"

lemma ex_client_pool:
  "plEndpoints (cPool ex_client) =
     [\<lparr>epURL = ''b'', epWeight = 5, epFailedUntil = 0\<rparr>, \<lparr>epURL = ''a'', epWeight = 1, epFailedUntil = 0\<rparr>]"
  by (simp add: ex_client_def newPool_def)

definition ex_host :: "gotime host" where
  "ex_host = \<lparr>hoNow = id, hoObs = (\<lambda>m w. w)\<rparr>"

theorem failover_first_healthy_witness:
  "\<exists>c. tryFailover ex_host ex_client ex_call ''call'' 0 = (Inr 7, c, 2 * second) \<and>
     (\<exists>failed rest. [0, 1 :: nat] = failed @ rest \<and> rest \<noteq> [] \<and>
        list_all (\<lambda>i. \<exists>v. epFailedUntil (plEndpoints (cPool c) ! i) = v + 30 * second) failed)"
proof -
  have av: "available 0 (cPool ex_client) = ([0, 1], cPool ex_client)"
    by (simp add: available_def ready_def ex_client_pool upt_rec)
  obtain c where t: "tryFailover ex_host ex_client ex_call ''call'' 0 = (Inr 7, c, 2 * second)"
    by (simp add: tryFailover_def ex_host_def count_failure_def av ex_client_pool ex_call_def markFailed_nth)
  have cd: "plCooldown (cPool ex_client) = 30 * second"
    by (simp add: ex_client_def newPool_def defaultCooldown_def)
  have av': "available (hoNow ex_host 0) (cPool ex_client) = ([0, 1], cPool ex_client)" using av by (simp add: ex_host_def)
  have "\<exists>failed rest. [0, 1 :: nat] = failed @ rest \<and> rest \<noteq> [] \<and>
      list_all (\<lambda>i. \<exists>v. epFailedUntil (plEndpoints (cPool c) ! i) = v + 30 * second) failed"
    using failover_first_healthy [OF _ t av'] unfolding list_all_iff cd
    by (simp add: ex_client_pool) metis
  with t show ?thesis by blast
qed

text \<open>
  An endpoint that was marked as failed is not tried again before the cooldown has
  passed, unless no endpoint of the pool is ready; then every endpoint is tried and every cooldown
  is lifted. An endpoint that is not cooling down is always among the available ones.
\<close>

theorem cooldown_respected:
  assumes "i < length (plEndpoints p)" "p' = markFailed failedAt i p"
    and "failedAt \<le> now" "now < failedAt + plCooldown p"
  shows "i \<notin> set (fst (available now p')) \<or>
     ((\<forall>j < length (plEndpoints p'). now < epFailedUntil (plEndpoints p' ! j)) \<and>
      fst (available now p') = [0..<length (plEndpoints p')] \<and>
      (\<forall>e \<in> set (plEndpoints (snd (available now p'))). epFailedUntil e = 0))"
proof -
  have "\<not> ready now p' i" using assms by (simp add: ready_def markFailed_nth)
  then show ?thesis
    by (cases rule: available_cases [of now p']) (auto simp: ready_def)
qed

theorem cooldown_respected_witness:
  "0 \<notin> set (fst (available (10 * second) (markFailed second 0 (cPool ex_client))))"
proof -
  let ?p = "markFailed second 0 (cPool ex_client)"
  have "plCooldown (cPool ex_client) = 30 * second"
    by (simp add: ex_client_def newPool_def defaultCooldown_def)
  then have "0 \<notin> set (fst (available (10 * second) ?p)) \<or>
      (\<forall>j < length (plEndpoints ?p). 10 * second < epFailedUntil (plEndpoints ?p ! j))"
    using cooldown_respected [of 0 "cPool ex_client" ?p second "10 * second"]
    by (auto simp: ex_client_pool second_def)
  moreover have "1 < length (plEndpoints ?p)" "\<not> 10 * second < epFailedUntil (plEndpoints ?p ! 1)"
    by (simp_all add: ex_client_pool markFailed_nth second_def)
  ultimately show ?thesis by blast
qed

text \<open>
  The pool keeps every endpoint that could be reached and no other, in descending order of
  weight, endpoints of equal weight in the configured order; a dial that returns a client returns
  one that is not empty.
\<close>

theorem dial_pool_order:
  assumes "\<And>url v. dial url v = (reach url, v)" "Dial dial chain specs w = (Inr c, w')"
  shows "plEndpoints (cPool c) \<noteq> [] \<and> cChain c = chain \<and>
    sorted_wrt (\<lambda>a b. epWeight a \<ge> epWeight b) (plEndpoints (cPool c)) \<and>
    (\<forall>x. filter (\<lambda>e. epWeight e = x) (plEndpoints (cPool c)) =
       map (\<lambda>ep. \<lparr>epURL = esURL ep, epWeight = esWeight ep, epFailedUntil = 0\<rparr>)
         (filter (\<lambda>ep. reach (esURL ep) = None \<and> esWeight ep = x) specs))"
proof -
  let ?ep = "\<lambda>ep. \<lparr>epURL = esURL ep, epWeight = esWeight ep, epFailedUntil = 0\<rparr>"
  let ?eps = "map ?ep (filter (\<lambda>ep. reach (esURL ep) = None) specs)"
  have c: "c = \<lparr>cChain = chain, cPool = newPool ?eps\<rparr>" "?eps \<noteq> []"
    using assms(2) by (auto simp: Dial_def dial_all_filter [OF assms(1)] split: if_splits)
  have "sorted_wrt (\<lambda>a b. epWeight a \<ge> epWeight b) (sort_key (\<lambda>e. - epWeight e) ?eps)"
    using sorted_sort_key [of "\<lambda>e. - epWeight e" ?eps, unfolded sorted_map] by (simp only: neg_le_iff_le)
  moreover have "filter (\<lambda>e. epWeight e = x) (sort_key (\<lambda>e. - epWeight e) ?eps) =
      map ?ep (filter (\<lambda>ep. reach (esURL ep) = None \<and> esWeight ep = x) specs)" for x
    using sort_key_stable [of "\<lambda>e. - epWeight e" "- x" ?eps]
    by (simp add: filter_map comp_def conj_commute)
  moreover have "sort_key (\<lambda>e. - epWeight e) ?eps \<noteq> []"
  proof
    assume "sort_key (\<lambda>e. - epWeight e) ?eps = []"
    then have "length (sort_key (\<lambda>e. - epWeight e) ?eps) = 0" by (simp only: list.size)
    with c(2) show False by (simp only: length_sort length_0_conv)
  qed
  moreover have "plEndpoints (cPool c) = sort_key (\<lambda>e. - epWeight e) ?eps" "cChain c = chain"
    by (simp_all add: c(1) newPool_def)
  ultimately show ?thesis by (simp only: simp_thms)
qed

definition ex_reach :: "string \<Rightarrow> err option" where
  "ex_reach url = (if url = ''c'' then Some ''refused'' else None)"

theorem dial_pool_order_witness:
  "\<exists>c. Dial (\<lambda>url v. (ex_reach url, v)) ''op''
       [\<lparr>esURL = ''a'', esWeight = 1\<rparr>, \<lparr>esURL = ''c'', esWeight = 9\<rparr>, \<lparr>esURL = ''b'', esWeight = 5\<rparr>] () = (Inr c, ()) \<and>
     sorted_wrt (\<lambda>a b. epWeight a \<ge> epWeight b) (plEndpoints (cPool c))"
proof -
  obtain c where d: "Dial (\<lambda>url v. (ex_reach url, v)) ''op''
      [\<lparr>esURL = ''a'', esWeight = 1\<rparr>, \<lparr>esURL = ''c'', esWeight = 9\<rparr>, \<lparr>esURL = ''b'', esWeight = 5\<rparr>] () = (Inr c, ())"
    by (simp add: Dial_def ex_reach_def)
  from dial_pool_order [of "\<lambda>url v. (ex_reach url, v)" ex_reach, OF refl d] d show ?thesis by auto
qed

text \<open>What failover returns is what some endpoint returned.\<close>

lemma tryFailover_value:
  assumes "tryFailover ho c fn what w = (Inr x, c', w')"
  shows "\<exists>url v. fn url v = (Inr x, w')"
proof -
  obtain "is" p where av: "available (hoNow ho w) (cPool c) = (is, p)" by force
  obtain p' where t: "try_endpoints ho (cChain c) what fn is None p w = (Inr x, p', w')"
    using assms av by (auto simp: tryFailover_def split: prod.splits)
  have "distinct is" "set is \<subseteq> {..<length (plEndpoints p)}"
    using distinct_available [of "hoNow ho w" "cPool c"] set_available [of "hoNow ho w" "cPool c"]
      available_frame(1) [of "hoNow ho w" "cPool c"] av by auto
  from try_endpoints_spec [OF this t] show ?thesis by auto
qed

lemma tryFailover_frame:
  assumes "tryFailover ho c fn what w = (out, c', w')"
  shows "cChain c' = cChain c" "length (plEndpoints (cPool c')) = length (plEndpoints (cPool c))"
proof -
  obtain "is" p where av: "available (hoNow ho w) (cPool c) = (is, p)" by force
  obtain p' where t: "try_endpoints ho (cChain c) what fn is None p w = (out, p', w')" and c: "c' = c\<lparr>cPool := p'\<rparr>"
    using assms av by (auto simp: tryFailover_def split: prod.splits)
  have "distinct is" "set is \<subseteq> {..<length (plEndpoints p)}" "length (plEndpoints p) = length (plEndpoints (cPool c))"
    using distinct_available [of "hoNow ho w" "cPool c"] set_available [of "hoNow ho w" "cPool c"]
      available_frame(1) [of "hoNow ho w" "cPool c"] av by auto
  with try_endpoints_spec [OF this(1,2) t] c
  show "cChain c' = cChain c" "length (plEndpoints (cPool c')) = length (plEndpoints (cPool c))" by auto
qed

lemma tryFailover_answers:
  assumes "plEndpoints (cPool c) \<noteq> []" "\<And>url v. \<exists>x v'. fn url v = (Inr x, v') \<and> P x"
  shows "\<exists>x c' w'. tryFailover ho c fn what w = (Inr x, c', w') \<and> P x"
proof -
  obtain "is" p where av: "available (hoNow ho w) (cPool c) = (is, p)" by force
  moreover have "is \<noteq> []" using assms(1) av by (auto simp: available_def Let_def split: if_splits)
  then obtain i js where "is = i # js" by (cases "is") auto
  moreover obtain x v' where "fn (epURL (plEndpoints p ! i)) w = (Inr x, v')" "P x" using assms(2) by blast
  ultimately show ?thesis by (simp add: tryFailover_def)
qed

lemma BlockByNumber_number:
  assumes "\<forall>n url v h v'. headerByNumber n url v = (Inr h, v') \<longrightarrow> hNumber h = uint n"
    and "BlockByNumber ho headerByNumber c n w = (Inr b, c', w')"
  shows "bNumber b = n"
proof -
  obtain url v where "map_call (toRef (cChain c)) (headerByNumber n) url v = (Inr b, w')"
    using tryFailover_value [OF assms(2) [unfolded BlockByNumber_def]] by blast
  then obtain h v' where "headerByNumber n url v = (Inr h, v')" "b = toRef (cChain c) h"
    by (auto simp: map_call_def split: prod.splits sum.splits)
  then show ?thesis using assms(1) by (simp add: toRef_def)
qed

lemma HeadByTag_header:
  assumes "HeadByTag ho headByTag c tag w = (Inr b, c', w')"
  shows "\<exists>url v h v'. headByTag tag url v = (Inr (Some h), v') \<and> b = toRef (cChain c) h"
proof -
  obtain url v where "head_call (cChain c) headByTag tag url v = (Inr b, w')"
    using tryFailover_value [OF assms [unfolded HeadByTag_def]] by blast
  then show ?thesis by (auto simp: head_call_def split: prod.splits sum.splits option.splits)
qed

end
