(* ===== verification/Url.thy ===== *)
theory Url
  imports Opsentry_Prelude
begin

text \<open>
  Characters, and \<open>url.Parse\<close> of the standard library (\<open>net/url\<close> of Go 1.25.0) as far as the program looks
  at its result: whether it is an error, and the scheme. \<open>config.Validate\<close> and, through
  \<open>http.NewRequestWithContext\<close>, the ABI fetchers use it.
\<close>

section \<open>Characters\<close>

definition is_space :: "char \<Rightarrow> bool" where
  "is_space c \<longleftrightarrow> c \<in> {CHR 0x09, CHR 0x0A, CHR 0x0B, CHR 0x0C, CHR 0x0D, CHR 0x20}"

definition TrimSpace :: "string \<Rightarrow> string" where
  "TrimSpace s = rev (dropWhile is_space (rev (dropWhile is_space s)))"

definition char_in :: "nat \<Rightarrow> nat \<Rightarrow> char \<Rightarrow> bool" where
  "char_in lo hi c \<longleftrightarrow> lo \<le> of_char c \<and> of_char c \<le> hi"

definition is_digit :: "char \<Rightarrow> bool" where
  "is_digit = char_in 48 57"

definition is_lower :: "char \<Rightarrow> bool" where
  "is_lower = char_in 97 122"

definition is_upper :: "char \<Rightarrow> bool" where
  "is_upper = char_in 65 90"


definition to_lower :: "char \<Rightarrow> char" where
  "to_lower c = (if is_upper c then char_of (of_char c + 32 :: nat) else c)"

definition is_hex_char :: "char \<Rightarrow> bool" where
  "is_hex_char c \<longleftrightarrow> is_digit c \<or> char_in 97 102 c \<or> char_in 65 70 c"

section \<open>Pieces of a URL\<close>

text \<open>\<open>strings.Cut\<close> at a character, and at its last occurrence.\<close>

definition cut :: "char \<Rightarrow> string \<Rightarrow> string \<times> string" where
  "cut c s = (takeWhile (\<lambda>x. x \<noteq> c) s, drop 1 (dropWhile (\<lambda>x. x \<noteq> c) s))"

definition cut_last :: "char \<Rightarrow> string \<Rightarrow> (string \<times> string) option" where
  "cut_last c s =
     (if c \<in> set s then Some (rev (snd (cut c (rev s))), rev (fst (cut c (rev s)))) else None)"

text \<open>\<open>getScheme\<close>: the scheme before the first colon and the rest. \<open>None\<close> is the error for a URL that starts with
  a colon; a URL without a scheme has the empty one.\<close>

fun get_scheme :: "string \<Rightarrow> string \<Rightarrow> string \<Rightarrow> (string \<times> string) option" where
  "get_scheme raw pre [] = Some ([], raw)"
| "get_scheme raw pre (c # cs) =
     (if is_lower c \<or> is_upper c then get_scheme raw (pre @ [c]) cs
      else if is_digit c \<or> c \<in> {CHR ''+'', CHR ''-'', CHR ''.''}
      then (if pre = [] then Some ([], raw) else get_scheme raw (pre @ [c]) cs)
      else if c = CHR '':'' then (if pre = [] then None else Some (pre, cs))
      else Some ([], raw))"

text \<open>\<open>unescape\<close>, as to whether it fails. Only hosts and zones reject characters that are not escaped.\<close>

datatype encoding = EncodePath | EncodeUserPassword | EncodeHost | EncodeZone | EncodeFragment

definition host_char :: "char \<Rightarrow> bool" where
  "host_char c \<longleftrightarrow> is_lower c \<or> is_upper c \<or> is_digit c \<or> c \<in> set ''!$&()*+,;=:[]<>-_.~'' \<or> c = CHR 0x27 \<or> c = CHR 0x22"

definition unhex :: "char \<Rightarrow> nat" where
  "unhex c = (if is_digit c then of_char c - 48 else if char_in 97 102 c then of_char c - 87 else of_char c - 55)"

fun unescapes :: "encoding \<Rightarrow> string \<Rightarrow> bool" where
  "unescapes mode [] \<longleftrightarrow> True"
| "unescapes mode (c # cs) \<longleftrightarrow>
     (if c = CHR ''%'' then
        (case cs of
           x # y # rest \<Rightarrow>
             is_hex_char x \<and> is_hex_char y \<and>
             \<not> (mode = EncodeHost \<and> unhex x < 8 \<and> [x, y] \<noteq> ''25'') \<and>
             \<not> (mode = EncodeZone \<and> [x, y] \<noteq> ''25'' \<and> unhex x * 16 + unhex y \<noteq> 32 \<and>
                 \<not> host_char (char_of (unhex x * 16 + unhex y))) \<and>
             unescapes mode rest
         | _ \<Rightarrow> False)
      else \<not> ((mode = EncodeHost \<or> mode = EncodeZone) \<and> of_char c < (128 :: nat) \<and> \<not> host_char c) \<and> unescapes mode cs)"

definition validOptionalPort :: "string \<Rightarrow> bool" where
  "validOptionalPort port \<longleftrightarrow> port = [] \<or> take 1 port = '':'' \<and> list_all is_digit (drop 1 port)"

definition validUserinfo :: "string \<Rightarrow> bool" where
  "validUserinfo s \<longleftrightarrow>
     list_all (\<lambda>c. is_lower c \<or> is_upper c \<or> is_digit c \<or> c \<in> set ''-._:~!$&()*+,;=%@'' \<or> c = CHR 0x27) s"

text \<open>The host before and from the first \<open>%25\<close>.\<close>

fun split_zone :: "string \<Rightarrow> (string \<times> string) option" where
  "split_zone [] = None"
| "split_zone (c # cs) =
     (if take 3 (c # cs) = ''%25'' then Some ([], c # cs)
      else map_option (\<lambda>(h, z). (c # h, z)) (split_zone cs))"

definition parseHost :: "string \<Rightarrow> bool" where
  "parseHost host \<longleftrightarrow>
     (if take 1 host = ''['' then
        (case cut_last (CHR '']'') host of
           None \<Rightarrow> False
         | Some (addr, colonPort) \<Rightarrow>
             validOptionalPort colonPort \<and>
             (case split_zone addr of
                Some (h, z) \<Rightarrow> unescapes EncodeHost h \<and> unescapes EncodeZone z \<and> unescapes EncodeHost (CHR '']'' # colonPort)
              | None \<Rightarrow> unescapes EncodeHost host))
      else
        (case cut_last (CHR '':'') host of None \<Rightarrow> True | Some (h, port) \<Rightarrow> validOptionalPort (CHR '':'' # port)) \<and>
        unescapes EncodeHost host)"

definition parseAuthority :: "string \<Rightarrow> bool" where
  "parseAuthority authority \<longleftrightarrow>
     (case cut_last (CHR ''@'') authority of
        None \<Rightarrow> parseHost authority
      | Some (userinfo, host) \<Rightarrow>
          parseHost host \<and> validUserinfo userinfo \<and>
          (if CHR '':'' \<in> set userinfo
           then unescapes EncodeUserPassword (fst (cut (CHR '':'') userinfo)) \<and> unescapes EncodeUserPassword (snd (cut (CHR '':'') userinfo))
           else unescapes EncodeUserPassword userinfo))"

definition contains_ctl :: "string \<Rightarrow> bool" where
  "contains_ctl s \<longleftrightarrow> list_ex (\<lambda>c. of_char c < (32 :: nat) \<or> c = CHR 0x7f) s"

section \<open>Parsing\<close>

text \<open>The result is the scheme, \<open>None\<close> an error. A URL with a scheme whose rest does not start with a slash is opaque.\<close>

definition parse_url :: "string \<Rightarrow> string option" where
  "parse_url u =
     (if contains_ctl u then None
      else if u = ''*'' then Some []
      else
        (case get_scheme u [] u of
           None \<Rightarrow> None
         | Some (scheme, rest0) \<Rightarrow>
             (let rest = fst (cut (CHR ''?'') rest0); found = Some (map to_lower scheme)
              in if take 1 rest \<noteq> ''/'' \<and> scheme \<noteq> [] then found
                 else if take 1 rest \<noteq> ''/'' \<and> CHR '':'' \<in> set (fst (cut (CHR ''/'') rest)) then None
                 else if (scheme \<noteq> [] \<or> take 3 rest \<noteq> ''///'') \<and> take 2 rest = ''//'' then
                   (if parseAuthority (takeWhile (\<lambda>x. x \<noteq> CHR ''/'') (drop 2 rest)) \<and>
                       unescapes EncodePath (dropWhile (\<lambda>x. x \<noteq> CHR ''/'') (drop 2 rest)) then found else None)
                 else (if unescapes EncodePath rest then found else None))))"

definition url_Parse :: "string \<Rightarrow> string option" where
  "url_Parse raw =
     (case parse_url (fst (cut (CHR ''#'') raw)) of
        None \<Rightarrow> None
      | Some scheme \<Rightarrow> if unescapes EncodeFragment (snd (cut (CHR ''#'') raw)) then Some scheme else None)"

end
