(* ===== verification/Config.thy ===== *)
theory Config
  imports Url
begin

text \<open>
  The configuration (\<open>internal/config/schema.go\<close>, \<open>load.go\<close>): the schema as records, and \<open>Validate\<close>
  with every early return as an error value. YAML decoding and reading the file are parameters of
  \<open>Load\<close>. Strings are sequences of bytes and white space is that of ASCII.
\<close>

section \<open>The schema\<close>

record rpc_cfg =
  rpcURL :: string
  rpcWeight :: int

record confirmations_cfg =
  cfFast :: int
  cfSafe :: string
  cfFinalized :: string

record recovery_cfg =
  rvEnabled :: bool
  rvInterval :: duration
  rvMaxBlocksPerRun :: int
  rvMaxRetries :: int

record chain_cfg =
  chID :: string
  chChainID :: u64
  chRPCs :: "rpc_cfg list"
  chBlockTimeMs :: int
  chConfirmations :: confirmations_cfg
  chReorgCheck :: string
  chRecovery :: recovery_cfg

record template_cfg =
  rtTitle :: string
  rtBody :: string

record receiver_cfg =
  rvID :: string
  rvType :: string
  rvURL :: string
  rvThrottle :: "duration option"
  rvTemplate :: template_cfg

record read_cfg =
  rdName :: string
  rdMethod :: string
  rdOutput :: string

record rule_cfg =
  ruWhen :: string
  ruSeverity :: string
  ruReceivers :: "string list"

record monitor_cfg =
  moID :: string
  moChain :: string
  moAddress :: string
  moABI :: string
  moConfirmation :: string
  moReads :: "read_cfg list"
  moRules :: "rule_cfg list"

record config =
  cfgChains :: "chain_cfg list"
  cfgReceivers :: "receiver_cfg list"
  cfgMonitors :: "monitor_cfg list"

section \<open>Validation\<close>

text \<open>The regular expression \<open>^0x[0-9a-fA-F]{40}$\<close>.\<close>

definition addressRegex :: "string \<Rightarrow> bool" where
  "addressRegex s \<longleftrightarrow> take 2 s = ''0x'' \<and> length s = 42 \<and> list_all is_hex_char (drop 2 s)"

datatype cfg_err =
    NoChains
  | ChainMissingID
  | DuplicateChain string
  | ChainIDZero string
  | RpcURLRequired string nat
  | RpcBadScheme string nat string
  | ReceiverMissingID
  | MonitorMissingID
  | DuplicateMonitor string
  | UnknownChain string string
  | BadAddress string string
  | BadConfirmation string string
  | UnknownReceiver string nat string

definition validConfirmations :: "string \<Rightarrow> bool" where
  "validConfirmations s \<longleftrightarrow> s \<in> {[], ''fast'', ''safe'', ''finalized''}"

definition good_scheme :: "string \<Rightarrow> bool" where
  "good_scheme url =
     (case url_Parse url of
        None \<Rightarrow> False
      | Some s \<Rightarrow> s = ''http'' \<or> s = ''https'' \<or> s = ''ws'' \<or> s = ''wss'')"

fun check_rpcs :: "string \<Rightarrow> nat \<Rightarrow> rpc_cfg list \<Rightarrow> cfg_err option" where
  "check_rpcs ch i [] = None"
| "check_rpcs ch i (r # rs) =
     (if rpcURL r = [] then Some (RpcURLRequired ch i)
      else if \<not> good_scheme (rpcURL r) then Some (RpcBadScheme ch i (rpcURL r))
      else check_rpcs ch (i + 1) rs)"

fun check_chains :: "string list \<Rightarrow> chain_cfg list \<Rightarrow> cfg_err + string list" where
  "check_chains chain_ids [] = Inr chain_ids"
| "check_chains chain_ids (ch # chs) =
     (if chID ch = [] then Inl ChainMissingID
      else if chID ch \<in> set chain_ids then Inl (DuplicateChain (chID ch))
      else if chChainID ch = 0 then Inl (ChainIDZero (chID ch))
      else (case check_rpcs (chID ch) 0 (chRPCs ch) of
              Some e \<Rightarrow> Inl e
            | None \<Rightarrow> check_chains (chID ch # chain_ids) chs))"

fun check_receivers :: "string list \<Rightarrow> receiver_cfg list \<Rightarrow> cfg_err + string list" where
  "check_receivers receivers [] = Inr receivers"
| "check_receivers receivers (r # rs) =
     (if rvID r = [] then Inl ReceiverMissingID else check_receivers (rvID r # receivers) rs)"

fun check_rule_receivers :: "string list \<Rightarrow> string \<Rightarrow> nat \<Rightarrow> string list \<Rightarrow> cfg_err option" where
  "check_rule_receivers receivers m i [] = None"
| "check_rule_receivers receivers m i (rcv # rcvs) =
     (if rcv \<notin> set receivers then Some (UnknownReceiver m i rcv) else check_rule_receivers receivers m i rcvs)"

fun check_rules :: "string list \<Rightarrow> string \<Rightarrow> nat \<Rightarrow> rule_cfg list \<Rightarrow> cfg_err option" where
  "check_rules receivers m i [] = None"
| "check_rules receivers m i (r # rs) =
     (case check_rule_receivers receivers m i (ruReceivers r) of
        Some e \<Rightarrow> Some e
      | None \<Rightarrow> check_rules receivers m (i + 1) rs)"

fun check_monitors :: "string list \<Rightarrow> string list \<Rightarrow> string list \<Rightarrow> monitor_cfg list \<Rightarrow> cfg_err option" where
  "check_monitors chain_ids receivers monitors [] = None"
| "check_monitors chain_ids receivers monitors (m # ms) =
     (if moID m = [] then Some MonitorMissingID
      else if moID m \<in> set monitors then Some (DuplicateMonitor (moID m))
      else if moChain m \<notin> set chain_ids then Some (UnknownChain (moID m) (moChain m))
      else if moAddress m \<noteq> [] \<and> \<not> addressRegex (TrimSpace (moAddress m)) then Some (BadAddress (moID m) (moAddress m))
      else if \<not> validConfirmations (moConfirmation m) then Some (BadConfirmation (moID m) (moConfirmation m))
      else (case check_rules receivers (moID m) 0 (moRules m) of
              Some e \<Rightarrow> Some e
            | None \<Rightarrow> check_monitors chain_ids receivers (moID m # monitors) ms))"

definition Validate :: "config \<Rightarrow> cfg_err option" where
  "Validate c =
     (if cfgChains c = [] then Some NoChains
      else
        (case check_chains [] (cfgChains c) of
           Inl e \<Rightarrow> Some e
         | Inr chain_ids \<Rightarrow>
             (case check_receivers [] (cfgReceivers c) of
                Inl e \<Rightarrow> Some e
              | Inr receivers \<Rightarrow> check_monitors chain_ids receivers [] (cfgMonitors c))))"

datatype load_err = ReadErr string err | DecodeErr string err | ValidateErr string cfg_err

definition Load ::
  "(string \<Rightarrow> err + bytes) \<Rightarrow> (bytes \<Rightarrow> err + config) \<Rightarrow> string \<Rightarrow> load_err + config" where
  "Load readFile decode path =
     (case readFile path of
        Inl e \<Rightarrow> Inl (ReadErr path e)
      | Inr data \<Rightarrow>
          (case decode data of
             Inl e \<Rightarrow> Inl (DecodeErr path e)
           | Inr cfg \<Rightarrow>
               (case Validate cfg of Some e \<Rightarrow> Inl (ValidateErr path e) | None \<Rightarrow> Inr cfg)))"

section \<open>What validation accepts\<close>

lemma first_error [simp]:
  "(case x of Some e \<Rightarrow> Some e | None \<Rightarrow> y) = None \<longleftrightarrow> x = None \<and> y = None"
  "(case x of Some e \<Rightarrow> Inl e | None \<Rightarrow> z) = Inr out \<longleftrightarrow> x = None \<and> z = Inr out"
  by (auto split: option.splits)

text \<open>The scheme is all that is looked at: a URL needs neither the slashes that the message of the error asks for
  nor a host.\<close>

lemma good_scheme_no_host: "good_scheme ''http:node'' \<and> good_scheme ''https://'' \<and> good_scheme ''WSS:?''"
  by code_simp

lemma check_rpcs_ok:
  "check_rpcs ch i rs = None \<longleftrightarrow> (\<forall>r \<in> set rs. rpcURL r \<noteq> [] \<and> good_scheme (rpcURL r))"
  by (induction rs arbitrary: i) auto

lemma check_chains_ok:
  "(\<exists>out. check_chains seen chs = Inr out) \<longleftrightarrow>
     distinct (map chID chs) \<and> set (map chID chs) \<inter> set seen = {} \<and>
     (\<forall>ch \<in> set chs. chID ch \<noteq> [] \<and> chChainID ch \<noteq> 0 \<and>
        (\<forall>r \<in> set (chRPCs ch). rpcURL r \<noteq> [] \<and> good_scheme (rpcURL r)))"
  by (induction chs arbitrary: seen) (auto simp: check_rpcs_ok)

lemma check_chains_set: "check_chains seen chs = Inr out \<Longrightarrow> set out = set seen \<union> chID ` set chs"
  by (induction chs arbitrary: seen) (auto split: if_splits)

lemma check_receivers_ok:
  "(\<exists>out. check_receivers seen rs = Inr out) \<longleftrightarrow> (\<forall>r \<in> set rs. rvID r \<noteq> [])"
  by (induction rs arbitrary: seen) auto

lemma check_receivers_set: "check_receivers seen rs = Inr out \<Longrightarrow> set out = set seen \<union> rvID ` set rs"
  by (induction rs arbitrary: seen) (auto split: if_splits)

lemma check_rule_receivers_ok: "check_rule_receivers rcvs m i xs = None \<longleftrightarrow> set xs \<subseteq> set rcvs"
  by (induction xs) auto

lemma check_rules_ok:
  "check_rules rcvs m i rs = None \<longleftrightarrow> (\<forall>r \<in> set rs. set (ruReceivers r) \<subseteq> set rcvs)"
  by (induction rs arbitrary: i) (auto simp: check_rule_receivers_ok)

lemma check_monitors_ok:
  "check_monitors chain_ids rcvs seen ms = None \<longleftrightarrow>
     distinct (map moID ms) \<and> set (map moID ms) \<inter> set seen = {} \<and>
     (\<forall>m \<in> set ms. moID m \<noteq> [] \<and> moChain m \<in> set chain_ids \<and>
        (moAddress m = [] \<or> addressRegex (TrimSpace (moAddress m))) \<and> validConfirmations (moConfirmation m) \<and>
        (\<forall>r \<in> set (moRules m). set (ruReceivers r) \<subseteq> set rcvs))"
  by (induction ms arbitrary: seen) (auto simp: check_rules_ok)

lemma Validate_receivers:
  assumes "Validate c = None" "m \<in> set (cfgMonitors c)" "r \<in> set (moRules m)"
  shows "set (ruReceivers r) \<subseteq> rvID ` set (cfgReceivers c)"
proof -
  obtain ids rcvs where "check_receivers [] (cfgReceivers c) = Inr rcvs" "check_monitors ids rcvs [] (cfgMonitors c) = None"
    using assms(1) by (auto simp: Validate_def split: if_splits sum.splits)
  with assms(2,3) check_receivers_set [of "[]"] show ?thesis by (fastforce simp: check_monitors_ok)
qed

section \<open>Properties\<close>

text \<open>
  C29. Validation accepts exactly the well-formed configurations: at least one chain, chain_ids with
  distinct non-empty ids, a positive chain id and endpoint URLs of a web or socket scheme, named
  receivers, and monitors with distinct non-empty ids that refer to a configured chain, have an
  address of the right form or none, a known confirmation level, and rules that only name
  configured receivers.
\<close>

theorem Validate_accepts:
  "Validate c = None \<longleftrightarrow>
     cfgChains c \<noteq> [] \<and> distinct (map chID (cfgChains c)) \<and> distinct (map moID (cfgMonitors c)) \<and>
     list_all (\<lambda>ch. chID ch \<noteq> [] \<and> chChainID ch \<noteq> 0 \<and>
       list_all (\<lambda>r. rpcURL r \<noteq> [] \<and> good_scheme (rpcURL r)) (chRPCs ch)) (cfgChains c) \<and>
     list_all (\<lambda>r. rvID r \<noteq> []) (cfgReceivers c) \<and>
     list_all (\<lambda>m. moID m \<noteq> [] \<and> moChain m \<in> chID ` set (cfgChains c) \<and>
       (moAddress m = [] \<or> addressRegex (TrimSpace (moAddress m))) \<and> validConfirmations (moConfirmation m) \<and>
       list_all (\<lambda>r. set (ruReceivers r) \<subseteq> rvID ` set (cfgReceivers c)) (moRules m)) (cfgMonitors c)"
proof (cases "check_chains [] (cfgChains c)")
  case (Inl e)
  then have "\<not> (\<exists>out. check_chains [] (cfgChains c) = Inr out)" by simp
  then show ?thesis using Inl unfolding check_chains_ok by (auto simp: Validate_def list_all_iff)
next
  case chain_ids: (Inr chain_ids)
  then have ch: "\<exists>out. check_chains [] (cfgChains c) = Inr out" by blast
  show ?thesis
  proof (cases "check_receivers [] (cfgReceivers c)")
    case (Inl e)
    then have "\<not> (\<exists>out. check_receivers [] (cfgReceivers c) = Inr out)" by simp
    then show ?thesis using Inl chain_ids unfolding check_receivers_ok by (auto simp: Validate_def list_all_iff)
  next
    case (Inr receivers)
    then have "\<exists>out. check_receivers [] (cfgReceivers c) = Inr out" by blast
    then show ?thesis
      using ch check_chains_set [OF chain_ids] check_receivers_set [OF Inr] Inr chain_ids
      unfolding check_receivers_ok check_chains_ok
      by (auto simp: Validate_def check_monitors_ok list_all_iff)
  qed
qed

end
