(* ===== verification/Durations.thy ===== *)
theory Durations
  imports Config Values
begin

text \<open>
  The textual form of a duration in the configuration (\<open>Duration\<close> of \<open>internal/config/schema.go\<close>):
  \<open>MarshalYAML\<close> writes \<open>time.Duration.String\<close> and \<open>UnmarshalYAML\<close> reads with \<open>time.ParseDuration\<close>, both modelled
  here in full. A duration is a 64-bit count of nanoseconds; strings are sequences of bytes, so the
  micro sign has two.
\<close>

section \<open>Printing\<close>

definition micro :: string where
  "micro = [CHR 0xC2, CHR 0xB5]"

text \<open>The fraction of \<open>v / 10 ^ prec\<close> without trailing zeros, in front of \<open>acc\<close>, and the integral part.\<close>

fun fmtFrac :: "nat \<Rightarrow> nat \<Rightarrow> bool \<Rightarrow> string \<Rightarrow> string \<times> nat" where
  "fmtFrac v 0 shown acc = (if shown then CHR ''.'' # acc else acc, v)"
| "fmtFrac v (Suc prec) shown acc =
     (let digit = v mod 10; shown' = (shown \<or> digit \<noteq> 0)
      in fmtFrac (v div 10) prec shown' (if shown' then hex_digit digit # acc else acc))"

definition fmt_unit :: "nat \<Rightarrow> nat \<Rightarrow> string \<Rightarrow> string" where
  "fmt_unit u prec unit = (case fmtFrac u prec False unit of (frac, v) \<Rightarrow> dec_nat v @ frac)"

definition fmt_seconds :: "nat \<Rightarrow> string" where
  "fmt_seconds u =
     (case fmtFrac u 9 False ''s'' of
        (frac, sec) \<Rightarrow>
          (let tail = dec_nat (sec mod 60) @ frac; mins = sec div 60
           in if mins = 0 then tail
              else let tail' = dec_nat (mins mod 60) @ ''m'' @ tail; hours = mins div 60
                   in if hours = 0 then tail' else dec_nat hours @ ''h'' @ tail'))"

definition Duration_String :: "duration \<Rightarrow> string" where
  "Duration_String d =
     (let u = nat \<bar>d\<bar>
      in (if d < 0 then ''-'' else []) @
         (if u = 0 then ''0s''
          else if u < 10 ^ 3 then fmt_unit u 0 ''ns''
          else if u < 10 ^ 6 then fmt_unit u 3 (micro @ ''s'')
          else if u < 10 ^ 9 then fmt_unit u 6 ''ms''
          else fmt_seconds u))"

definition MarshalYAML :: "duration \<Rightarrow> string" where
  "MarshalYAML d = Duration_String d"

section \<open>Parsing\<close>

datatype dur_err = InvalidDuration string | MissingUnit string | UnknownUnit string string

definition digit_val :: "char \<Rightarrow> nat" where
  "digit_val c = of_char c - 48"

text \<open>\<open>None\<close> is the overflow.\<close>

fun leadingInt :: "nat \<Rightarrow> string \<Rightarrow> (nat \<times> string) option" where
  "leadingInt x [] = Some (x, [])"
| "leadingInt x (c # cs) =
     (if \<not> is_digit c then Some (x, c # cs)
      else if 2 ^ 63 div 10 < x then None
      else if 2 ^ 63 < x * 10 + digit_val c then None
      else leadingInt (x * 10 + digit_val c) cs)"

text \<open>The scale is a \<open>float64\<close>; as it is multiplied by ten at most nineteen times it is exact.\<close>

fun leadingFraction :: "nat \<Rightarrow> nat \<Rightarrow> bool \<Rightarrow> string \<Rightarrow> nat \<times> nat \<times> string" where
  "leadingFraction x scale overflow [] = (x, scale, [])"
| "leadingFraction x scale overflow (c # cs) =
     (if \<not> is_digit c then (x, scale, c # cs)
      else if overflow then leadingFraction x scale True cs
      else if (2 ^ 63 - 1) div 10 < x then leadingFraction x scale True cs
      else if 2 ^ 63 < x * 10 + digit_val c then leadingFraction x scale True cs
      else leadingFraction (x * 10 + digit_val c) (scale * 10) False cs)"

definition unitMap :: "string \<rightharpoonup> nat" where
  "unitMap = map_of [(''ns'', 1), (''us'', 10 ^ 3), (micro @ ''s'', 10 ^ 3), ([CHR 0xCE, CHR 0xBC] @ ''s'', 10 ^ 3),
     (''ms'', 10 ^ 6), (''s'', 10 ^ 9), (''m'', 60 * 10 ^ 9), (''h'', 3600 * 10 ^ 9)]"

text \<open>
  \<open>uint64(float64(f) * (float64(unit) / scale))\<close>. The quotient is computed with more than 53 bits and a
  last bit for the remainder, which rounds it correctly; powers of two do not affect rounding.
\<close>

definition frac_ns :: "nat \<Rightarrow> nat \<Rightarrow> nat \<Rightarrow> nat" where
  "frac_ns f unit scale =
     (let s = 64 + bit_length scale; x = unit * 2 ^ s;
          q = f64_nat (2 * (x div scale) + (if x mod scale = 0 then 0 else 1))
      in f64_nat (f64_nat f * q) div 2 ^ (s + 1))"

definition unit_char :: "char \<Rightarrow> bool" where
  "unit_char c \<longleftrightarrow> \<not> (c = CHR ''.'' \<or> is_digit c)"

text \<open>One number with its unit, and the rest of the string.\<close>

definition scale_unit :: "string \<Rightarrow> nat \<Rightarrow> nat \<Rightarrow> nat \<Rightarrow> string \<Rightarrow> dur_err + nat \<times> string" where
  "scale_unit orig v f scale s =
     (let u = takeWhile unit_char s
      in if u = [] then Inl (MissingUnit orig)
         else (case unitMap u of
                 None \<Rightarrow> Inl (UnknownUnit u orig)
               | Some unit \<Rightarrow>
                   (if 2 ^ 63 div unit < v then Inl (InvalidDuration orig)
                    else let v' = v * unit + (if 0 < f then frac_ns f unit scale else 0)
                         in if 0 < f \<and> 2 ^ 63 < v' then Inl (InvalidDuration orig)
                            else Inr (v', dropWhile unit_char s))))"

definition parse_unit :: "string \<Rightarrow> string \<Rightarrow> dur_err + nat \<times> string" where
  "parse_unit orig s =
     (if \<not> (hd s = CHR ''.'' \<or> is_digit (hd s)) then Inl (InvalidDuration orig)
      else (case leadingInt 0 s of
              None \<Rightarrow> Inl (InvalidDuration orig)
            | Some (v, s1) \<Rightarrow>
                (let pre = length s \<noteq> length s1
                 in if s1 \<noteq> [] \<and> hd s1 = CHR ''.'' then
                      (case leadingFraction 0 1 False (tl s1) of
                         (f, scale, s2) \<Rightarrow>
                           (if \<not> pre \<and> length (tl s1) = length s2 then Inl (InvalidDuration orig)
                            else scale_unit orig v f scale s2))
                    else if \<not> pre then Inl (InvalidDuration orig)
                    else scale_unit orig v 0 1 s1)))"

lemma leadingInt_length: "leadingInt x s = Some (v, rest) \<Longrightarrow> length rest \<le> length s"
  by (induction x s rule: leadingInt.induct) (auto split: if_splits)

lemma leadingFraction_length: "leadingFraction x sc ov s = (f, scale, rest) \<Longrightarrow> length rest \<le> length s"
  by (induction x sc ov s rule: leadingFraction.induct) (auto split: if_splits)

lemma scale_unit_length:
  assumes "scale_unit orig v f scale s = Inr (x, rest)"
  shows "length rest < length s"
proof -
  have "takeWhile unit_char s \<noteq> []" "rest = dropWhile unit_char s"
    using assms by (auto simp: scale_unit_def Let_def split: if_splits option.splits)
  moreover have "length (takeWhile unit_char s) + length (dropWhile unit_char s) = length s"
    by (metis length_append takeWhile_dropWhile_id)
  ultimately show ?thesis by (cases "takeWhile unit_char s") auto
qed

lemma parse_unit_length:
  assumes "parse_unit orig s = Inr (v, rest)"
  shows "length rest < length s"
proof -
  obtain v1 s1 where l: "leadingInt 0 s = Some (v1, s1)"
    using assms by (auto simp: parse_unit_def split: if_splits option.splits)
  obtain f scale s2 where fr: "leadingFraction 0 1 False (tl s1) = (f, scale, s2)" by (rule prod_cases3)
  have "length s2 \<le> length s1" using leadingFraction_length [OF fr] by (cases s1) auto
  moreover have "length s1 \<le> length s" by (rule leadingInt_length [OF l])
  ultimately show ?thesis
    using assms l fr by (auto simp: parse_unit_def Let_def split: if_splits dest!: scale_unit_length)
qed

text \<open>The sum is an unsigned 64-bit integer.\<close>

function parse_units :: "string \<Rightarrow> string \<Rightarrow> nat \<Rightarrow> dur_err + nat" where
  "parse_units orig s d =
     (if s = [] then Inr d
      else (case parse_unit orig s of
              Inl e \<Rightarrow> Inl e
            | Inr (v, rest) \<Rightarrow>
                (let d' = (d + v) mod 2 ^ 64
                 in if 2 ^ 63 < d' then Inl (InvalidDuration orig) else parse_units orig rest d')))"
  by pat_completeness auto
termination
  by (relation "measure (\<lambda>(orig, s, d). length s)") (auto dest: parse_unit_length)

declare parse_units.simps [simp del]

definition ParseDuration :: "string \<Rightarrow> dur_err + duration" where
  "ParseDuration orig =
     (let signed = (orig \<noteq> [] \<and> hd orig \<in> {CHR ''-'', CHR ''+''});
          neg = (signed \<and> hd orig = CHR ''-'');
          s = (if signed then tl orig else orig)
      in if s = ''0'' then Inr 0
         else if s = [] then Inl (InvalidDuration orig)
         else (case parse_units orig s 0 of
                 Inl e \<Rightarrow> Inl e
               | Inr d \<Rightarrow>
                   (if neg then Inr (- int d)
                    else if 2 ^ 63 - 1 < d then Inl (InvalidDuration orig) else Inr (int d))))"

text \<open>Decoding the node into a string is YAML's part.\<close>

datatype unmarshal_err = NodeErr err | DurationErr dur_err

definition UnmarshalYAML :: "err + string \<Rightarrow> unmarshal_err + duration" where
  "UnmarshalYAML decoded =
     (case decoded of
        Inl e \<Rightarrow> Inl (NodeErr e)
      | Inr s \<Rightarrow> map_sum DurationErr id (ParseDuration s))"

section \<open>Digits\<close>

definition digits_val :: "nat \<Rightarrow> string \<Rightarrow> nat" where
  "digits_val x ds = foldl (\<lambda>x c. x * 10 + digit_val c) x ds"

lemma digits_val_simps [simp]:
  "digits_val x [] = x" "digits_val x (c # ds) = digits_val (x * 10 + digit_val c) ds"
  "digits_val x (ds @ es) = digits_val (digits_val x ds) es"
  by (simp_all add: digits_val_def)

lemma digit_of_nat:
  assumes "n < 10"
  shows "is_digit (hex_digit n)" "digit_val (hex_digit n) = n"
proof -
  have "n \<in> set [0..<10]" using assms by simp
  then show "is_digit (hex_digit n)" "digit_val (hex_digit n) = n"
    by (auto simp: upt_rec hex_digit_def is_digit_def char_in_def digit_val_def)
qed

lemma digits_val_ge: "x \<le> digits_val x ds"
proof (induction ds arbitrary: x)
  case (Cons c ds)
  have "x \<le> x * 10 + digit_val c" by simp
  also have "\<dots> \<le> digits_val (x * 10 + digit_val c) ds" by (rule Cons)
  finally show ?case by simp
qed simp

lemma dec_nat_digits: "list_all is_digit (dec_nat n)" "dec_nat n \<noteq> []" "digits_val 0 (dec_nat n) = n"
proof (induction n rule: dec_nat.induct)
  case (1 n)
  { case 1 then show ?case using "1.IH"(1) digit_of_nat by (subst dec_nat.simps) simp }
  { case 2 show ?case by (subst dec_nat.simps) simp }
  { case 3 then show ?case using "1.IH"(3) digit_of_nat by (subst dec_nat.simps) simp }
qed

lemma leadingInt_digits:
  "list_all is_digit ds \<Longrightarrow> rest = [] \<or> \<not> is_digit (hd rest) \<Longrightarrow> digits_val x ds \<le> 2 ^ 63 \<Longrightarrow>
     leadingInt x (ds @ rest) = Some (digits_val x ds, rest)"
proof (induction ds arbitrary: x)
  case Nil
  then show ?case by (cases rest) auto
next
  case (Cons c ds)
  have "x * 10 + digit_val c \<le> 2 ^ 63"
    using digits_val_ge [of "x * 10 + digit_val c" ds] Cons.prems(3) by simp
  with Cons show ?case by simp
qed

lemma leadingFraction_digits:
  "list_all is_digit ds \<Longrightarrow> rest = [] \<or> \<not> is_digit (hd rest) \<Longrightarrow> digits_val x ds < 2 ^ 63 \<Longrightarrow>
     leadingFraction x sc False (ds @ rest) = (digits_val x ds, sc * 10 ^ length ds, rest)"
proof (induction ds arbitrary: x sc)
  case Nil
  then show ?case by (cases rest) auto
next
  case (Cons c ds)
  have "x * 10 + digit_val c < 2 ^ 63"
    using digits_val_ge [of "x * 10 + digit_val c" ds] Cons.prems(3) by simp
  with Cons show ?case by simp
qed

text \<open>The printed fraction: its digits, scaled to the precision, are the fraction.\<close>

lemma fmtFrac_spec:
  assumes "fmtFrac v p shown acc = (s, w)"
  shows "w = v div 10 ^ p \<and>
    (if shown \<or> v mod 10 ^ p \<noteq> 0
     then \<exists>ds. s = CHR ''.'' # ds @ acc \<and> list_all is_digit ds \<and> length ds \<le> p \<and> (shown \<longrightarrow> length ds = p) \<and>
            digits_val 0 ds * 10 ^ (p - length ds) = v mod 10 ^ p
     else s = acc)"
  using assms
proof (induction p arbitrary: v shown acc)
  case (Suc p)
  let ?d = "v mod 10" and ?v = "v div 10"
  have split: "v mod 10 ^ Suc p = 10 * (?v mod 10 ^ p) + ?d" by (simp add: mod_mult2_eq)
  have whole: "?v div 10 ^ p = v div 10 ^ Suc p" by (simp add: div_mult2_eq)
  show ?case
  proof (cases "shown \<or> ?d \<noteq> 0")
    case True
    then have "fmtFrac ?v p True (hex_digit ?d # acc) = (s, w)" using Suc.prems by simp
    from Suc.IH [OF this] obtain ds where w: "w = ?v div 10 ^ p" and ds: "s = CHR ''.'' # ds @ hex_digit ?d # acc"
      "list_all is_digit ds" "length ds = p" "digits_val 0 ds = ?v mod 10 ^ p" by auto
    let ?ds = "ds @ [hex_digit ?d]"
    have "s = CHR ''.'' # ?ds @ acc \<and> list_all is_digit ?ds \<and> length ?ds = Suc p \<and> digits_val 0 ?ds = v mod 10 ^ Suc p"
      using ds digit_of_nat [of ?d] by (simp add: mod_mult2_eq)
    moreover have "shown \<or> v mod 10 ^ Suc p \<noteq> 0" using True split by auto
    ultimately show ?thesis using w whole by (metis diff_self_eq_0 mult.right_neutral order_refl power_0)
  next
    case False
    then have "fmtFrac ?v p False acc = (s, w)" using Suc.prems by simp
    note IH = Suc.IH [OF this]
    have md: "v mod 10 ^ Suc p = 10 * (?v mod 10 ^ p)" using False split by simp
    show ?thesis
    proof (cases "?v mod 10 ^ p = 0")
      case True
      with IH md False whole show ?thesis by simp
    next
      case nz: False
      with IH obtain ds where "s = CHR ''.'' # ds @ acc" "list_all is_digit ds" "length ds \<le> p"
        "digits_val 0 ds * 10 ^ (p - length ds) = ?v mod 10 ^ p" by auto
      moreover from this have "digits_val 0 ds * 10 ^ (Suc p - length ds) = v mod 10 ^ Suc p"
        unfolding md by (simp add: Suc_diff_le)
      ultimately show ?thesis using IH md nz False whole by (auto intro!: exI [of _ ds])
    qed
  qed
qed auto

section \<open>Exact fractions\<close>

lemma f64_shift:
  assumes "n < 2 ^ 53"
  shows "f64_nat (n * 2 ^ k) = n * 2 ^ k"
proof -
  define j where "j = bit_length (n * 2 ^ k) - 53"
  have "n * 2 ^ k < 2 ^ (53 + k)" using assms by (simp add: power_add)
  then have "j \<le> k" using bit_length_le [of "n * 2 ^ k" "53 + k"] by (simp add: j_def)
  then have "2 ^ j dvd n * 2 ^ k" by (simp add: le_imp_power_dvd)
  then have "round_half_even (n * 2 ^ k) j * 2 ^ j = n * 2 ^ k"
    by (auto simp: round_half_even_def Let_def)
  then show ?thesis by (simp add: f64_nat_def Let_def flip: j_def)
qed

lemma frac_ns_exact:
  assumes "0 < scale" "m < 2 ^ 53" "f < 2 ^ 53" "f * m < 2 ^ 53"
  shows "frac_ns f (m * scale) scale = f * m"
proof -
  define s where "s = 64 + bit_length scale"
  have x: "m * scale * 2 ^ s = m * 2 ^ s * scale" by simp
  have "f64_nat (m * 2 ^ (s + 1)) = m * 2 ^ (s + 1)" by (rule f64_shift [OF assms(2)])
  moreover have "f64_nat (f * m * 2 ^ (s + 1)) = f * m * 2 ^ (s + 1)" by (rule f64_shift [OF assms(4)])
  moreover have "f64_nat f = f" using assms(3) by (rule f64_nat_exact)
  ultimately show ?thesis
    using assms(1) by (simp add: frac_ns_def Let_def x mult.assoc mult.left_commute flip: s_def)
qed

section \<open>Reading a number with its unit\<close>

definition unit_name :: "string \<Rightarrow> bool" where
  "unit_name u \<longleftrightarrow> u \<noteq> [] \<and> list_all unit_char u"

lemma not_unit_digit: "is_digit c \<Longrightarrow> \<not> unit_char c"
  by (simp add: unit_char_def)

lemma scale_unit_name:
  assumes "unit_name u" "unitMap u = Some k" "rest = [] \<or> \<not> unit_char (hd rest)"
    and "v \<le> 2 ^ 63 div k" "v * k + (if 0 < f then frac_ns f k scale else 0) \<le> 2 ^ 63"
  shows "scale_unit orig v f scale (u @ rest) = Inr (v * k + (if 0 < f then frac_ns f k scale else 0), rest)"
proof -
  have "takeWhile unit_char rest = []" "dropWhile unit_char rest = rest" using assms(3) by (cases rest; simp)+
  then have "takeWhile unit_char (u @ rest) = u" "dropWhile unit_char (u @ rest) = rest"
    using assms(1) by (simp_all add: unit_name_def list_all_iff takeWhile_append2 dropWhile_append2)
  with assms show ?thesis by (simp add: scale_unit_def unit_name_def Let_def)
qed

lemma hd_unit: "unit_name u \<Longrightarrow> \<not> is_digit (hd (u @ rest)) \<and> hd (u @ rest) \<noteq> CHR ''.''"
  by (cases u) (auto simp: unit_name_def unit_char_def)

lemma hd_dec_nat: "is_digit (hd (dec_nat n))"
  using dec_nat_digits(1,2) [of n] by (cases "dec_nat n") auto

text \<open>Without a fraction.\<close>

lemma parse_unit_whole:
  assumes "unit_name u" "unitMap u = Some k" "rest = [] \<or> \<not> unit_char (hd rest)" "0 < k" "a * k \<le> 2 ^ 63"
  shows "parse_unit orig (dec_nat a @ u @ rest) = Inr (a * k, rest)"
proof -
  have a: "a \<le> 2 ^ 63 div k" using assms(4,5) by (simp add: less_eq_div_iff_mult_less_eq)
  then have "a \<le> 2 ^ 63" by (rule order_trans) simp
  then have "leadingInt 0 (dec_nat a @ u @ rest) = Some (a, u @ rest)"
    using leadingInt_digits [of "dec_nat a" "u @ rest" 0] dec_nat_digits hd_unit [OF assms(1)] by simp
  moreover have "length (dec_nat a) \<noteq> 0" using dec_nat_digits(2) by simp
  moreover have "scale_unit orig a 0 1 (u @ rest) = Inr (a * k, rest)"
    using scale_unit_name [OF assms(1-3) a, of 0] assms(5) by simp
  ultimately show ?thesis
    using hd_unit [OF assms(1)] hd_dec_nat by (simp add: parse_unit_def Let_def)
qed

text \<open>With the fraction that was printed.\<close>

lemma parse_unit_fraction:
  assumes "unit_name u" "unitMap u = Some (10 ^ p)" "p \<le> 9"
    and "list_all is_digit ds" "length ds \<le> p" "digits_val 0 ds * 10 ^ (p - length ds) = m" "0 < m" "m < 10 ^ p"
    and "a * 10 ^ p + m \<le> 2 ^ 63"
  shows "parse_unit orig (dec_nat a @ CHR ''.'' # ds @ u) = Inr (a * 10 ^ p + m, [])"
proof -
  let ?f = "digits_val 0 ds"
  have f: "0 < ?f" using assms(6,7) by (cases "?f = 0") auto
  have p9: "(10 :: nat) ^ q \<le> 10 ^ 9" if "q \<le> p" for q using that assms(3) by (intro power_increasing) auto
  have m: "m < 10 ^ 9" using assms(8) p9 [of p] by simp
  have "?f * 1 \<le> ?f * 10 ^ (p - length ds)" by (intro mult_le_mono) auto
  then have fm: "?f \<le> m" using assms(6) by simp
  have "frac_ns ?f (10 ^ (p - length ds) * 10 ^ length ds) (10 ^ length ds) = ?f * 10 ^ (p - length ds)"
    using p9 [of "p - length ds"] fm m assms(6) by (intro frac_ns_exact) auto
  moreover have "10 ^ (p - length ds) * 10 ^ length ds = (10 :: nat) ^ p"
    using assms(5) by (simp flip: power_add)
  ultimately have frac: "frac_ns ?f (10 ^ p) (10 ^ length ds) = m" using assms(6) by simp
  have "a * 10 ^ p \<le> 2 ^ 63" using assms(9) by simp
  then have a: "a \<le> 2 ^ 63 div 10 ^ p" by (simp add: less_eq_div_iff_mult_less_eq)
  then have "a \<le> 2 ^ 63" by (rule order_trans) simp
  then have "leadingInt 0 (dec_nat a @ CHR ''.'' # ds @ u) = Some (a, CHR ''.'' # ds @ u)"
    using leadingInt_digits [of "dec_nat a" "CHR ''.'' # ds @ u" 0] dec_nat_digits
    by (simp add: is_digit_def char_in_def)
  moreover have "leadingFraction 0 1 False (ds @ u) = (?f, 10 ^ length ds, u)"
    using leadingFraction_digits [of ds u 0 1] assms(4) hd_unit [OF assms(1), of "[]"] fm m by simp
  moreover have "scale_unit orig a ?f (10 ^ length ds) u = Inr (a * 10 ^ p + m, [])"
    using scale_unit_name [OF assms(1,2) _ a, of "[]" ?f "10 ^ length ds"] f frac assms(9) by simp
  moreover have "length (dec_nat a) \<noteq> 0" using dec_nat_digits(2) by simp
  ultimately show ?thesis using hd_dec_nat by (simp add: parse_unit_def Let_def)
qed

lemma parse_unit_printed:
  assumes "fmtFrac u p False name = (frac, v)" "unit_name name" "unitMap name = Some (10 ^ p)" "p \<le> 9"
    and "a * 10 ^ p + u mod 10 ^ p \<le> 2 ^ 63"
  shows "parse_unit orig (dec_nat a @ frac) = Inr (a * 10 ^ p + u mod 10 ^ p, [])"
proof (cases "u mod 10 ^ p = 0")
  case True
  then have "frac = name" using fmtFrac_spec [OF assms(1)] by simp
  with parse_unit_whole [OF assms(2,3), of "[]" a] True assms(5) show ?thesis by simp
next
  case False
  then obtain ds where "frac = CHR ''.'' # ds @ name" "list_all is_digit ds" "length ds \<le> p"
    "digits_val 0 ds * 10 ^ (p - length ds) = u mod 10 ^ p"
    using fmtFrac_spec [OF assms(1)] by auto
  with parse_unit_fraction [OF assms(2-4), of ds "u mod 10 ^ p" a] False assms(5) show ?thesis by simp
qed

lemma parse_units_step:
  assumes "parse_unit orig s = Inr (v, rest)" "s \<noteq> []" "d + v \<le> 2 ^ 63"
  shows "parse_units orig s d = parse_units orig rest (d + v)"
  using assms by (subst parse_units.simps) simp

lemma parse_units_last:
  assumes "parse_unit orig s = Inr (v, [])" "s \<noteq> []" "d + v \<le> 2 ^ 63"
  shows "parse_units orig s d = Inr (d + v)"
  using parse_units_step [OF assms] by (simp add: parse_units.simps)

lemma unit_names:
  "unit_name ''ns''" "unitMap ''ns'' = Some (10 ^ 0)"
  "unit_name (micro @ ''s'')" "unitMap (micro @ ''s'') = Some (10 ^ 3)"
  "unit_name ''ms''" "unitMap ''ms'' = Some (10 ^ 6)"
  "unit_name ''s''" "unitMap ''s'' = Some (10 ^ 9)"
  "unit_name ''m''" "unitMap ''m'' = Some (60 * 10 ^ 9)"
  "unit_name ''h''" "unitMap ''h'' = Some (3600 * 10 ^ 9)"
  by (simp_all add: unit_name_def unit_char_def is_digit_def char_in_def unitMap_def micro_def)

section \<open>The round trip\<close>

lemma parse_fmt_unit:
  assumes "unit_name name" "unitMap name = Some (10 ^ p)" "p \<le> 9" "u \<le> 2 ^ 63"
  shows "parse_units orig (fmt_unit u p name) 0 = Inr u"
proof -
  obtain frac v where f: "fmtFrac u p False name = (frac, v)" by (rule prod.exhaust)
  have v: "v = u div 10 ^ p" using fmtFrac_spec [OF f] by simp
  have u: "v * 10 ^ p + u mod 10 ^ p = u" unfolding v by (rule div_mult_mod_eq)
  have "parse_unit orig (dec_nat v @ frac) = Inr (u, [])"
    using parse_unit_printed [OF f assms(1-3), of v] u assms(4) by simp
  from parse_units_last [OF this, of 0] show ?thesis
    using assms(4) dec_nat_digits(2) by (simp add: fmt_unit_def f)
qed

lemma parse_fmt_seconds:
  assumes "u \<le> 2 ^ 63"
  shows "parse_units orig (fmt_seconds u) 0 = Inr u"
proof -
  obtain frac sec where f: "fmtFrac u 9 False ''s'' = (frac, sec)" by (rule prod.exhaust)
  define r where "r = u mod 10 ^ 9"
  define ss mins where "ss = sec mod 60" and "mins = sec div 60"
  define ms hours where "ms = mins mod 60" and "hours = mins div 60"
  have sec: "sec = u div 10 ^ 9" using fmtFrac_spec [OF f] by simp
  have "u = sec * 10 ^ 9 + r" unfolding sec r_def by (rule div_mult_mod_eq [symmetric])
  moreover have smin: "sec = mins * 60 + ss" unfolding mins_def ss_def by (rule div_mult_mod_eq [symmetric])
  moreover have mh: "mins = hours * 60 + ms" unfolding hours_def ms_def by (rule div_mult_mod_eq [symmetric])
  ultimately have u: "u = hours * (3600 * 10 ^ 9) + ms * (60 * 10 ^ 9) + (ss * 10 ^ 9 + r)" by simp
  have last: "parse_units orig (dec_nat ss @ frac) d = Inr (d + (ss * 10 ^ 9 + r))" if "d + (ss * 10 ^ 9 + r) \<le> 2 ^ 63" for d
    using parse_unit_printed [OF f unit_names(7,8), of ss orig] that dec_nat_digits(2)
    by (intro parse_units_last) (simp_all add: r_def)
  have rest: "dec_nat n @ s = [] \<or> \<not> unit_char (hd (dec_nat n @ s))" for n s
    using hd_dec_nat [of n] dec_nat_digits(2) [of n] by (simp add: not_unit_digit)
  have m: "parse_unit orig (dec_nat ms @ ''m'' @ dec_nat ss @ frac) = Inr (ms * (60 * 10 ^ 9), dec_nat ss @ frac)"
    using u assms by (intro parse_unit_whole [OF unit_names(9,10) rest]) simp_all
  have h: "parse_unit orig (dec_nat hours @ ''h'' @ dec_nat ms @ ''m'' @ dec_nat ss @ frac) =
      Inr (hours * (3600 * 10 ^ 9), dec_nat ms @ ''m'' @ dec_nat ss @ frac)"
    using u assms by (intro parse_unit_whole [OF unit_names(11,12) rest]) simp_all
  have minutes: "parse_units orig (dec_nat ms @ ''m'' @ dec_nat ss @ frac) d = Inr (d + ms * (60 * 10 ^ 9) + (ss * 10 ^ 9 + r))"
    if "d + ms * (60 * 10 ^ 9) + (ss * 10 ^ 9 + r) \<le> 2 ^ 63" for d
    using parse_units_step [OF m, of d] last [of "d + ms * (60 * 10 ^ 9)"] that by simp
  have hrs: "parse_units orig (dec_nat hours @ ''h'' @ dec_nat ms @ ''m'' @ dec_nat ss @ frac) 0 = Inr u"
    using parse_units_step [OF h, of 0] minutes [of "hours * (3600 * 10 ^ 9)"] assms u by simp
  have shape: "fmt_seconds u = (if mins = 0 then dec_nat ss @ frac else if hours = 0 then dec_nat ms @ ''m'' @ dec_nat ss @ frac
      else dec_nat hours @ ''h'' @ dec_nat ms @ ''m'' @ dec_nat ss @ frac)"
    unfolding fmt_seconds_def f Let_def ss_def ms_def hours_def mins_def by simp
  consider "mins = 0" "hours = 0" "ms = 0" | "mins \<noteq> 0" "hours = 0" | "mins \<noteq> 0" "hours \<noteq> 0"
    using mh by fastforce
  then show ?thesis
  proof cases
    case 1
    then show ?thesis unfolding shape using last [of 0] u assms by simp
  next
    case 2
    then show ?thesis unfolding shape using minutes [of 0] u assms by simp
  next
    case 3
    then show ?thesis unfolding shape using hrs by simp
  qed
qed

text \<open>What is printed starts with a number and goes on.\<close>

lemma fmt_unit_shape: "name \<noteq> [] \<Longrightarrow> \<exists>x y. fmt_unit u p name = dec_nat x @ y \<and> y \<noteq> []"
proof -
  assume "name \<noteq> []"
  obtain frac v where f: "fmtFrac u p False name = (frac, v)" by (rule prod.exhaust)
  with fmtFrac_spec [OF f] \<open>name \<noteq> []\<close> have "frac \<noteq> []" by (auto split: if_splits)
  with f show ?thesis by (auto simp: fmt_unit_def)
qed

lemma fmt_seconds_shape: "\<exists>x y. fmt_seconds u = dec_nat x @ y \<and> y \<noteq> []"
proof -
  obtain frac v where f: "fmtFrac u 9 False ''s'' = (frac, v)" by (rule prod.exhaust)
  with fmtFrac_spec [OF f] have "frac \<noteq> []" by (auto split: if_splits)
  with f show ?thesis by (auto simp: fmt_seconds_def Let_def)
qed

definition magnitude :: "nat \<Rightarrow> string" where
  "magnitude u = (if u = 0 then ''0s'' else if u < 10 ^ 3 then fmt_unit u 0 ''ns''
     else if u < 10 ^ 6 then fmt_unit u 3 (micro @ ''s'') else if u < 10 ^ 9 then fmt_unit u 6 ''ms'' else fmt_seconds u)"

lemma zero_seconds: "''0s'' = dec_nat 0 @ ''s'' @ []"
  by (simp add: dec_nat.simps hex_digit_def)

lemma parse_magnitude:
  assumes "u \<le> 2 ^ 63"
  shows "parse_units orig (magnitude u) 0 = Inr u"
proof -
  have "parse_unit orig ''0s'' = Inr (0, [])"
    unfolding zero_seconds using parse_unit_whole [OF unit_names(7,8), of "[]" 0 orig] by simp
  from parse_units_last [OF this, of 0] show ?thesis
    using parse_fmt_unit unit_names parse_fmt_seconds assms by (simp add: magnitude_def)
qed

lemma magnitude_shape: "is_digit (hd (magnitude u)) \<and> magnitude u \<noteq> [] \<and> magnitude u \<noteq> ''0''"
proof -
  have "micro @ ''s'' \<noteq> []" by simp
  then obtain x y where b: "magnitude u = dec_nat x @ y" "y \<noteq> []"
    using fmt_unit_shape fmt_seconds_shape zero_seconds unfolding magnitude_def by (metis append_Nil2 list.discI)
  moreover have "dec_nat x @ y \<noteq> ''0''"
    using b(2) dec_nat_digits(2) [of x] by (auto simp: append_eq_Cons_conv)
  ultimately show ?thesis using hd_dec_nat [of x] dec_nat_digits(2) [of x] by simp
qed

text \<open>
  Durations survive the configuration file: reading what was written for any 64-bit duration gives
  the same duration, in every unit the writer chooses, with fractions and sign, down to the
  smallest and up to the largest duration.
\<close>

theorem duration_roundtrip:
  assumes "- (2 ^ 63) \<le> d" "d < 2 ^ 63"
  shows "UnmarshalYAML (Inr (MarshalYAML d)) = Inr d"
proof -
  define u where "u = nat \<bar>d\<bar>"
  have u: "u \<le> 2 ^ 63" "d < 0 \<Longrightarrow> d = - int u" "\<not> d < 0 \<Longrightarrow> d = int u \<and> u < 2 ^ 63" using assms by (auto simp: u_def)
  note shape = magnitude_shape [of u]
  have "hd (magnitude u) \<notin> {CHR ''-'', CHR ''+''}" using shape by (auto simp: is_digit_def char_in_def)
  moreover have "MarshalYAML d = (if d < 0 then ''-'' else []) @ magnitude u"
    by (simp add: MarshalYAML_def Duration_String_def Let_def magnitude_def u_def)
  ultimately have "ParseDuration (MarshalYAML d) = Inr d"
    using shape parse_magnitude [OF u(1)] u by (cases "d < 0") (simp_all add: ParseDuration_def Let_def)
  then show ?thesis by (simp add: UnmarshalYAML_def)
qed

theorem duration_roundtrip_witness:
  "UnmarshalYAML (Inr (MarshalYAML (- (2 ^ 63)))) = Inr (- (2 ^ 63)) \<and> UnmarshalYAML (Inr (MarshalYAML 5400001500000)) = Inr 5400001500000"
  using duration_roundtrip [of "- (2 ^ 63)"] duration_roundtrip [of 5400001500000] by simp

end
