(* ===== verification/Rules.thy ===== *)
theory Rules
  imports Pipeline
begin

text \<open>
  Rule evaluation (\<open>internal/rules/expr.go\<close>). The expression language is a library: compiling an
  expression and running a program of type \<open>'p\<close> on an environment are parameters.
\<close>

section \<open>The model\<close>

record rule =
  rWhen :: string
  rSeverity :: string
  rReceivers :: "string list"

record monitor_rules =
  mrMonitorID :: string
  mrRules :: "rule list"

record 'p compiled =
  cmMonitorID :: string
  cmIdx :: nat
  cmSeverity :: string
  cmReceivers :: "string list"
  cmProgram :: 'p

datatype compile_err = CompileErr string nat string err

fun compile_rules ::
  "(string \<Rightarrow> err + 'p) \<Rightarrow> string \<Rightarrow> nat \<Rightarrow> rule list \<Rightarrow> 'p compiled list \<Rightarrow> compile_err + 'p compiled list" where
  "compile_rules compile mid i [] rules = Inr rules"
| "compile_rules compile mid i (r # rs) rules =
     (case compile (rWhen r) of
        Inl e \<Rightarrow> Inl (CompileErr mid i (rWhen r) e)
      | Inr prog \<Rightarrow>
          compile_rules compile mid (i + 1) rs
            (rules @ [\<lparr>cmMonitorID = mid, cmIdx = i, cmSeverity = rSeverity r, cmReceivers = rReceivers r,
               cmProgram = prog\<rparr>]))"

fun compile_monitors ::
  "(string \<Rightarrow> err + 'p) \<Rightarrow> monitor_rules list \<Rightarrow> 'p compiled list \<Rightarrow> compile_err + 'p compiled list" where
  "compile_monitors compile [] rules = Inr rules"
| "compile_monitors compile (m # ms) rules =
     (case compile_rules compile (mrMonitorID m) 0 (mrRules m) rules of
        Inl e \<Rightarrow> Inl e
      | Inr rules' \<Rightarrow> compile_monitors compile ms rules')"

definition NewExprEvaluator :: "(string \<Rightarrow> err + 'p) \<Rightarrow> monitor_rules list \<Rightarrow> compile_err + 'p compiled list" where
  "NewExprEvaluator compile monitors = compile_monitors compile monitors []"

definition BuildEnv :: "event \<Rightarrow> envmap" where
  "BuildEnv ev = [(''event'', VMap (EventEnv ev))]"

text \<open>A program that fails, or does not give a boolean, does not match.\<close>

fun eval_rules :: "('p \<Rightarrow> envmap \<Rightarrow> err + goval) \<Rightarrow> event \<Rightarrow> envmap \<Rightarrow> 'p compiled list \<Rightarrow> rmatch list" where
  "eval_rules run ev env [] = []"
| "eval_rules run ev env (r # rs) =
     (if cmMonitorID r \<noteq> eMonitorID ev then eval_rules run ev env rs
      else
        (case run (cmProgram r) env of
           Inl e \<Rightarrow> eval_rules run ev env rs
         | Inr v \<Rightarrow>
             (if v = VBool True
              then \<lparr>mEvent = ev, mRuleIdx = word_of_nat (cmIdx r), mSeverity = cmSeverity r,
                    mReceivers = cmReceivers r\<rparr> # eval_rules run ev env rs
              else eval_rules run ev env rs)))"

definition Eval :: "('p \<Rightarrow> envmap \<Rightarrow> err + goval) \<Rightarrow> 'p compiled list \<Rightarrow> event \<Rightarrow> rmatch list" where
  "Eval run rules ev = eval_rules run ev (BuildEnv ev) rules"

section \<open>Compiled rules\<close>

definition compiled_of :: "(string \<Rightarrow> err + 'p) \<Rightarrow> string \<Rightarrow> nat \<times> rule \<Rightarrow> 'p compiled" where
  "compiled_of compile mid = (\<lambda>(i, r). \<lparr>cmMonitorID = mid, cmIdx = i, cmSeverity = rSeverity r,
     cmReceivers = rReceivers r, cmProgram = projr (compile (rWhen r))\<rparr>)"

lemma compile_rules_ok:
  "compile_rules compile mid i rs rules = Inr out \<Longrightarrow>
     out = rules @ map (compiled_of compile mid) (enumerate i rs) \<and> (\<forall>r \<in> set rs. \<not> isl (compile (rWhen r)))"
proof (induction rs arbitrary: i rules)
  case (Cons r rs)
  then obtain prog where p: "compile (rWhen r) = Inr prog"
    and c: "compile_rules compile mid (i + 1) rs (rules @ [\<lparr>cmMonitorID = mid, cmIdx = i,
      cmSeverity = rSeverity r, cmReceivers = rReceivers r, cmProgram = prog\<rparr>]) = Inr out"
    by (auto split: sum.splits)
  from Cons.IH [OF c] p show ?case by (simp add: compiled_of_def)
qed simp

lemma compile_monitors_ok:
  "compile_monitors compile ms rules = Inr out \<Longrightarrow>
     out = rules @ concat (map (\<lambda>m. map (compiled_of compile (mrMonitorID m)) (enumerate 0 (mrRules m))) ms) \<and>
     (\<forall>m \<in> set ms. \<forall>r \<in> set (mrRules m). \<not> isl (compile (rWhen r)))"
proof (induction ms arbitrary: rules)
  case (Cons m ms)
  then obtain rules' where r: "compile_rules compile (mrMonitorID m) 0 (mrRules m) rules = Inr rules'"
    and c: "compile_monitors compile ms rules' = Inr out"
    by (auto split: sum.splits)
  from Cons.IH [OF c] compile_rules_ok [OF r] show ?case by simp
qed simp

lemma eval_rules_append: "eval_rules run ev env (as @ bs) = eval_rules run ev env as @ eval_rules run ev env bs"
  by (induction as) (auto split: sum.splits)

text \<open>A rule matches when it compiles and its program gives true.\<close>

definition holds :: "(string \<Rightarrow> err + 'p) \<Rightarrow> ('p \<Rightarrow> envmap \<Rightarrow> err + goval) \<Rightarrow> event \<Rightarrow> rule \<Rightarrow> bool" where
  "holds compile run ev r =
     (case compile (rWhen r) of Inl e \<Rightarrow> False | Inr p \<Rightarrow> run p (BuildEnv ev) = Inr (VBool True))"

definition match_of :: "event \<Rightarrow> nat \<times> rule \<Rightarrow> rmatch" where
  "match_of ev = (\<lambda>(i, r). \<lparr>mEvent = ev, mRuleIdx = word_of_nat i, mSeverity = rSeverity r, mReceivers = rReceivers r\<rparr>)"

lemma eval_one_monitor:
  assumes "\<forall>r \<in> set rs. \<not> isl (compile (rWhen r))"
  shows "eval_rules run ev (BuildEnv ev) (map (compiled_of compile mid) (enumerate i rs)) =
    (if mid = eMonitorID ev then map (match_of ev) (filter (\<lambda>(i, r). holds compile run ev r) (enumerate i rs)) else [])"
  using assms
proof (induction rs arbitrary: i)
  case (Cons r rs)
  then show ?case
    by (cases "compile (rWhen r)"; cases "run (projr (compile (rWhen r))) (BuildEnv ev)")
       (auto simp: compiled_of_def match_of_def holds_def)
qed simp

section \<open>Properties\<close>

text \<open>
  C30. An event matches exactly the rules of its monitor whose expression is true of it: the matches
  are those rules in the configured order, each with its index in the monitor's list, its severity
  and its receivers; a rule whose evaluation fails or gives another value does not match.
\<close>

theorem Eval_matches:
  assumes "NewExprEvaluator compile monitors = Inr rules"
  shows "Eval run rules ev =
    concat (map (\<lambda>m. map (match_of ev) (filter (\<lambda>(i, r). holds compile run ev r) (enumerate 0 (mrRules m))))
      (filter (\<lambda>m. mrMonitorID m = eMonitorID ev) monitors))"
proof -
  have "rules = concat (map (\<lambda>m. map (compiled_of compile (mrMonitorID m)) (enumerate 0 (mrRules m))) monitors)"
    and ok: "\<forall>m \<in> set monitors. \<forall>r \<in> set (mrRules m). \<not> isl (compile (rWhen r))"
    using compile_monitors_ok [OF assms [unfolded NewExprEvaluator_def]] by simp_all
  moreover have "eval_rules run ev (BuildEnv ev)
      (concat (map (\<lambda>m. map (compiled_of compile (mrMonitorID m)) (enumerate 0 (mrRules m))) ms)) =
    concat (map (\<lambda>m. map (match_of ev) (filter (\<lambda>(i, r). holds compile run ev r) (enumerate 0 (mrRules m))))
      (filter (\<lambda>m. mrMonitorID m = eMonitorID ev) ms))"
    if "set ms \<subseteq> set monitors" for ms
    using that
  proof (induction ms)
    case (Cons m ms)
    with ok have "\<forall>r \<in> set (mrRules m). \<not> isl (compile (rWhen r))" by auto
    with Cons show ?case by (simp add: eval_rules_append eval_one_monitor)
  qed simp
  ultimately show ?thesis by (simp add: Eval_def)
qed

definition ex_event :: event where
  "ex_event = \<lparr>eLog = \<lparr>lChain = ''op'', lBlock = zero_block, lTxHash = 1, lTxIndex = 0, lLogIndex = 0,
     lAddress = 5, lTopics = [], lData = []\<rparr>, eMonitorID = ''m'', eName = ''Transfer'', eParams = [],
     eState = None, ePrevState = None, eConfirmation = []\<rparr>"

definition ex_compile :: "string \<Rightarrow> err + goval" where
  "ex_compile s = (if s = ''true'' then Inr (VBool True) else if s = ''1'' then Inr (VFloat 1) else Inl ''syntax'')"

theorem Eval_matches_witness:
  "\<exists>rules. NewExprEvaluator ex_compile
       [\<lparr>mrMonitorID = ''m'', mrRules = [\<lparr>rWhen = ''1'', rSeverity = ''low'', rReceivers = []\<rparr>,
          \<lparr>rWhen = ''true'', rSeverity = ''high'', rReceivers = [''ops'']\<rparr>]\<rparr>] = Inr rules \<and>
     Eval (\<lambda>p env. Inr p) rules ex_event =
       [\<lparr>mEvent = ex_event, mRuleIdx = 1, mSeverity = ''high'', mReceivers = [''ops'']\<rparr>]"
proof -
  obtain rules where r: "NewExprEvaluator ex_compile
       [\<lparr>mrMonitorID = ''m'', mrRules = [\<lparr>rWhen = ''1'', rSeverity = ''low'', rReceivers = []\<rparr>,
          \<lparr>rWhen = ''true'', rSeverity = ''high'', rReceivers = [''ops'']\<rparr>]\<rparr>] = Inr rules"
    by (simp add: NewExprEvaluator_def ex_compile_def)
  have "eMonitorID ex_event = ''m''" by (simp add: ex_event_def)
  with Eval_matches [OF r, of "\<lambda>p env. Inr p" ex_event] r show ?thesis
    by (simp add: match_of_def holds_def ex_compile_def)
qed

end
