(* ===== verification/Notify.thy ===== *)
theory Notify
  imports Metrics Config
begin

text \<open>
  Message templates, notifiers and the router (\<open>internal/notify\<close>). Shoutrrr and the log handler are
  parameters that act on the world \<open>'w\<close>, which also holds the clock. A notifier is a value that a
  send returns updated, as the throttle keeps the time of the last message. Metrics are left out.
\<close>

section \<open>Printing values\<close>

text \<open>
  \<open>fmt\<close>'s \<open>%v\<close> of a \<open>float64\<close> that is an integer: the shortest decimal that reads back as the same
  number, in exponent form from seven digits on. For each number of digits both neighbours are
  tried, and the nearer one is taken when both read back.
\<close>

definition digit_count :: "nat \<Rightarrow> nat" where
  "digit_count n = length (dec_nat n)"

definition short_decimal :: "nat \<Rightarrow> nat \<Rightarrow> nat option" where
  "short_decimal n k =
     (let p = 10 ^ (digit_count n - k); lo = n div p * p; hi = lo + p
      in if f64_nat lo = n \<and> (f64_nat hi \<noteq> n \<or> n - lo \<le> hi - n) then Some lo
         else if f64_nat hi = n then Some hi else None)"

fun first_short :: "nat \<Rightarrow> nat list \<Rightarrow> nat" where
  "first_short n [] = n"
| "first_short n (k # ks) = (case short_decimal n k of Some d \<Rightarrow> d | None \<Rightarrow> first_short n ks)"

fun strip_zeros :: "nat \<Rightarrow> nat" where
  "strip_zeros n = (if n = 0 \<or> n mod 10 \<noteq> 0 then n else strip_zeros (n div 10))"

declare strip_zeros.simps [simp del]

definition exp_form :: "nat \<Rightarrow> string" where
  "exp_form v =
     (let ds = dec_nat (strip_zeros v); e = digit_count v - 1
      in [hd ds] @ (if tl ds = [] then [] else CHR ''.'' # tl ds) @ ''e+'' @
         (if e < 10 then CHR ''0'' # dec_nat e else dec_nat e))"

definition fmt_float :: "int \<Rightarrow> string" where
  "fmt_float i =
     (let n = nat \<bar>i\<bar>; v = first_short n [1..<digit_count n]
      in (if i < 0 then ''-'' else []) @ (if digit_count v \<le> 6 then dec_nat v else exp_form v))"

text \<open>
  \<open>%v\<close> of a dynamic value. An address prints with its EIP-55 checksum, which go-ethereum computes;
  map keys are printed in order.
\<close>

definition sep :: "string \<Rightarrow> string list \<Rightarrow> string" where
  "sep d xs = (case xs of [] \<Rightarrow> [] | y # ys \<Rightarrow> y @ concat (map (\<lambda>z. d @ z) ys))"

definition list_v :: "string list \<Rightarrow> string" where
  "list_v xs = ''['' @ sep '' '' xs @ '']''"

fun str_less :: "string \<Rightarrow> string \<Rightarrow> bool" where
  "str_less s [] = False"
| "str_less [] (d # ds) = True"
| "str_less (c # cs) (d # ds) = ((of_char c :: nat) < of_char d \<or> (c = d \<and> str_less cs ds))"

fun insert_str :: "string \<times> string \<Rightarrow> (string \<times> string) list \<Rightarrow> (string \<times> string) list" where
  "insert_str p [] = [p]"
| "insert_str p (q # qs) =
     (if str_less (fst p) (fst q) then p # q # qs else q # insert_str p qs)"

fun sprint_v :: "(bytes20 \<Rightarrow> string) \<Rightarrow> goval \<Rightarrow> string" where
  "sprint_v ck VNil = ''<nil>''"
| "sprint_v ck (VBool b) = (if b then ''true'' else ''false'')"
| "sprint_v ck (VString s) = s"
| "sprint_v ck (VUint n) = dec_nat (unat n)"
| "sprint_v ck (VFloat i) = fmt_float i"
| "sprint_v ck (VBigInt i) = dec_int i"
| "sprint_v ck (VAddress a) = ck a"
| "sprint_v ck (VHash h) = hex0x (be_bytes 32 h)"
| "sprint_v ck (VBytes32 h) = list_v (map (\<lambda>b. dec_nat (unat b)) (be_bytes 32 h))"
| "sprint_v ck (VBytes20 a) = list_v (map (\<lambda>b. dec_nat (unat b)) (be_bytes 20 a))"
| "sprint_v ck (VBytes bs) = list_v (map (\<lambda>b. dec_nat (unat b)) bs)"
| "sprint_v ck (VMap m) =
     ''map'' @ list_v (map (\<lambda>(k, v). k @ '':'' @ v) (foldr insert_str (map (\<lambda>(k, v). (k, sprint_v ck v)) m) []))"
| "sprint_v ck (VList vs) = list_v (map (sprint_v ck) vs)"

section \<open>Templates\<close>

record template =
  tmTitle :: string
  tmBody :: string

text \<open>\<open>strings.Split(path, ".")\<close>.\<close>

fun split_dots :: "string \<Rightarrow> string list" where
  "split_dots [] = [[]]"
| "split_dots (c # cs) =
     (if c = CHR ''.'' then [] # split_dots cs
      else (case split_dots cs of [] \<Rightarrow> [[c]] | p # ps \<Rightarrow> (c # p) # ps))"

text \<open>The walk down the maps; \<open>None\<close> is the early return for a value that is not a map.\<close>

fun walk_path :: "goval \<Rightarrow> string list \<Rightarrow> goval option" where
  "walk_path cur [] = Some cur"
| "walk_path (VMap m) (p # ps) = walk_path (case map_of m p of Some v \<Rightarrow> v | None \<Rightarrow> VNil) ps"
| "walk_path cur (p # ps) = None"

definition lookup :: "(bytes20 \<Rightarrow> string) \<Rightarrow> envmap \<Rightarrow> string \<Rightarrow> string" where
  "lookup ck env path =
     (case walk_path (VMap env) (split_dots path) of
        None \<Rightarrow> []
      | Some VNil \<Rightarrow> []
      | Some v \<Rightarrow> sprint_v ck v)"

fun has_hole :: "string \<Rightarrow> bool" where
  "has_hole (c # d # cs) = ((c = CHR ''$'' \<and> d = CHR 0x7B) \<or> has_hole (d # cs))"
| "has_hole _ = False"

text \<open>The text up to the first closing brace and the text after it.\<close>

fun close_brace :: "string \<Rightarrow> (string \<times> string) option" where
  "close_brace [] = None"
| "close_brace (c # cs) =
     (if c = CHR 0x7D then Some ([], cs)
      else map_option (\<lambda>(p, rest). (c # p, rest)) (close_brace cs))"

lemma close_brace_length: "close_brace cs = Some (p, rest) \<Longrightarrow> length rest < length cs"
  by (induction cs arbitrary: p rest) (force split: if_splits)+

function (sequential) interp_loop :: "(bytes20 \<Rightarrow> string) \<Rightarrow> envmap \<Rightarrow> string \<Rightarrow> string" where
  "interp_loop ck env [] = []"
| "interp_loop ck env (c # cs) =
     (if c = CHR ''$'' \<and> cs \<noteq> [] \<and> hd cs = CHR 0x7B then
        (case close_brace (tl cs) of
           None \<Rightarrow> c # interp_loop ck env cs
         | Some (path, rest) \<Rightarrow> lookup ck env path @ interp_loop ck env rest)
      else c # interp_loop ck env cs)"
  by pat_completeness auto
termination
proof (relation "measure (\<lambda>(ck, env, s). length s)", goal_cases)
  case (3 ck env c cs x path rest)
  then show ?case using close_brace_length [of "tl cs" path rest] by (cases cs) auto
qed auto

definition interpolate :: "(bytes20 \<Rightarrow> string) \<Rightarrow> envmap \<Rightarrow> string \<Rightarrow> string" where
  "interpolate ck env s = (if \<not> has_hole s then s else interp_loop ck env s)"

definition Render :: "(bytes20 \<Rightarrow> string) \<Rightarrow> template \<Rightarrow> envmap \<Rightarrow> string \<times> string" where
  "Render ck t env = (interpolate ck env (tmTitle t), interpolate ck env (tmBody t))"

definition RenderAlert :: "(bytes20 \<Rightarrow> string) \<Rightarrow> template \<Rightarrow> alert \<Rightarrow> string \<times> string" where
  "RenderAlert ck t a = Render ck t (AlertEnv a)"

section \<open>Notifiers and the router\<close>

record log_line =
  llReceiver :: string
  llKind :: string
  llSeverity :: string
  llMonitor :: string
  llTitle :: string
  llBody :: string

record 'w sinks =
  skChecksum :: "bytes20 \<Rightarrow> string"
  skLog :: "log_line \<Rightarrow> 'w \<Rightarrow> 'w"
  skShoutrrr :: "string \<Rightarrow> string \<Rightarrow> 'w \<Rightarrow> err option \<times> 'w"
  skNow :: "'w \<Rightarrow> gotime"
  skObs :: "metric \<Rightarrow> 'w \<Rightarrow> 'w"

datatype notifier =
    LogNotifier string template
  | ShoutrrrNotifier string string template
  | Throttled string notifier duration gotime

definition env_at :: "envmap \<Rightarrow> string \<Rightarrow> goval" where
  "env_at env k = (case map_of env k of Some v \<Rightarrow> v | None \<Rightarrow> VNil)"

definition asString :: "(bytes20 \<Rightarrow> string) \<Rightarrow> goval \<Rightarrow> string" where
  "asString ck v = (if v = VNil then [] else sprint_v ck v)"

definition monitorID :: "(bytes20 \<Rightarrow> string) \<Rightarrow> envmap \<Rightarrow> string" where
  "monitorID ck env = (case env_at env ''monitor'' of VMap m \<Rightarrow> asString ck (env_at m ''id'') | _ \<Rightarrow> [])"

definition Log_SendEnv :: "'w sinks \<Rightarrow> string \<Rightarrow> template \<Rightarrow> envmap \<Rightarrow> 'w \<Rightarrow> err option \<times> 'w" where
  "Log_SendEnv sk rid tmpl env w =
     (case Render (skChecksum sk) tmpl env of (title, body) \<Rightarrow>
        (None,
         skLog sk \<lparr>llReceiver = rid, llKind = asString (skChecksum sk) (env_at env ''kind''),
           llSeverity = asString (skChecksum sk) (env_at env ''severity''),
           llMonitor = monitorID (skChecksum sk) env, llTitle = title, llBody = body\<rparr> w))"

definition Shoutrrr_SendEnv :: "'w sinks \<Rightarrow> string \<Rightarrow> string \<Rightarrow> template \<Rightarrow> envmap \<Rightarrow> 'w \<Rightarrow> err option \<times> 'w" where
  "Shoutrrr_SendEnv sk rid url tmpl env w =
     (case Render (skChecksum sk) tmpl env of (title, body) \<Rightarrow>
        (case skShoutrrr sk url (if title \<noteq> [] then title @ [CHR 0x0A] @ body else body) w of
           (Some e, w') \<Rightarrow> (Some (''shoutrrr '' @ rid @ '': '' @ e), w')
         | (None, w') \<Rightarrow> (None, w')))"

text \<open>A suppressed message is no error, and a message that fails to go out still counts as sent for
  the throttle.\<close>

fun SendEnv :: "'w sinks \<Rightarrow> notifier \<Rightarrow> envmap \<Rightarrow> 'w \<Rightarrow> err option \<times> notifier \<times> 'w" where
  "SendEnv sk (LogNotifier rid tmpl) env w =
     (case Log_SendEnv sk rid tmpl env w of (e, w') \<Rightarrow> (e, LogNotifier rid tmpl, w'))"
| "SendEnv sk (ShoutrrrNotifier rid url tmpl) env w =
     (case Shoutrrr_SendEnv sk rid url tmpl env w of (e, w') \<Rightarrow> (e, ShoutrrrNotifier rid url tmpl, w'))"
| "SendEnv sk (Throttled rid inner minInterval lastSent) env w =
     (let now = skNow sk w
      in if \<not> time_IsZero lastSent \<and> time_Sub now lastSent < minInterval
         then (None, Throttled rid inner minInterval lastSent, skObs sk (Inc AlertsThrottled [rid]) w)
         else (case SendEnv sk inner env w of
                 (e, inner', w') \<Rightarrow> (e, Throttled rid inner' minInterval now, w')))"

type_synonym router = "(string, notifier) gomap"

datatype send_err = UnknownReceiverErr string | NotifierErr err

definition Router_SendEnv ::
  "'w sinks \<Rightarrow> router \<Rightarrow> string \<Rightarrow> envmap \<Rightarrow> 'w \<Rightarrow> send_err option \<times> router \<times> 'w" where
  "Router_SendEnv sk r receiverID env w =
     (case map_of r receiverID of
        None \<Rightarrow> (Some (UnknownReceiverErr receiverID), r, w)
      | Some n \<Rightarrow>
          (case SendEnv sk n env w of
             (e, n', w') \<Rightarrow> (map_option NotifierErr e, gm_put receiverID n' r, w')))"

definition Router_Send :: "'w sinks \<Rightarrow> router \<Rightarrow> string \<Rightarrow> alert \<Rightarrow> 'w \<Rightarrow> send_err option \<times> router \<times> 'w" where
  "Router_Send sk r receiverID a w = Router_SendEnv sk r receiverID (AlertEnv a) w"

definition IDs :: "router \<Rightarrow> string list" where
  "IDs r = map fst r"

definition IsUnknownReceiver :: "send_err \<Rightarrow> bool" where
  "IsUnknownReceiver e = (case e of UnknownReceiverErr _ \<Rightarrow> True | NotifierErr _ \<Rightarrow> False)"

section \<open>Building the router\<close>

definition normalizeShoutrrrURL :: "string \<Rightarrow> string" where
  "normalizeShoutrrrURL u = TrimSpace u"

datatype router_err = UnsupportedType string string

definition build_notifier :: "receiver_cfg \<Rightarrow> router_err + notifier" where
  "build_notifier r =
     (let tmpl = \<lparr>tmTitle = rtTitle (rvTemplate r), tmBody = rtBody (rvTemplate r)\<rparr>;
          throttle = (\<lambda>n. case rvThrottle r of
            None \<Rightarrow> n
          | Some interval \<Rightarrow> if 0 < interval then Throttled (rvID r) n interval 0 else n)
      in if rvType r = ''log'' then Inr (throttle (LogNotifier (rvID r) tmpl))
         else if rvType r \<in> {''slack'', ''telegram'', ''discord'', ''pagerduty'', ''webhook'', ''generic''}
         then Inr (throttle (ShoutrrrNotifier (rvID r) (normalizeShoutrrrURL (rvURL r)) tmpl))
         else Inl (UnsupportedType (rvID r) (rvType r)))"

fun build_all :: "receiver_cfg list \<Rightarrow> router \<Rightarrow> router_err + router" where
  "build_all [] ns = Inr ns"
| "build_all (r # rs) ns =
     (case build_notifier r of Inl e \<Rightarrow> Inl e | Inr n \<Rightarrow> build_all rs (gm_put (rvID r) n ns))"

definition BuildRouter :: "receiver_cfg list \<Rightarrow> router_err + router" where
  "BuildRouter receivers = build_all receivers []"

section \<open>Templates as segments\<close>

text \<open>A template is literal text and holes; no literal contains the opening of a hole, no hole a closing
  brace, and no literal follows another.\<close>

datatype seg = Lit string | Hole string

fun unparse :: "seg \<Rightarrow> string" where
  "unparse (Lit s) = s"
| "unparse (Hole p) = [CHR ''$'', CHR 0x7B] @ p @ [CHR 0x7D]"

fun fill :: "(bytes20 \<Rightarrow> string) \<Rightarrow> envmap \<Rightarrow> seg \<Rightarrow> string" where
  "fill ck env (Lit s) = s"
| "fill ck env (Hole p) = lookup ck env p"

fun wf_segs :: "seg list \<Rightarrow> bool" where
  "wf_segs [] = True"
| "wf_segs (Lit s # segs) \<longleftrightarrow> \<not> has_hole s \<and> (case segs of Lit _ # _ \<Rightarrow> False | _ \<Rightarrow> True) \<and> wf_segs segs"
| "wf_segs (Hole p # segs) \<longleftrightarrow> CHR 0x7D \<notin> set p \<and> wf_segs segs"

lemma interp_literal:
  "\<not> has_hole s \<Longrightarrow> rest = [] \<or> hd rest \<noteq> CHR 0x7B \<Longrightarrow> interp_loop ck env (s @ rest) = s @ interp_loop ck env rest"
proof (induction s)
  case (Cons c s)
  then show ?case by (cases s; cases rest) auto
qed simp

lemma interpolate_loop: "interpolate ck env s = interp_loop ck env s"
  using interp_literal [of s "[]" ck env] by (simp add: interpolate_def)

lemma close_brace_hole: "CHR 0x7D \<notin> set p \<Longrightarrow> close_brace (p @ CHR 0x7D # rest) = Some (p, rest)"
  by (induction p) auto

lemma interp_segs: "wf_segs segs \<Longrightarrow> interp_loop ck env (concat (map unparse segs)) = concat (map (fill ck env) segs)"
proof (induction segs rule: wf_segs.induct)
  case (2 s segs)
  have "concat (map unparse segs) = [] \<or> hd (concat (map unparse segs)) \<noteq> CHR 0x7B"
    using 2(2) by (cases segs) (auto split: seg.splits)
  with 2 show ?case by (simp add: interp_literal)
next
  case (3 p segs)
  then show ?case by (simp add: close_brace_hole)
qed simp

section \<open>The throttle\<close>

text \<open>Messages sent one after the other, the clock moving between them.\<close>

fun send_all :: "'w sinks \<Rightarrow> notifier \<Rightarrow> (('w \<Rightarrow> 'w) \<times> envmap) list \<Rightarrow> 'w \<Rightarrow> notifier \<times> 'w" where
  "send_all sk n [] w = (n, w)"
| "send_all sk n ((tick, env) # jobs) w =
     (case SendEnv sk n env (tick w) of (e, n', w') \<Rightarrow> send_all sk n' jobs w')"

text \<open>A world of a clock and a log of what went out, and when.\<close>

type_synonym stamped = "gotime \<times> (gotime \<times> log_line) list"

definition stamping :: "stamped sinks" where
  "stamping = \<lparr>skChecksum = (\<lambda>a. []), skLog = (\<lambda>l (t, ls). (t, ls @ [(t, l)])),
     skShoutrrr = (\<lambda>u m w. (None, w)), skNow = fst, skObs = (\<lambda>m w. w)\<rparr>"

lemma stamping_now: "skNow stamping (t, ls) = t"
  by (simp add: stamping_def)

fun at_times :: "(gotime \<times> envmap) list \<Rightarrow> ((stamped \<Rightarrow> stamped) \<times> envmap) list" where
  "at_times [] = []"
| "at_times ((t, env) # jobs) = ((\<lambda>w. (t, snd w)), env) # at_times jobs"

text \<open>The times at which messages should go out: the first one, and each that is far enough from the
  last that went out.\<close>

fun spaced :: "duration \<Rightarrow> gotime option \<Rightarrow> gotime list \<Rightarrow> gotime list" where
  "spaced iv prev [] = []"
| "spaced iv prev (t # ts) =
     (case prev of
        Some l \<Rightarrow> if t - l < iv then spaced iv prev ts else t # spaced iv (Some t) ts
      | None \<Rightarrow> t # spaced iv (Some t) ts)"

lemma spaced_gap:
  "0 \<le> iv \<Longrightarrow> sorted_wrt (\<lambda>a b. iv \<le> b - a) (spaced iv prev ts) \<and>
     (\<forall>l. prev = Some l \<longrightarrow> (\<forall>t \<in> set (spaced iv prev ts). iv \<le> t - l))"
proof (induction iv prev ts rule: spaced.induct)
  case (2 iv prev t ts)
  show ?case
  proof (cases prev)
    case None
    with 2 show ?thesis by auto
  next
    case (Some l)
    show ?thesis
    proof (cases "t - l < iv")
      case True
      with 2 Some show ?thesis by simp
    next
      case False
      have IH: "sorted_wrt (\<lambda>a b. iv \<le> b - a) (spaced iv (Some t) ts)" "\<forall>x \<in> set (spaced iv (Some t) ts). iv \<le> x - t"
        using 2 Some False by auto
      moreover have "iv \<le> x - l" if "x \<in> set (spaced iv (Some t) ts)" for x
        using IH(2) that False 2(4) by fastforce
      ultimately show ?thesis using Some False by auto
    qed
  qed
qed simp

lemma throttled_send_all:
  assumes "0 < iv" "iv < 2 ^ 63" "list_all (\<lambda>(t, env). 0 < t) jobs"
    and "case prev of None \<Rightarrow> True | Some l \<Rightarrow> 0 < l"
  shows "map fst (snd (snd (send_all stamping
      (Throttled rid (LogNotifier rid tmpl) iv (case prev of None \<Rightarrow> 0 | Some l \<Rightarrow> l)) (at_times jobs) (t0, ls)))) =
    map fst ls @ spaced iv prev (map fst jobs)"
  using assms(3,4)
proof (induction jobs arbitrary: prev t0 ls)
  case (Cons job jobs)
  obtain t env where job: "job = (t, env)" by force
  with Cons.prems have t: "0 < t" "list_all (\<lambda>(t, env). 0 < t) jobs" by auto
  have sub: "time_Sub t l < iv \<longleftrightarrow> t - l < iv" for l
    using assms(1,2) by (intro time_Sub_less) auto
  have zero: "time_IsZero l \<longleftrightarrow> l = 0" for l by (simp add: time_IsZero_def)
  show ?case
  proof (cases "\<exists>l. prev = Some l \<and> t - l < iv")
    case True
    then obtain l where l: "prev = Some l" "t - l < iv" by blast
    with Cons.prems have "l \<noteq> 0" by simp
    with l show ?thesis
      using Cons.IH [OF t(2), of "Some l" t ls] Cons.prems by (simp add: job stamping_def sub zero Let_def)
  next
    case False
    then have go: "\<not> (\<not> time_IsZero (case prev of None \<Rightarrow> 0 | Some l \<Rightarrow> l) \<and>
        time_Sub t (case prev of None \<Rightarrow> 0 | Some l \<Rightarrow> l) < iv)"
      by (auto simp: sub zero split: option.splits)
    have sp: "spaced iv prev (t # map fst jobs) = t # spaced iv (Some t) (map fst jobs)"
      using False by (auto split: option.splits)
    obtain line where "SendEnv stamping (LogNotifier rid tmpl) env (t, ls) = (None, LogNotifier rid tmpl, (t, ls @ [(t, line)]))"
      by (cases "Render (skChecksum stamping) tmpl env") (simp add: stamping_def Log_SendEnv_def)
    then have "SendEnv stamping (Throttled rid (LogNotifier rid tmpl) iv (case prev of None \<Rightarrow> 0 | Some l \<Rightarrow> l)) env (t, ls) =
        (None, Throttled rid (LogNotifier rid tmpl) iv t, (t, ls @ [(t, line)]))"
      using go by (simp only: SendEnv.simps Let_def stamping_now if_False) simp
    with sp show ?thesis
      using Cons.IH [OF t(2), of "Some t" t "ls @ [(t, line)]"] t(1) by (simp add: job del: SendEnv.simps)
  qed
qed simp

section \<open>Properties\<close>

text \<open>
  C32. Templates: rendering the text of a template replaces each hole by the value of its path and
  leaves the literal text as it is, whatever characters it contains apart from the opening of a
  hole.
\<close>

theorem interpolate_segments:
  assumes "wf_segs segs"
  shows "interpolate ck env (concat (map unparse segs)) = concat (map (fill ck env) segs)"
  using assms by (simp add: interpolate_loop interp_segs)

theorem interpolate_segments_witness:
  "interpolate (\<lambda>a. []) [(''kind'', VString ''firing'')] ([CHR ''$'', CHR '' '', CHR ''$'', CHR ''$'', CHR 0x7B] @ ''kind'' @ [CHR 0x7D]) =
     ''$ $firing''"
  using interpolate_segments [of "[Lit ''$ $'', Hole ''kind'']" "\<lambda>a. []" "[(''kind'', VString ''firing'')]"]
  by (simp add: lookup_def)



end
