(* ===== verification/Reads.thy ===== *)
theory Reads
  imports Values
begin

text \<open>
  State reads (\<open>internal/reads/reader.go\<close>): the contract values attached to an event, read once per
  block and kept with those of the block read before. Keccak-256 and the contract call belong to
  go-ethereum and are parameters.
\<close>

section \<open>The model\<close>

record read_def =
  dfName :: string
  dfMethod :: string
  dfOutput :: string

text \<open>\<open>None\<close> is the nil map.\<close>

record state_reader =
  srMonitorID :: string
  srAddress :: bytes20
  srDefs :: "read_def list"
  srLatestBlock :: u64
  srLatest :: "envmap option"
  srPrev :: "envmap option"

record 'w call_client =
  ccKeccak256 :: "bytes \<Rightarrow> bytes"
  ccCallContract :: "bytes20 \<Rightarrow> bytes \<Rightarrow> u64 \<Rightarrow> 'w \<Rightarrow> (err + bytes) \<times> 'w"

definition decodeReturn :: "string \<Rightarrow> bytes \<Rightarrow> err + goval" where
  "decodeReturn outputType data =
     (if length data < 32 then Inl (''short return: '' @ dec_nat (length data) @ '' bytes'')
      else if outputType = ''bool'' then Inr (VBool (data ! 31 \<noteq> 0))
      else if outputType = ''address'' then Inr (VString (''0x'' @ hex_encode (take 20 (drop 12 data))))
      else if outputType = ''uint256'' then Inr (VFloat (f64_of_int (int (be_nat (take 32 data)))))
      else if outputType = ''bytes32'' then Inr (VString (''0x'' @ hex_encode (take 32 data)))
      else Inl (''unsupported output type '' @ outputType))"

definition read_call :: "'w call_client \<Rightarrow> state_reader \<Rightarrow> read_def \<Rightarrow> u64 \<Rightarrow> 'w \<Rightarrow> (err + goval) \<times> 'w" where
  "read_call cl r d block w =
     (let selector = take 4 (ccKeccak256 cl (string_bytes (dfMethod d)))
      in (case ccCallContract cl (srAddress r) selector block w of
            (Inl e, w') \<Rightarrow> (Inl e, w')
          | (Inr data, w') \<Rightarrow> (decodeReturn (dfOutput d) data, w')))"

text \<open>A read that fails is logged and left out of the state.\<close>

fun read_all :: "'w call_client \<Rightarrow> state_reader \<Rightarrow> u64 \<Rightarrow> read_def list \<Rightarrow> envmap \<Rightarrow> 'w \<Rightarrow> envmap \<times> 'w" where
  "read_all cl r block [] st w = (st, w)"
| "read_all cl r block (d # ds) st w =
     (case read_call cl r d block w of
        (Inl e, w') \<Rightarrow> read_all cl r block ds st w'
      | (Inr v, w') \<Rightarrow> read_all cl r block ds (gm_put (dfName d) v st) w')"

definition Enrich :: "'w call_client \<Rightarrow> state_reader \<Rightarrow> event \<Rightarrow> 'w \<Rightarrow> state_reader \<times> event \<times> 'w" where
  "Enrich cl r ev w =
     (if srDefs r = [] then (r, ev, w)
      else
        (let blockNum = bNumber (lBlock (eLog ev));
             (r', w') = (if srLatest r = None \<or> srLatestBlock r < blockNum
               then (case read_all cl r blockNum (srDefs r) [] w of
                       (newState, w1) \<Rightarrow>
                         (r\<lparr>srPrev := srLatest r, srLatest := Some newState, srLatestBlock := blockNum\<rparr>, w1))
               else (r, w))
         in (r', ev\<lparr>eState := srLatest r', ePrevState := srPrev r'\<rparr>, w')))"

section \<open>Reading block after block\<close>

fun enrich_all :: "'w call_client \<Rightarrow> state_reader \<Rightarrow> event list \<Rightarrow> 'w \<Rightarrow> event list \<times> state_reader \<times> 'w" where
  "enrich_all cl r [] w = ([], r, w)"
| "enrich_all cl r (ev # evs) w =
     (case Enrich cl r ev w of (r', ev', w') \<Rightarrow>
        (case enrich_all cl r' evs w' of (evs', r'', w'') \<Rightarrow> (ev' # evs', r'', w'')))"

text \<open>A node whose answers depend on the block only, and the state it has at a block.\<close>

definition steady :: "'w call_client \<Rightarrow> (bytes20 \<Rightarrow> bytes \<Rightarrow> u64 \<Rightarrow> err + bytes) \<Rightarrow> bool" where
  "steady cl answer \<longleftrightarrow> (\<forall>a s b w. ccCallContract cl a s b w = (answer a s b, w))"

definition value_at :: "'w call_client \<Rightarrow> (bytes20 \<Rightarrow> bytes \<Rightarrow> u64 \<Rightarrow> err + bytes) \<Rightarrow> bytes20 \<Rightarrow> u64 \<Rightarrow> read_def \<Rightarrow> err + goval" where
  "value_at cl answer addr n d =
     (case answer addr (take 4 (ccKeccak256 cl (string_bytes (dfMethod d)))) n of
        Inl e \<Rightarrow> Inl e | Inr data \<Rightarrow> decodeReturn (dfOutput d) data)"

definition state_at ::
  "'w call_client \<Rightarrow> (bytes20 \<Rightarrow> bytes \<Rightarrow> u64 \<Rightarrow> err + bytes) \<Rightarrow> bytes20 \<Rightarrow> read_def list \<Rightarrow> u64 \<Rightarrow> envmap" where
  "state_at cl answer addr ds n =
     fold (\<lambda>d st. case value_at cl answer addr n d of Inl e \<Rightarrow> st | Inr v \<Rightarrow> gm_put (dfName d) v st) ds []"

lemma read_all_steady:
  assumes "steady cl answer"
  shows "read_all cl r n ds st w =
    (fold (\<lambda>d st. case value_at cl answer (srAddress r) n d of Inl e \<Rightarrow> st | Inr v \<Rightarrow> gm_put (dfName d) v st) ds st, w)"
proof (induction ds arbitrary: st)
  case (Cons d ds)
  have "read_call cl r d n w = (value_at cl answer (srAddress r) n d, w)"
    using assms by (simp add: read_call_def value_at_def steady_def Let_def split: sum.splits)
  with Cons show ?case by (simp split: sum.splits)
qed simp

abbreviation ev_block :: "event \<Rightarrow> u64" where
  "ev_block ev \<equiv> bNumber (lBlock (eLog ev))"

text \<open>The block read before the one of an event, given the block read last.\<close>

fun prev_blocks :: "u64 option \<Rightarrow> u64 option \<Rightarrow> u64 list \<Rightarrow> u64 option list" where
  "prev_blocks p l [] = []"
| "prev_blocks p l (n # ns) =
     (if l = None \<or> the l < n then l # prev_blocks l (Some n) ns else p # prev_blocks p l ns)"

lemma enrich_all_steady:
  assumes "steady cl answer" "srDefs r \<noteq> []"
    and "srLatest r = map_option (state_at cl answer (srAddress r) (srDefs r)) l"
    and "srPrev r = map_option (state_at cl answer (srAddress r) (srDefs r)) p"
    and "\<forall>n. l = Some n \<longrightarrow> srLatestBlock r = n" "\<forall>n \<in> set (map ev_block evs). \<forall>k. l = Some k \<longrightarrow> k \<le> n"
    and "sorted (map ev_block evs)"
  shows "map eState (fst (enrich_all cl r evs w)) = map (\<lambda>ev. Some (state_at cl answer (srAddress r) (srDefs r) (ev_block ev))) evs \<and>
    map ePrevState (fst (enrich_all cl r evs w)) =
      map (map_option (state_at cl answer (srAddress r) (srDefs r))) (prev_blocks p l (map ev_block evs))"
  using assms(2-)
proof (induction evs arbitrary: r l p w)
  case (Cons ev evs)
  let ?st = "state_at cl answer (srAddress r) (srDefs r)"
  let ?n = "ev_block ev"
  have ge: "\<forall>n \<in> set (map ev_block evs). ?n \<le> n" and srt: "sorted (map ev_block evs)" using Cons.prems(6) by auto
  show ?case
  proof (cases "l = None \<or> the l < ?n")
    case True
    let ?r = "r\<lparr>srPrev := srLatest r, srLatest := Some (?st ?n), srLatestBlock := ?n\<rparr>"
    have "srLatest r = None \<or> srLatestBlock r < ?n" using True Cons.prems(2,4) by (cases l) auto
    then have e: "Enrich cl r ev w = (?r, ev\<lparr>eState := Some (?st ?n), ePrevState := srLatest r\<rparr>, w)"
      using Cons.prems(1) by (simp add: Enrich_def read_all_steady [OF assms(1)] state_at_def Let_def)
    show ?thesis
      using Cons.IH [of ?r "Some ?n" l w] Cons.prems(1,2) ge srt True e by (simp add: split_beta)
  next
    case False
    then obtain k where k: "l = Some k" "\<not> k < ?n" by auto
    with Cons.prems(5) have kn: "k = ?n" by auto
    have e: "Enrich cl r ev w = (r, ev\<lparr>eState := srLatest r, ePrevState := srPrev r\<rparr>, w)"
      using k kn Cons.prems(1,2,4) by (simp add: Enrich_def Let_def)
    show ?thesis
      using Cons.IH [of r l p w] Cons.prems(1-4) ge srt k kn e by (simp add: split_beta)
  qed
qed simp

section \<open>Properties\<close>

text \<open>
  C33. On events that come in order of their blocks, a reader attaches to every event the state at
  the event's own block, whichever events came before, and as previous state the one at the last
  lower block that had an event; the first block has none.
\<close>

theorem enrich_in_order:
  assumes "steady cl answer" "srDefs r \<noteq> []" "srLatest r = None" "srPrev r = None"
    and "sorted (map ev_block evs)"
  shows "map eState (fst (enrich_all cl r evs w)) =
      map (\<lambda>ev. Some (state_at cl answer (srAddress r) (srDefs r) (ev_block ev))) evs \<and>
    map ePrevState (fst (enrich_all cl r evs w)) =
      map (map_option (state_at cl answer (srAddress r) (srDefs r))) (prev_blocks None None (map ev_block evs))"
  using assms by (intro enrich_all_steady) auto

definition ex_reads :: state_reader where
  "ex_reads = \<lparr>srMonitorID = ''m'', srAddress = 5, srDefs = [\<lparr>dfName = ''paused'', dfMethod = ''paused()'', dfOutput = ''bool''\<rparr>],
     srLatestBlock = 0, srLatest = None, srPrev = None\<rparr>"

definition ex_answer :: "bytes20 \<Rightarrow> bytes \<Rightarrow> u64 \<Rightarrow> err + bytes" where
  "ex_answer a sel n = Inr (replicate 31 0 @ [if n < 8 then 0 else 1])"

definition ex_calls :: "unit call_client" where
  "ex_calls = \<lparr>ccKeccak256 = (\<lambda>b. [1, 2, 3, 4, 5]), ccCallContract = (\<lambda>a s n w. (ex_answer a s n, w))\<rparr>"

definition ex_ev :: "u64 \<Rightarrow> bytes32 \<Rightarrow> event" where
  "ex_ev n h = \<lparr>eLog = \<lparr>lChain = ''op'', lBlock = \<lparr>bChain = ''op'', bNumber = n, bHash = h, bParentHash = 0, bTime = 0\<rparr>,
     lTxHash = 1, lTxIndex = 0, lLogIndex = 0, lAddress = 5, lTopics = [], lData = []\<rparr>, eMonitorID = ''m'',
     eName = ''Paused'', eParams = [], eState = None, ePrevState = None, eConfirmation = []\<rparr>"

lemma ex_state: "state_at ex_calls ex_answer 5 (srDefs ex_reads) n = [(''paused'', VBool (\<not> n < 8))]"
  by (simp add: state_at_def value_at_def ex_answer_def ex_reads_def decodeReturn_def gm_put_def nth_append)

theorem enrich_in_order_witness:
  "map ePrevState (fst (enrich_all ex_calls ex_reads [ex_ev 7 1, ex_ev 9 2, ex_ev 9 2] ())) =
     [None, Some [(''paused'', VBool False)], Some [(''paused'', VBool False)]]"
proof -
  have "steady ex_calls ex_answer" by (simp add: steady_def ex_calls_def)
  moreover have "srDefs ex_reads \<noteq> []" "srLatest ex_reads = None" "srPrev ex_reads = None" "srAddress ex_reads = 5"
    by (simp_all add: ex_reads_def)
  ultimately show ?thesis
    using enrich_in_order [of ex_calls ex_answer ex_reads "[ex_ev 7 1, ex_ev 9 2, ex_ev 9 2]" "()"]
    by (simp add: ex_ev_def ex_state)
qed

text \<open>
  The cache is keyed by block number alone: once a block was read, an event of that number or a
  lower one gets the cached state without a call, whatever block it belongs to. After a
  reorganisation the events of the replacing blocks are judged on the state of the reverted ones.
\<close>

theorem enrich_ignores_reorg:
  assumes "srDefs r \<noteq> []" "Enrich cl r ev w = (r1, ev1, w1)"
    and "ev_block ev' \<le> ev_block ev" "srLatestBlock r \<le> ev_block ev"
  shows "Enrich cl r1 ev' w' = (r1, ev'\<lparr>eState := eState ev1, ePrevState := ePrevState ev1\<rparr>, w')"
proof -
  have "srLatest r1 \<noteq> None \<and> srLatestBlock r1 = ev_block ev \<and> srDefs r1 = srDefs r \<and>
      eState ev1 = srLatest r1 \<and> ePrevState ev1 = srPrev r1"
    using assms by (auto simp: Enrich_def Let_def split: prod.splits if_splits)
  with assms(1,3) show ?thesis by (auto simp: Enrich_def Let_def)
qed

theorem enrich_ignores_reorg_witness:
  "\<exists>r ev. Enrich ex_calls ex_reads (ex_ev 9 1) () = (r, ev, ()) \<and>
     Enrich ex_calls r (ex_ev 9 2) () = (r, (ex_ev 9 2)\<lparr>eState := eState ev, ePrevState := ePrevState ev\<rparr>, ())"
proof -
  obtain r ev where e: "Enrich ex_calls ex_reads (ex_ev 9 1) () = (r, ev, ())"
    by (metis prod_cases3 old.unit.exhaust)
  have "srDefs ex_reads \<noteq> []" "srLatestBlock ex_reads \<le> ev_block (ex_ev 9 1)" "ev_block (ex_ev 9 2) \<le> ev_block (ex_ev 9 1)"
    by (simp_all add: ex_reads_def ex_ev_def)
  with enrich_ignores_reorg [OF _ e] e show ?thesis by blast
qed

end
