(* ===== verification/Json_Decode.thy ===== *)
theory Json_Decode
  imports Config
begin

text \<open>
  \<open>json.Unmarshal\<close> of \<open>encoding/json\<close> into a struct whose fields are strings and \<open>json.RawMessage\<close>s, as the
  ABI fetchers of \<open>internal/decode\<close> use it: the scanner that first checks the whole text, one step per
  byte over a stack of open objects and arrays, and the decoder that then walks the members of the
  object. A text is a sequence of bytes, a Go string.
\<close>

section \<open>The scanner\<close>

datatype parse_frame = ParseObjectKey | ParseObjectValue | ParseArrayValue

datatype scan_state =
    BeginValue
  | BeginValueOrEmpty
  | BeginStringOrEmpty
  | BeginString
  | EndValue
  | EndTop
  | InString
  | InStringEsc
  | InStringEscU nat
  | InNeg
  | Num1
  | Num0
  | InDot
  | Dot0
  | InE
  | ESign
  | E0
  | InLit string

type_synonym scanner = "scan_state \<times> parse_frame list"

definition json_space :: "char \<Rightarrow> bool" where
  "json_space c \<longleftrightarrow> c \<in> {CHR 0x20, CHR 0x09, CHR 0x0A, CHR 0x0D}"

definition pop_frame :: "parse_frame list \<Rightarrow> scanner" where
  "pop_frame stack = (if stack = [] then EndTop else EndValue, stack)"

definition end_value :: "parse_frame list \<Rightarrow> char \<Rightarrow> scanner option" where
  "end_value stack c =
     (case stack of
        [] \<Rightarrow> if json_space c then Some (EndTop, []) else None
      | f # fs \<Rightarrow>
          (if json_space c then Some (EndValue, stack)
           else (case f of
                   ParseObjectKey \<Rightarrow> if c = CHR '':'' then Some (BeginValue, ParseObjectValue # fs) else None
                 | ParseObjectValue \<Rightarrow>
                     if c = CHR '','' then Some (BeginString, ParseObjectKey # fs)
                     else if c = CHR ''}'' then Some (pop_frame fs) else None
                 | ParseArrayValue \<Rightarrow>
                     if c = CHR '','' then Some (BeginValue, stack)
                     else if c = CHR '']'' then Some (pop_frame fs) else None)))"

definition push_frame :: "nat \<Rightarrow> scan_state \<Rightarrow> parse_frame list \<Rightarrow> scanner option" where
  "push_frame depth st stack = (if length stack \<le> depth then Some (st, stack) else None)"

definition begin_value :: "nat \<Rightarrow> parse_frame list \<Rightarrow> char \<Rightarrow> scanner option" where
  "begin_value depth stack c =
     (if json_space c then Some (BeginValue, stack)
      else if c = CHR ''{'' then push_frame depth BeginStringOrEmpty (ParseObjectKey # stack)
      else if c = CHR ''['' then push_frame depth BeginValueOrEmpty (ParseArrayValue # stack)
      else if c = CHR 0x22 then Some (InString, stack)
      else if c = CHR ''-'' then Some (InNeg, stack)
      else if c = CHR ''0'' then Some (Num0, stack)
      else if c = CHR ''t'' then Some (InLit ''rue'', stack)
      else if c = CHR ''f'' then Some (InLit ''alse'', stack)
      else if c = CHR ''n'' then Some (InLit ''ull'', stack)
      else if is_digit c then Some (Num1, stack)
      else None)"

definition begin_string :: "parse_frame list \<Rightarrow> char \<Rightarrow> scanner option" where
  "begin_string stack c =
     (if json_space c then Some (BeginString, stack) else if c = CHR 0x22 then Some (InString, stack) else None)"

definition exponent :: "char \<Rightarrow> bool" where
  "exponent c \<longleftrightarrow> c = CHR ''e'' \<or> c = CHR ''E''"

definition num0 :: "parse_frame list \<Rightarrow> char \<Rightarrow> scanner option" where
  "num0 stack c = (if c = CHR ''.'' then Some (InDot, stack) else if exponent c then Some (InE, stack) else end_value stack c)"

definition exp_digit :: "parse_frame list \<Rightarrow> char \<Rightarrow> scanner option" where
  "exp_digit stack c = (if is_digit c then Some (E0, stack) else None)"

text \<open>One byte; \<open>None\<close> is the syntax error. \<open>depth\<close> is the limit of nesting.\<close>

fun scan_step :: "nat \<Rightarrow> scanner \<Rightarrow> char \<Rightarrow> scanner option" where
  "scan_step depth (BeginValue, stack) c = begin_value depth stack c"
| "scan_step depth (BeginValueOrEmpty, stack) c =
     (if json_space c then Some (BeginValueOrEmpty, stack) else if c = CHR '']'' then end_value stack c
      else begin_value depth stack c)"
| "scan_step depth (BeginStringOrEmpty, stack) c =
     (if json_space c then Some (BeginStringOrEmpty, stack)
      else if c = CHR ''}'' then end_value (ParseObjectValue # tl stack) c
      else begin_string stack c)"
| "scan_step depth (BeginString, stack) c = begin_string stack c"
| "scan_step depth (EndValue, stack) c = end_value stack c"
| "scan_step depth (EndTop, stack) c = (if json_space c then Some (EndTop, stack) else None)"
| "scan_step depth (InString, stack) c =
     (if c = CHR 0x22 then Some (EndValue, stack) else if c = CHR 0x5C then Some (InStringEsc, stack)
      else if of_char c < (32 :: nat) then None else Some (InString, stack))"
| "scan_step depth (InStringEsc, stack) c =
     (if c \<in> {CHR ''b'', CHR ''f'', CHR ''n'', CHR ''r'', CHR ''t'', CHR 0x5C, CHR ''/'', CHR 0x22} then Some (InString, stack)
      else if c = CHR ''u'' then Some (InStringEscU 3, stack) else None)"
| "scan_step depth (InStringEscU n, stack) c =
     (if is_hex_char c then Some (if n = 0 then InString else InStringEscU (n - 1), stack) else None)"
| "scan_step depth (InNeg, stack) c =
     (if c = CHR ''0'' then Some (Num0, stack) else if is_digit c then Some (Num1, stack) else None)"
| "scan_step depth (Num1, stack) c = (if is_digit c then Some (Num1, stack) else num0 stack c)"
| "scan_step depth (Num0, stack) c = num0 stack c"
| "scan_step depth (InDot, stack) c = (if is_digit c then Some (Dot0, stack) else None)"
| "scan_step depth (Dot0, stack) c =
     (if is_digit c then Some (Dot0, stack) else if exponent c then Some (InE, stack) else end_value stack c)"
| "scan_step depth (InE, stack) c =
     (if c = CHR ''+'' \<or> c = CHR ''-'' then Some (ESign, stack) else exp_digit stack c)"
| "scan_step depth (ESign, stack) c = exp_digit stack c"
| "scan_step depth (E0, stack) c = (if is_digit c then Some (E0, stack) else end_value stack c)"
| "scan_step depth (InLit rest, stack) c =
     (case rest of
        [] \<Rightarrow> end_value stack c
      | r # rs \<Rightarrow> if c = r then Some (if rs = [] then EndValue else InLit rs, stack) else None)"

primrec scan_run :: "nat \<Rightarrow> scanner \<Rightarrow> string \<Rightarrow> scanner option" where
  "scan_run depth sc [] = Some sc"
| "scan_run depth sc (c # cs) = (case scan_step depth sc c of None \<Rightarrow> None | Some sc' \<Rightarrow> scan_run depth sc' cs)"

text \<open>\<open>scanner.eof\<close>: a space ends a pending number or value.\<close>

definition scan_eof :: "nat \<Rightarrow> scanner \<Rightarrow> bool" where
  "scan_eof depth sc \<longleftrightarrow>
     fst sc = EndTop \<or> (case scan_step depth sc (CHR '' '') of None \<Rightarrow> False | Some sc' \<Rightarrow> fst sc' = EndTop)"

definition valid_json :: "nat \<Rightarrow> string \<Rightarrow> bool" where
  "valid_json depth s \<longleftrightarrow>
     (case scan_run depth (BeginValue, []) s of None \<Rightarrow> False | Some sc \<Rightarrow> scan_eof depth sc)"

definition maxNestingDepth :: nat where
  "maxNestingDepth = 10000"

definition checkValid :: "string \<Rightarrow> bool" where
  "checkValid = valid_json maxNestingDepth"

section \<open>The text of a value\<close>

text \<open>\<open>decodeState.skip\<close>: up to the byte after which fewer than \<open>open_frames\<close> objects and arrays are open.\<close>

primrec skip :: "nat \<Rightarrow> nat \<Rightarrow> scanner \<Rightarrow> string \<Rightarrow> (string \<times> string) option" where
  "skip depth open_frames sc [] = None"
| "skip depth open_frames sc (c # cs) =
     (case scan_step depth sc c of
        None \<Rightarrow> None
      | Some sc' \<Rightarrow>
          if length (snd sc') < open_frames then Some ([c], cs)
          else map_option (apfst (Cons c)) (skip depth open_frames sc' cs))"

text \<open>The rest of a string literal with its closing quote, and what follows.\<close>

fun string_literal :: "string \<Rightarrow> string \<times> string" where
  "string_literal [] = ([], [])"
| "string_literal (c # cs) =
     (if c = CHR 0x22 then ([c], cs)
      else if c = CHR 0x5C then
        (case cs of [] \<Rightarrow> ([c], []) | e # es \<Rightarrow> apfst (\<lambda>t. c # e # t) (string_literal es))
      else apfst (Cons c) (string_literal cs))"

definition number_char :: "char \<Rightarrow> bool" where
  "number_char c \<longleftrightarrow> is_digit c \<or> c \<in> {CHR ''.'', CHR ''e'', CHR ''E'', CHR ''+'', CHR ''-''}"

fun rescanLiteral :: "string \<Rightarrow> string \<times> string" where
  "rescanLiteral [] = ([], [])"
| "rescanLiteral (c # cs) =
     (if c = CHR 0x22 then apfst (Cons c) (string_literal cs)
      else if is_digit c \<or> c = CHR ''-'' then (c # takeWhile number_char cs, dropWhile number_char cs)
      else if c = CHR ''t'' \<or> c = CHR ''n'' then (c # take 3 cs, drop 3 cs)
      else if c = CHR ''f'' then (c # take 4 cs, drop 4 cs)
      else ([c], cs))"

definition opens :: "char \<Rightarrow> bool" where
  "opens c \<longleftrightarrow> c = CHR ''{'' \<or> c = CHR ''[''"

text \<open>The text of a member's value, which is read with the object on the stack.\<close>

fun value_text :: "string \<Rightarrow> (string \<times> string) option" where
  "value_text [] = None"
| "value_text (c # cs) =
     (if opens c then
        (case scan_step maxNestingDepth (BeginValue, [ParseObjectValue]) c of
           None \<Rightarrow> None
         | Some sc \<Rightarrow> map_option (apfst (Cons c)) (skip maxNestingDepth 2 sc cs))
      else Some (rescanLiteral (c # cs)))"

lemma skip_length: "skip depth k sc s = Some (t, rest) \<Longrightarrow> length rest < length s"
proof (induction s arbitrary: sc t)
  case (Cons c cs)
  then obtain sc' where st: "scan_step depth sc c = Some sc'" by (cases "scan_step depth sc c") auto
  show ?case
  proof (cases "length (snd sc') < k")
    case True
    then show ?thesis using Cons.prems by (simp add: st)
  next
    case False
    with Cons.prems obtain t' where "skip depth k sc' cs = Some (t', rest)" by (auto simp: st)
    then show ?thesis using Cons.IH by (simp add: less_Suc_eq)
  qed
qed simp

lemma string_literal_length: "length (snd (string_literal s)) \<le> length s"
proof (induction s rule: string_literal.induct)
  case (2 c cs)
  then show ?case
    by (cases cs) (auto simp: string_literal.simps(2) [of c] simp del: string_literal.simps)
qed simp

lemma rescanLiteral_length: "s \<noteq> [] \<Longrightarrow> length (snd (rescanLiteral s)) < length s"
  using string_literal_length [of "tl s"] length_dropWhile_le [of number_char "tl s"]
  by (cases s) (auto simp: le_imp_less_Suc)

lemma value_text_length: "value_text s = Some (t, rest) \<Longrightarrow> length rest < length s"
proof (cases s)
  case (Cons c cs)
  assume "value_text s = Some (t, rest)"
  then show ?thesis
    using rescanLiteral_length [of s] Cons
    by (cases "scan_step maxNestingDepth (BeginValue, [ParseObjectValue]) c")
       (auto split: if_splits simp: less_Suc_eq simp del: rescanLiteral.simps scan_step.simps dest: skip_length)
qed simp

section \<open>Strings\<close>

definition hex_val :: "char \<Rightarrow> nat" where
  "hex_val c = (let n = of_char c in if n \<le> 57 then n - 48 else if n \<le> 70 then n - 55 else n - 87)"

text \<open>The code unit after a backslash and \<open>u\<close>.\<close>

definition getu4 :: "string \<Rightarrow> nat option" where
  "getu4 s =
     (let ds = take 4 (drop 2 s)
      in if 6 \<le> length s \<and> take 2 s = [CHR 0x5C, CHR ''u''] \<and> list_all is_hex_char ds
         then Some (foldl (\<lambda>n c. n * 16 + hex_val c) 0 ds) else None)"

definition is_surrogate :: "nat \<Rightarrow> bool" where
  "is_surrogate r \<longleftrightarrow> 0xD800 \<le> r \<and> r < 0xE000"

text \<open>\<open>utf16.DecodeRune\<close>, where \<open>None\<close> is the replacement character.\<close>

definition surrogate_pair :: "nat \<Rightarrow> nat \<Rightarrow> nat option" where
  "surrogate_pair r1 r2 =
     (if 0xD800 \<le> r1 \<and> r1 < 0xDC00 \<and> 0xDC00 \<le> r2 \<and> r2 < 0xE000
      then Some ((r1 - 0xD800) * 0x400 + (r2 - 0xDC00) + 0x10000) else None)"

definition EncodeRune :: "nat \<Rightarrow> string" where
  "EncodeRune r =
     map char_of
       (if r < 0x80 then [r]
        else if r < 0x800 then [0xC0 + r div 64, 0x80 + r mod 64]
        else if r < 0x10000 then [0xE0 + r div 4096, 0x80 + r div 64 mod 64, 0x80 + r mod 64]
        else [0xF0 + r div 262144, 0x80 + r div 4096 mod 64, 0x80 + r div 64 mod 64, 0x80 + r mod 64])"

definition replacement :: string where
  "replacement = EncodeRune 0xFFFD"

text \<open>The length of the rune at the start of a string in UTF-8, 0 when it is not valid.\<close>

definition rune_len :: "string \<Rightarrow> nat" where
  "rune_len s =
     (case s of
        [] \<Rightarrow> 0
      | c # cs \<Rightarrow>
          (let n = of_char c :: nat; tail = (\<lambda>k. k \<le> length cs \<and> list_all (char_in 0x80 0xBF) (take k cs));
               second = (\<lambda>lo hi. cs \<noteq> [] \<and> char_in lo hi (hd cs))
           in if n < 0x80 then 1
              else if 0xC2 \<le> n \<and> n \<le> 0xDF then (if tail 1 then 2 else 0)
              else if 0xE0 \<le> n \<and> n \<le> 0xEF then
                (if tail 2 \<and> (n = 0xE0 \<longrightarrow> second 0xA0 0xBF) \<and> (n = 0xED \<longrightarrow> second 0x80 0x9F) then 3 else 0)
              else if 0xF0 \<le> n \<and> n \<le> 0xF4 then
                (if tail 3 \<and> (n = 0xF0 \<longrightarrow> second 0x90 0xBF) \<and> (n = 0xF4 \<longrightarrow> second 0x80 0x8F) then 4 else 0)
              else 0))"

definition json_escape :: "char \<Rightarrow> char option" where
  "json_escape e =
     map_of [(CHR 0x22, CHR 0x22), (CHR 0x5C, CHR 0x5C), (CHR ''/'', CHR ''/''), (CHR 0x27, CHR 0x27), (CHR ''b'', CHR 0x08),
       (CHR ''f'', CHR 0x0C), (CHR ''n'', CHR 0x0A), (CHR ''r'', CHR 0x0D), (CHR ''t'', CHR 0x09)] e"

text \<open>\<open>unquoteBytes\<close> between the quotes.\<close>

function unquote :: "string \<Rightarrow> string option" where
  "unquote [] = Some []"
| "unquote (c # cs) =
     (if c = CHR 0x5C then
        (case cs of
           [] \<Rightarrow> None
         | e # es \<Rightarrow>
             (case json_escape e of
                Some x \<Rightarrow> map_option (Cons x) (unquote es)
              | None \<Rightarrow>
                  (case getu4 (c # cs) of
                     None \<Rightarrow> None
                   | Some rr \<Rightarrow>
                       (let after = drop 5 cs
                        in if is_surrogate rr then
                             (case Option.bind (getu4 after) (surrogate_pair rr) of
                                Some dec \<Rightarrow> map_option (append (EncodeRune dec)) (unquote (drop 6 after))
                              | None \<Rightarrow> map_option (append replacement) (unquote after))
                           else map_option (append (EncodeRune rr)) (unquote after)))))
      else if c = CHR 0x22 \<or> of_char c < (32 :: nat) then None
      else (let n = rune_len (c # cs)
            in if n = 0 then map_option (append replacement) (unquote cs)
               else map_option (append (take n (c # cs))) (unquote (drop (n - 1) cs))))"
  by pat_completeness auto
termination
  by (relation "measure length") auto

declare unquote.simps(2) [simp del]

section \<open>The decoder\<close>

datatype json_err = SyntaxError | UnmarshalTypeError | PhasePanic

datatype field_kind = RawMessage | StringField

text \<open>
  \<open>foldName\<close>: upper case. Outside ASCII, the long s and the Kelvin sign are the only runes that fold
  into ASCII, where the field names are.
\<close>

function foldName :: "string \<Rightarrow> string" where
  "foldName [] = []"
| "foldName (c # cs) =
     (if c = CHR 0xC5 \<and> take 1 cs = [CHR 0xBF] then CHR ''S'' # foldName (drop 1 cs)
      else if c = CHR 0xE2 \<and> take 2 cs = [CHR 0x84, CHR 0xAA] then CHR ''K'' # foldName (drop 2 cs)
      else (if is_lower c then char_of (of_char c - 32 :: nat) else c) # foldName cs)"
  by pat_completeness auto
termination
  by (relation "measure length") auto

type_synonym schema = "(string \<times> field_kind) list"

definition find_field :: "schema \<Rightarrow> string \<Rightarrow> (string \<times> field_kind) option" where
  "find_field fds key =
     (case List.find (\<lambda>(n, k). n = key) fds of
        Some f \<Rightarrow> Some f
      | None \<Rightarrow> List.find (\<lambda>(n, k). foldName n = foldName key) fds)"

text \<open>The contents of a quoted literal.\<close>

definition inner :: "string \<Rightarrow> string" where
  "inner item = butlast (tl item)"

text \<open>What a value makes of a field that holds \<open>old\<close>: \<open>null\<close> is raw text for a raw field and no change of a string.\<close>

definition store_value :: "field_kind \<Rightarrow> string \<Rightarrow> string \<Rightarrow> json_err + string" where
  "store_value kind old raw =
     (case kind of
        RawMessage \<Rightarrow> Inr raw
      | StringField \<Rightarrow>
          (if hd raw = CHR ''n'' then Inr old
           else if hd raw = CHR 0x22 then (case unquote (inner raw) of None \<Rightarrow> Inl PhasePanic | Some s \<Rightarrow> Inr s)
           else Inl UnmarshalTypeError))"

text \<open>The first error is saved and decoding goes on. A panic is an error of its own kind.\<close>

type_synonym decoded = "json_err option \<times> (string \<Rightarrow> string)"

definition decode_member :: "schema \<Rightarrow> decoded \<Rightarrow> string \<Rightarrow> string \<Rightarrow> decoded" where
  "decode_member fds d key raw =
     (case find_field fds key of
        None \<Rightarrow> d
      | Some (n, kind) \<Rightarrow>
          (case store_value kind (snd d n) raw of
             Inl e \<Rightarrow> (case fst d of None \<Rightarrow> Some e | Some e' \<Rightarrow> Some e', snd d)
           | Inr v \<Rightarrow> (fst d, (snd d)(n := v))))"

definition starts :: "char \<Rightarrow> string \<Rightarrow> bool" where
  "starts c s \<longleftrightarrow> s \<noteq> [] \<and> hd s = c"

abbreviation skip_space :: "string \<Rightarrow> string" where
  "skip_space \<equiv> dropWhile json_space"

text \<open>One member: its key, the text of its value, and the rest.\<close>

definition json_member :: "string \<Rightarrow> (string \<times> string \<times> string) option" where
  "json_member s =
     (if \<not> starts (CHR 0x22) s then None
      else (case rescanLiteral s of
              (item, s1) \<Rightarrow>
                (case unquote (inner item) of
                   None \<Rightarrow> None
                 | Some key \<Rightarrow>
                     (if \<not> starts (CHR '':'') (skip_space s1) then None
                      else map_option (Pair key) (value_text (skip_space (tl (skip_space s1))))))))"

lemma json_member_length:
  assumes "json_member s = Some (key, raw, rest)"
  shows "length rest < length s"
proof -
  obtain item s1 where l: "rescanLiteral s = (item, s1)" by (rule prod.exhaust)
  have v: "value_text (skip_space (tl (skip_space s1))) = Some (raw, rest)" and "s \<noteq> []"
    using assms by (auto simp: json_member_def l starts_def split: if_splits option.splits)
  have "length (skip_space (tl (skip_space s1))) \<le> length s1"
    using length_dropWhile_le [of json_space "tl (skip_space s1)"] length_dropWhile_le [of json_space s1] by simp
  moreover have "length s1 < length s" using rescanLiteral_length [OF \<open>s \<noteq> []\<close>] l by simp
  ultimately show ?thesis using value_text_length [OF v] by simp
qed

text \<open>The members after the opening brace or a comma. \<open>None\<close> is the panic on text the scanner would refuse.\<close>

function members :: "schema \<Rightarrow> decoded \<Rightarrow> string \<Rightarrow> decoded option" where
  "members fds d s =
     (if starts (CHR ''}'') (skip_space s) then Some d
      else (case json_member (skip_space s) of
              None \<Rightarrow> None
            | Some (key, raw, rest) \<Rightarrow>
                (let d' = decode_member fds d key raw; s' = skip_space rest
                 in if starts (CHR '','') s' then members fds d' (tl s')
                    else if starts (CHR ''}'') s' then Some d' else None)))"
  by pat_completeness auto
termination
proof (relation "measure (\<lambda>(fds, d, s). length s)", goal_cases)
  case (2 fds d s x key y raw rest d' s')
  then have "length rest < length (skip_space s)" by (auto dest: json_member_length)
  moreover have "length (tl s') \<le> length rest"
    using 2 length_dropWhile_le [of json_space rest] by simp
  ultimately show ?case using length_dropWhile_le [of json_space s] by simp
qed simp

declare members.simps [simp del]

text \<open>Into a struct; \<open>null\<close> leaves it as it is.\<close>

definition Unmarshal :: "schema \<Rightarrow> string \<Rightarrow> json_err + (string \<Rightarrow> string)" where
  "Unmarshal fds s =
     (if \<not> checkValid s then Inl SyntaxError
      else let t = skip_space s
           in if starts (CHR ''{'') t then
                (case members fds (None, \<lambda>_. []) (tl t) of
                   None \<Rightarrow> Inl PhasePanic
                 | Some (Some e, _) \<Rightarrow> Inl e
                 | Some (None, vals) \<Rightarrow> Inr vals)
              else if starts (CHR ''n'') t then Inr (\<lambda>_. []) else Inl UnmarshalTypeError)"

end
