(* ===== verification/Decode.thy ===== *)
theory Decode
  imports Values Url Json_Decode Store_Contract
begin

text \<open>
  ABI loading and log decoding (\<open>internal/decode\<close>): the registry of contract ABIs by address, the
  Sourcify and Etherscan fetchers, the resolution of proxies to their implementation, the cache in
  the store, and the decoding of a log into an event. go-ethereum's ABI type \<open>'a\<close> and functions and the
  HTTP transport are parameters; everything acts on a world \<open>'w\<close>. Log lines are left out.
\<close>

section \<open>Libraries\<close>

record abi_arg =
  agName :: string
  agType :: string
  agIndexed :: bool

record abi_event =
  aeName :: string
  aeInputs :: "abi_arg list"

text \<open>A response: the status, the bytes that the body delivers and the error it ends in, if any.\<close>

record http_response =
  hrStatusCode :: int
  hrBody :: bytes
  hrBodyErr :: "err option"

record ('a, 'w) libs =
  lbHex :: "bytes20 \<Rightarrow> string"
  lbHexToAddress :: "string \<Rightarrow> bytes20"
  lbBytesToAddress :: "bytes \<Rightarrow> bytes20"
  lbKeccak256 :: "bytes \<Rightarrow> bytes"
  lbABIJSON :: "bytes \<Rightarrow> err + 'a"
  lbHasEvent :: "'a \<Rightarrow> string \<Rightarrow> bool"
  lbEventByID :: "'a \<Rightarrow> bytes32 \<Rightarrow> err + abi_event"
  lbNonIndexed :: "abi_arg list \<Rightarrow> abi_arg list"
  lbParseTopicsIntoMap :: "envmap \<Rightarrow> abi_arg list \<Rightarrow> bytes32 list \<Rightarrow> err + envmap"
  lbUnpackIntoMap :: "abi_arg list \<Rightarrow> envmap \<Rightarrow> bytes \<Rightarrow> err + envmap"
  lbDo :: "string \<Rightarrow> 'w \<Rightarrow> (err + http_response) \<times> 'w"

text \<open>EIP-55: the checksummed form of an address is its hexadecimal form up to case.\<close>

definition hex_form :: "('a, 'w) libs \<Rightarrow> bool" where
  "hex_form lib \<longleftrightarrow> (\<forall>a. map to_lower (lbHex lib a) = hex0x (be_bytes 20 a))"

section \<open>Fetchers\<close>

text \<open>\<open>io.ReadAll(io.LimitReader(resp.Body, 5<<20))\<close>: an error past the limit is not seen.\<close>

definition body_limit :: nat where
  "body_limit = 5 * 2 ^ 20"

definition read_limited :: "http_response \<Rightarrow> err + bytes" where
  "read_limited resp =
     (if body_limit \<le> length (hrBody resp) then Inr (take body_limit (hrBody resp))
      else (case hrBodyErr resp of Some e \<Rightarrow> Inl e | None \<Rightarrow> Inr (hrBody resp)))"

datatype fetch_err =
    RequestErr string
  | TransportErr string err
  | NotVerified u64 string
  | HttpStatus string int
  | BodyErr err
  | ResponseParseErr json_err
  | EmptyABI
  | NoAPIKey
  | ApiErr string string
  | EmptyResult

record sourcify_fetcher =
  sfBaseURL :: string

definition NewSourcifyFetcher :: sourcify_fetcher where
  "NewSourcifyFetcher = \<lparr>sfBaseURL = ''https://sourcify.dev''\<rparr>"

definition sourcify_url :: "('a, 'w) libs \<Rightarrow> sourcify_fetcher \<Rightarrow> u64 \<Rightarrow> bytes20 \<Rightarrow> string" where
  "sourcify_url lib f chainID address =
     sfBaseURL f @ ''/server/v2/contract/'' @ dec_nat (unat chainID) @ ''/'' @ lbHex lib address @ ''?fields=abi''"

definition sourcify_payload :: schema where
  "sourcify_payload = [(''abi'', RawMessage)]"

definition Sourcify_FetchJSON ::
  "('a, 'w) libs \<Rightarrow> sourcify_fetcher \<Rightarrow> u64 \<Rightarrow> bytes20 \<Rightarrow> 'w \<Rightarrow> (fetch_err + bytes) \<times> 'w" where
  "Sourcify_FetchJSON lib f chainID address w =
     (let url = sourcify_url lib f chainID address
      in (case url_Parse url of
            None \<Rightarrow> (Inl (RequestErr url), w)
          | Some _ \<Rightarrow>
              (case lbDo lib url w of
                 (Inl e, w') \<Rightarrow> (Inl (TransportErr url e), w')
               | (Inr resp, w') \<Rightarrow>
                   (if hrStatusCode resp = 404 then Inl (NotVerified chainID (lbHex lib address))
                    else if hrStatusCode resp \<noteq> 200 then Inl (HttpStatus url (hrStatusCode resp))
                    else (case read_limited resp of
                            Inl e \<Rightarrow> Inl (BodyErr e)
                          | Inr body \<Rightarrow>
                              (case Unmarshal sourcify_payload (bytes_string body) of
                                 Inl e \<Rightarrow> Inl (ResponseParseErr e)
                               | Inr payload \<Rightarrow>
                                   if payload ''abi'' = [] then Inl EmptyABI else Inr (string_bytes (payload ''abi'')))), w'))))"

datatype parse_err = FetchFailed fetch_err | ABIParseErr err

definition Sourcify_Fetch ::
  "('a, 'w) libs \<Rightarrow> sourcify_fetcher \<Rightarrow> u64 \<Rightarrow> bytes20 \<Rightarrow> 'w \<Rightarrow> (parse_err + 'a) \<times> 'w" where
  "Sourcify_Fetch lib f chainID address w =
     (case Sourcify_FetchJSON lib f chainID address w of
        (Inl e, w') \<Rightarrow> (Inl (FetchFailed e), w')
      | (Inr data, w') \<Rightarrow> (map_sum ABIParseErr id (lbABIJSON lib data), w'))"

record etherscan_fetcher =
  efBaseURL :: string
  efAPIKey :: string

definition NewEtherscanFetcher :: "string \<Rightarrow> etherscan_fetcher" where
  "NewEtherscanFetcher apiKey = \<lparr>efBaseURL = ''https://api.etherscan.io/v2/api'', efAPIKey = apiKey\<rparr>"

text \<open>\<open>url.QueryEscape\<close>; \<open>url.Values.Encode\<close> writes the keys in order.\<close>

definition upper_hex :: "nat \<Rightarrow> char" where
  "upper_hex n = ''0123456789ABCDEF'' ! (n mod 16)"

definition escape_char :: "char \<Rightarrow> string" where
  "escape_char c =
     (if is_digit c \<or> is_lower c \<or> is_upper c \<or> c \<in> {CHR ''-'', CHR ''_'', CHR ''.'', CHR ''~''} then [c]
      else if c = CHR '' '' then ''+''
      else [CHR ''%'', upper_hex (of_char c div 16), upper_hex (of_char c mod 16)])"

definition QueryEscape :: "string \<Rightarrow> string" where
  "QueryEscape s = concat (map escape_char s)"

definition etherscan_url :: "('a, 'w) libs \<Rightarrow> etherscan_fetcher \<Rightarrow> u64 \<Rightarrow> bytes20 \<Rightarrow> string" where
  "etherscan_url lib f chainID address =
     efBaseURL f @ ''?action=getabi&address='' @ QueryEscape (lbHex lib address) @ ''&apikey='' @ QueryEscape (efAPIKey f) @
       ''&chainid='' @ dec_nat (unat chainID) @ ''&module=contract''"

definition truncate_str :: "string \<Rightarrow> nat \<Rightarrow> string" where
  "truncate_str s n = (if length s \<le> n then s else take n s @ ''...'')"

definition etherscan_payload :: schema where
  "etherscan_payload = [(''status'', StringField), (''message'', StringField), (''result'', StringField)]"

definition Etherscan_FetchJSON ::
  "('a, 'w) libs \<Rightarrow> etherscan_fetcher \<Rightarrow> u64 \<Rightarrow> bytes20 \<Rightarrow> 'w \<Rightarrow> (fetch_err + bytes) \<times> 'w" where
  "Etherscan_FetchJSON lib f chainID address w =
     (if efAPIKey f = [] then (Inl NoAPIKey, w)
      else
        (let full = etherscan_url lib f chainID address
         in (case url_Parse full of
               None \<Rightarrow> (Inl (RequestErr full), w)
             | Some _ \<Rightarrow>
                 (case lbDo lib full w of
                    (Inl e, w') \<Rightarrow> (Inl (TransportErr [] e), w')
                  | (Inr resp, w') \<Rightarrow>
                      (if hrStatusCode resp \<noteq> 200 then Inl (HttpStatus [] (hrStatusCode resp))
                       else (case read_limited resp of
                               Inl e \<Rightarrow> Inl (BodyErr e)
                             | Inr body \<Rightarrow>
                                 (case Unmarshal etherscan_payload (bytes_string body) of
                                    Inl e \<Rightarrow> Inl (ResponseParseErr e)
                                  | Inr payload \<Rightarrow>
                                      if payload ''status'' \<noteq> ''1''
                                      then Inl (ApiErr (payload ''message'') (truncate_str (payload ''result'') 120))
                                      else if payload ''result'' = [] then Inl EmptyResult
                                      else Inr (string_bytes (payload ''result'')))), w')))))"

section \<open>Proxies\<close>

record 'w storage_reader =
  rdStorageAt :: "bytes20 \<Rightarrow> bytes32 \<Rightarrow> 'w \<Rightarrow> (err + bytes) \<times> 'w"
  rdCallContract :: "bytes20 \<Rightarrow> bytes \<Rightarrow> u64 option \<Rightarrow> 'w \<Rightarrow> (err + bytes) \<times> 'w"

definition proxyImplSlots :: "bytes32 list" where
  "proxyImplSlots =
     [0x360894a13ba1a3210667c828492db98dca3e2076cc3735a920a3ca505d382bbc,
      0x7050c9e0f4ca769c69bd3a8ef740bc37934f8e2c036e5a723fd8ee048ed3f8c3]"

definition eip1967BeaconSlot :: bytes32 where
  "eip1967BeaconSlot = 0xa3f0ad74e5423aebfd80d3ef4346578335a9a72aeaee59ff6cb3582b35133d50"

definition looksLikeProxy :: "('a, 'w) libs \<Rightarrow> 'a \<Rightarrow> bool" where
  "looksLikeProxy lib a = list_ex (lbHasEvent lib a) [''Upgraded'', ''AdminChanged'', ''BeaconUpgraded'']"

fun allZero :: "bytes \<Rightarrow> bool" where
  "allZero [] = True"
| "allZero (x # b) = (if x \<noteq> 0 then False else allZero b)"

text \<open>The loop over the slots: the first that can be read and is populated.\<close>

fun read_slots ::
  "'w storage_reader \<Rightarrow> bytes20 \<Rightarrow> bytes32 list \<Rightarrow> 'w \<Rightarrow> bytes option \<times> 'w" where
  "read_slots reader proxy [] w = (None, w)"
| "read_slots reader proxy (slot # slots) w =
     (case rdStorageAt reader proxy slot w of
        (Inl e, w') \<Rightarrow> read_slots reader proxy slots w'
      | (Inr data, w') \<Rightarrow>
          (if length data < 20 \<or> allZero data then read_slots reader proxy slots w' else (Some data, w')))"

text \<open>\<open>Inr None\<close> is the result with \<open>ok\<close> false.\<close>

definition readImplementationAddress ::
  "('a, 'w) libs \<Rightarrow> 'w storage_reader \<Rightarrow> bytes20 \<Rightarrow> 'w \<Rightarrow> (err + bytes20 option) \<times> 'w" where
  "readImplementationAddress lib reader proxy w =
     (case read_slots reader proxy proxyImplSlots w of
        (Some data, w1) \<Rightarrow> (Inr (Some (lbBytesToAddress lib data)), w1)
      | (None, w1) \<Rightarrow>
          (case rdStorageAt reader proxy eip1967BeaconSlot w1 of
             (Inl e, w2) \<Rightarrow> (Inl e, w2)
           | (Inr beaconData, w2) \<Rightarrow>
               (if length beaconData < 20 \<or> allZero beaconData then (Inr None, w2)
                else
                  (case rdCallContract reader (lbBytesToAddress lib beaconData)
                          (take 4 (lbKeccak256 lib (string_bytes ''implementation()''))) None w2 of
                     (Inl e, w3) \<Rightarrow> (Inl e, w3)
                   | (Inr result, w3) \<Rightarrow>
                       (if length result < 32 \<or> allZero result then (Inr None, w3)
                        else (Inr (Some (lbBytesToAddress lib (take 20 (drop 12 result)))), w3))))))"

section \<open>The decoder\<close>

record 'w abi_cache =
  acLoad :: "u64 \<Rightarrow> bytes20 \<Rightarrow> 'w \<Rightarrow> (err + bytes option) \<times> 'w"
  acSave :: "u64 \<Rightarrow> bytes20 \<Rightarrow> bytes \<Rightarrow> 'w \<Rightarrow> err option \<times> 'w"

text \<open>The address is copied into an array of its own size.\<close>

definition copy_address :: "bytes20 \<Rightarrow> bytes20" where
  "copy_address a = word_of_nat (be_nat (copy_into 20 (be_bytes 20 a)))"

definition NewStoreABICache ::
  "(u64 \<Rightarrow> bytes20 \<Rightarrow> 'w \<Rightarrow> (err + bytes option) \<times> 'w) \<Rightarrow> (u64 \<Rightarrow> bytes20 \<Rightarrow> bytes \<Rightarrow> 'w \<Rightarrow> err option \<times> 'w)
     \<Rightarrow> 'w abi_cache" where
  "NewStoreABICache load save =
     \<lparr>acLoad = (\<lambda>chainID address. load chainID (copy_address address)),
      acSave = (\<lambda>chainID address. save chainID (copy_address address))\<rparr>"

record 'w monitor_spec =
  spID :: string
  spChainID :: u64
  spAddress :: bytes20
  spABI :: string
  spStorage :: "'w storage_reader option"

record ('a, 'w) decoder =
  dcABIs :: "(string, 'a) gomap"
  dcMonitors :: "(string, string) gomap"
  dcFetcher :: sourcify_fetcher
  dcEtherscan :: "etherscan_fetcher option"
  dcCache :: "'w abi_cache option"

definition NewDecoder :: "('a, 'w) decoder" where
  "NewDecoder = \<lparr>dcABIs = [], dcMonitors = [], dcFetcher = NewSourcifyFetcher, dcEtherscan = None, dcCache = None\<rparr>"

definition erc20ABIJSON :: string where
  "erc20ABIJSON =
    ''['' @ [CHR 0x0A] @
    ''  {\"anonymous\":false,\"inputs\":[{\"indexed\":true,\"name\":\"from\",\"type\":\"address\"},'' @
    ''{\"indexed\":true,\"name\":\"to\",\"type\":\"address\"},'' @
    ''{\"indexed\":false,\"name\":\"value\",\"type\":\"uint256\"}],\"name\":\"Transfer\",\"type\":\"event\"},'' @ [CHR 0x0A] @
    ''  {\"anonymous\":false,\"inputs\":[{\"indexed\":true,\"name\":\"owner\",\"type\":\"address\"},'' @
    ''{\"indexed\":true,\"name\":\"spender\",\"type\":\"address\"},'' @
    ''{\"indexed\":false,\"name\":\"value\",\"type\":\"uint256\"}],\"name\":\"Approval\",\"type\":\"event\"}'' @ [CHR 0x0A] @
    '']''"

datatype abi_err =
    NeedsChainID
  | SourcifyErr fetch_err
  | FallbackErr fetch_err fetch_err
  | ParseABI err
  | PlainABI err
  | UnsupportedABI string

definition cached_abi :: "('a, 'w) libs \<Rightarrow> ('a, 'w) decoder \<Rightarrow> 'w monitor_spec \<Rightarrow> 'w \<Rightarrow> 'a option \<times> 'w" where
  "cached_abi lib d spec w =
     (case dcCache d of
        None \<Rightarrow> (None, w)
      | Some cache \<Rightarrow>
          (case acLoad cache (spChainID spec) (spAddress spec) w of
             (Inr (Some data), w') \<Rightarrow>
               (case lbABIJSON lib data of Inr a \<Rightarrow> (Some a, w') | Inl perr \<Rightarrow> (None, w'))
           | (_, w') \<Rightarrow> (None, w')))"

definition fetch_abi :: "('a, 'w) libs \<Rightarrow> ('a, 'w) decoder \<Rightarrow> 'w monitor_spec \<Rightarrow> 'w \<Rightarrow> (abi_err + bytes) \<times> 'w" where
  "fetch_abi lib d spec w =
     (case Sourcify_FetchJSON lib (dcFetcher d) (spChainID spec) (spAddress spec) w of
        (Inr data, w1) \<Rightarrow> (Inr data, w1)
      | (Inl e, w1) \<Rightarrow>
          (case dcEtherscan d of
             None \<Rightarrow> (Inl (SourcifyErr e), w1)
           | Some es \<Rightarrow>
               (if efAPIKey es = [] then (Inl (SourcifyErr e), w1)
                else
                  (case Etherscan_FetchJSON lib es (spChainID spec) (spAddress spec) w1 of
                     (Inl esErr, w2) \<Rightarrow> (Inl (FallbackErr e esErr), w2)
                   | (Inr esData, w2) \<Rightarrow> (Inr esData, w2)))))"

text \<open>The proxy switch: the JSON and the ABI to use, which stay those of the proxy on every failure.\<close>

definition resolve_proxy ::
  "('a, 'w) libs \<Rightarrow> ('a, 'w) decoder \<Rightarrow> 'w monitor_spec \<Rightarrow> bytes \<Rightarrow> 'a \<Rightarrow> 'w \<Rightarrow> (bytes \<times> 'a) \<times> 'w" where
  "resolve_proxy lib d spec data a w =
     (if \<not> looksLikeProxy lib a then ((data, a), w)
      else
        (case spStorage spec of
           None \<Rightarrow> ((data, a), w)
         | Some reader \<Rightarrow>
             (case readImplementationAddress lib reader (spAddress spec) w of
                (Inl rerr, w1) \<Rightarrow> ((data, a), w1)
              | (Inr None, w1) \<Rightarrow> ((data, a), w1)
              | (Inr (Some impl), w1) \<Rightarrow>
                  (case Sourcify_FetchJSON lib (dcFetcher d) (spChainID spec) impl w1 of
                     (Inl ferr, w2) \<Rightarrow> ((data, a), w2)
                   | (Inr implData, w2) \<Rightarrow>
                       (case lbABIJSON lib implData of
                          Inl perr \<Rightarrow> ((data, a), w2)
                        | Inr implABI \<Rightarrow> ((implData, implABI), w2))))))"

definition store_abi :: "('a, 'w) decoder \<Rightarrow> 'w monitor_spec \<Rightarrow> bytes \<Rightarrow> 'w \<Rightarrow> 'w" where
  "store_abi d spec finalData w =
     (case dcCache d of
        None \<Rightarrow> w
      | Some cache \<Rightarrow> snd (acSave cache (spChainID spec) (spAddress spec) finalData w))"

definition loadABI :: "('a, 'w) libs \<Rightarrow> ('a, 'w) decoder \<Rightarrow> 'w monitor_spec \<Rightarrow> 'w \<Rightarrow> (abi_err + 'a) \<times> 'w" where
  "loadABI lib d spec w =
     (let trimmed = TrimSpace (spABI spec)
      in if trimmed = ''erc20'' then (map_sum PlainABI id (lbABIJSON lib (string_bytes erc20ABIJSON)), w)
         else if trimmed = ''sourcify'' then
           (if spChainID spec = 0 then (Inl NeedsChainID, w)
            else
              (case cached_abi lib d spec w of
                 (Some a, w1) \<Rightarrow> (Inr a, w1)
               | (None, w1) \<Rightarrow>
                   (case fetch_abi lib d spec w1 of
                      (Inl e, w2) \<Rightarrow> (Inl e, w2)
                    | (Inr data, w2) \<Rightarrow>
                        (case lbABIJSON lib data of
                           Inl e \<Rightarrow> (Inl (ParseABI e), w2)
                         | Inr a \<Rightarrow>
                             (case resolve_proxy lib d spec data a w2 of
                                ((finalData, finalABI), w3) \<Rightarrow> (Inr finalABI, store_abi d spec finalData w3))))))
         else if take 1 trimmed = ''['' then (map_sum PlainABI id (lbABIJSON lib (string_bytes trimmed)), w)
         else (Inl (UnsupportedABI (spABI spec)), w))"

definition Register ::
  "('a, 'w) libs \<Rightarrow> ('a, 'w) decoder \<Rightarrow> 'w monitor_spec \<Rightarrow> 'w \<Rightarrow> (string \<times> abi_err) option \<times> ('a, 'w) decoder \<times> 'w" where
  "Register lib d spec w =
     (case loadABI lib d spec w of
        (Inl e, w') \<Rightarrow> (Some (spID spec, e), d, w')
      | (Inr a, w') \<Rightarrow>
          (let key = map to_lower (lbHex lib (spAddress spec))
           in (None, d\<lparr>dcABIs := gm_put key a (dcABIs d), dcMonitors := gm_put key (spID spec) (dcMonitors d)\<rparr>, w')))"

fun register_erc20 ::
  "('a, 'w) libs \<Rightarrow> (string \<times> string) list \<Rightarrow> ('a, 'w) decoder \<Rightarrow> 'w \<Rightarrow> ((string \<times> abi_err) + ('a, 'w) decoder) \<times> 'w" where
  "register_erc20 lib [] d w = (Inr d, w)"
| "register_erc20 lib ((addr, mid) # m) d w =
     (case Register lib d \<lparr>spID = mid, spChainID = 0, spAddress = lbHexToAddress lib addr, spABI = ''erc20'', spStorage = None\<rparr> w of
        (Some e, d', w') \<Rightarrow> (Inl e, w')
      | (None, d', w') \<Rightarrow> register_erc20 lib m d' w')"

definition NewERC20Decoder ::
  "('a, 'w) libs \<Rightarrow> (string, string) gomap \<Rightarrow> 'w \<Rightarrow> ((string \<times> abi_err) + ('a, 'w) decoder) \<times> 'w" where
  "NewERC20Decoder lib addrToMonitor w = register_erc20 lib addrToMonitor NewDecoder w"

fun normalize :: "('a, 'w) libs \<Rightarrow> goval \<Rightarrow> goval" where
  "normalize lib (VBigInt i) = VFloat (f64_of_int i)"
| "normalize lib (VAddress a) = VString (map to_lower (lbHex lib a))"
| "normalize lib (VHash h) = VString (map to_lower (hex0x (be_bytes 32 h)))"
| "normalize lib (VBytes32 b) = VString (hex0x (be_bytes 32 b))"
| "normalize lib (VBytes20 b) = VString (hex0x (be_bytes 20 b))"
| "normalize lib v = v"

datatype decode_err =
    NoABI string
  | NoTopics
  | UnknownTopic bytes32 err
  | CountMismatch nat nat
  | TopicsErr err
  | UnpackErr err

definition addr_hex :: "bytes20 \<Rightarrow> string" where
  "addr_hex a = ''0x'' @ map to_lower (hex_encode (be_bytes 20 a))"

text \<open>Decoding with the ABI found, for the monitor found.\<close>

definition decode_params :: "('a, 'w) libs \<Rightarrow> abi_event \<Rightarrow> log \<Rightarrow> decode_err + envmap" where
  "decode_params lib ev l =
     (let indexed = filter agIndexed (aeInputs ev);
          nonIndexed = lbNonIndexed lib (aeInputs ev)
      in if length indexed \<noteq> length (lTopics l) - 1
         then Inl (CountMismatch (length indexed) (length (lTopics l) - 1))
         else
           (case (if indexed \<noteq> [] then map_sum TopicsErr id (lbParseTopicsIntoMap lib [] indexed (tl (lTopics l))) else Inr []) of
              Inl e \<Rightarrow> Inl e
            | Inr params \<Rightarrow>
                (case (if nonIndexed \<noteq> [] then map_sum UnpackErr id (lbUnpackIntoMap lib nonIndexed params (lData l)) else Inr params) of
                   Inl e \<Rightarrow> Inl e
                 | Inr params' \<Rightarrow> Inr (map (\<lambda>(k, v). (k, normalize lib v)) params'))))"

definition decode_as :: "('a, 'w) libs \<Rightarrow> 'a \<Rightarrow> string \<Rightarrow> log \<Rightarrow> decode_err + event" where
  "decode_as lib a monitorID l =
     (case lTopics l of
        [] \<Rightarrow> Inl NoTopics
      | t # ts \<Rightarrow>
          (case lbEventByID lib a t of
             Inl e \<Rightarrow> Inl (UnknownTopic t e)
           | Inr ev \<Rightarrow>
               (case decode_params lib ev l of
                  Inl e \<Rightarrow> Inl e
                | Inr params \<Rightarrow>
                    Inr \<lparr>eLog = l, eMonitorID = monitorID, eName = aeName ev, eParams = params,
                      eState = None, ePrevState = None, eConfirmation = []\<rparr>)))"

definition Decode :: "('a, 'w) libs \<Rightarrow> ('a, 'w) decoder \<Rightarrow> log \<Rightarrow> decode_err + event" where
  "Decode lib d l =
     (let addrHex = addr_hex (lAddress l)
      in (case map_of (dcABIs d) addrHex of
            None \<Rightarrow> Inl (NoABI addrHex)
          | Some a \<Rightarrow> decode_as lib a (case map_of (dcMonitors d) addrHex of Some m \<Rightarrow> m | None \<Rightarrow> []) l))"

end
