(* ===== verification/Json_Props.thy ===== *)
theory Json_Props
  imports Json_Decode
begin

text \<open>
  What the ABI fetchers need of the decoder: a valid array or object is the same text wherever it is
  nested, the decoder cuts it out unchanged, and a quoted string is read back.
\<close>

section \<open>Nested values\<close>

definition nested :: "parse_frame list \<Rightarrow> scanner \<Rightarrow> scanner" where
  "nested base sc = (if snd sc = [] \<and> base \<noteq> [] then EndValue else fst sc, snd sc @ base)"

lemma nested_keeps [simp]: "stack \<noteq> [] \<Longrightarrow> nested base (st, stack) = (st, stack @ base)"
  by (simp add: nested_def)

lemma nested_pop [simp]: "nested base (pop_frame stack) = pop_frame (stack @ base)"
  by (simp add: nested_def pop_frame_def)

lemma end_value_nested: "stack \<noteq> [] \<Longrightarrow> end_value (stack @ base) c = map_option (nested base) (end_value stack c)"
  by (cases stack) (simp_all add: end_value_def split: parse_frame.split)

lemma begin_value_nested:
  "stack \<noteq> [] \<Longrightarrow> begin_value (depth + length base) (stack @ base) c = map_option (nested base) (begin_value depth stack c)"
  by (simp add: begin_value_def push_frame_def)

lemma begin_string_nested: "stack \<noteq> [] \<Longrightarrow> begin_string (stack @ base) c = map_option (nested base) (begin_string stack c)"
  by (simp add: begin_string_def)

lemma scan_step_nested:
  assumes "stack \<noteq> []"
  shows "scan_step (depth + length base) (st, stack @ base) c = map_option (nested base) (scan_step depth (st, stack) c)"
  using assms end_value_nested [of "ParseObjectValue # tl stack" base]
  by (cases st)
     (simp_all add: end_value_nested begin_value_nested begin_string_nested num0_def exp_digit_def split: list.split)

text \<open>A scanner with an open value either keeps one open or has just closed the last.\<close>

definition open_or_top :: "scanner \<Rightarrow> bool" where
  "open_or_top sc \<longleftrightarrow> (fst sc = EndTop) = (snd sc = [])"

lemma end_value_open: "stack \<noteq> [] \<Longrightarrow> pred_option open_or_top (end_value stack c)"
  by (cases stack) (simp_all add: end_value_def open_or_top_def pop_frame_def split: parse_frame.split)

lemma begin_open:
  assumes "stack \<noteq> []"
  shows "pred_option open_or_top (begin_value depth stack c)" "pred_option open_or_top (begin_string stack c)"
  using assms by (simp_all add: begin_value_def begin_string_def push_frame_def open_or_top_def)

lemma scan_step_open:
  assumes "stack \<noteq> []" "st \<noteq> EndTop"
  shows "pred_option open_or_top (scan_step depth (st, stack) c)"
  using assms end_value_open [of "ParseObjectValue # tl stack"]
  by (cases st)
     (simp_all add: end_value_open begin_open num0_def exp_digit_def open_or_top_def [of "(_, stack)"] split: list.split)

text \<open>A text that closes everything only at its last byte is skipped as a whole, and can be nested.\<close>

lemma scan_run_spaces:
  "scan_run depth (EndTop, []) cs = Some sc \<Longrightarrow> list_all json_space cs"
  by (induction cs) (simp_all split: if_split_asm)

lemma space_keeps_open:
  assumes "stack \<noteq> []" "st \<noteq> EndTop"
  shows "pred_option (\<lambda>sc. fst sc \<noteq> EndTop) (scan_step depth (st, stack) (CHR '' ''))"
proof -
  have "json_space (CHR '' '')" by (simp add: json_space_def)
  moreover have "pred_option (\<lambda>sc. fst sc \<noteq> EndTop) (end_value stack (CHR '' ''))"
    using assms(1) \<open>json_space (CHR '' '')\<close> by (cases stack) (simp_all add: end_value_def)
  ultimately show ?thesis
    using assms
    by (cases st) (simp_all add: begin_value_def begin_string_def num0_def exp_digit_def split: list.split)
qed

lemma scan_eof_open:
  assumes "stack \<noteq> []" "st \<noteq> EndTop"
  shows "\<not> scan_eof depth (st, stack)"
  using space_keeps_open [OF assms, of depth] assms(2)
  by (cases "scan_step depth (st, stack) (CHR '' '')") (simp_all add: scan_eof_def)

lemma closing_text:
  assumes "scan_run depth (st, stack) cs = Some sc" "scan_eof depth sc" "stack \<noteq> []" "st \<noteq> EndTop"
    "cs \<noteq> [] \<Longrightarrow> \<not> json_space (last cs)"
  shows "skip (depth + length base) (Suc (length base)) (st, stack @ base) (cs @ rest) = Some (cs, rest) \<and>
    scan_run (depth + length base) (st, stack @ base) cs = Some (pop_frame base)"
  using assms(1,3-)
proof (induction cs arbitrary: st stack)
  case Nil
  then show ?case using scan_eof_open [OF Nil.prems(2,3), of depth] assms(2) by simp
next
  case (Cons c cs)
  from Cons.prems(1) obtain sc1 where step: "scan_step depth (st, stack) c = Some sc1" and run: "scan_run depth sc1 cs = Some sc"
    by (auto split: option.split_asm)
  obtain st1 stack1 where sc1: "sc1 = (st1, stack1)" by (rule prod.exhaust)
  have top: "(st1 = EndTop) = (stack1 = [])"
    using scan_step_open [OF Cons.prems(2,3), of depth c] by (simp add: step sc1 open_or_top_def)
  have step': "scan_step (depth + length base) (st, stack @ base) c = Some (nested base (st1, stack1))"
    using scan_step_nested [OF Cons.prems(2), of depth base st c] by (simp add: step sc1)
  show ?case
  proof (cases "stack1 = []")
    case True
    then have "list_all json_space cs" using run top by (intro scan_run_spaces [of depth]) (simp add: sc1)
    then have "cs = []" using Cons.prems(4) by (cases cs rule: rev_cases) auto
    then show ?thesis using True top step' by (simp add: nested_def pop_frame_def)
  next
    case False
    moreover have "cs \<noteq> [] \<Longrightarrow> \<not> json_space (last cs)" using Cons.prems(4) by simp
    ultimately have "skip (depth + length base) (Suc (length base)) (st1, stack1 @ base) (cs @ rest) = Some (cs, rest)"
      "scan_run (depth + length base) (st1, stack1 @ base) cs = Some (pop_frame base)"
      using Cons.IH [OF run [unfolded sc1]] top by blast+
    then show ?thesis using False by (simp add: step')
  qed
qed

lemma opens_step:
  assumes "opens c" "scan_step depth (BeginValue, []) c = Some sc"
  obtains st f where "sc = (st, [f])" "st \<noteq> EndTop"
    "scan_step (depth + length base) (BeginValue, base) c = Some (st, [f] @ base)"
proof -
  define f where "f = (if c = CHR ''{'' then ParseObjectKey else ParseArrayValue)"
  define st where "st = (if c = CHR ''{'' then BeginStringOrEmpty else BeginValueOrEmpty)"
  have "scan_step d (BeginValue, stack) c = push_frame d st (f # stack)" for d stack
    using assms(1) by (auto simp: opens_def begin_value_def json_space_def f_def st_def)
  with assms(2) show ?thesis
    by (intro that [of st f]) (auto simp: push_frame_def st_def split: if_split_asm)
qed

text \<open>A valid array or object text without white space around it.\<close>

definition compound_json :: "nat \<Rightarrow> string \<Rightarrow> bool" where
  "compound_json depth v \<longleftrightarrow> valid_json depth v \<and> opens (hd v) \<and> \<not> json_space (last v)"

lemma compound_json_text:
  assumes "compound_json depth v"
  obtains c cs where "v = c # cs" "opens c"
    "\<And>base. scan_run (depth + length base) (BeginValue, base) v = Some (pop_frame base)"
    "\<And>base rest. \<exists>sc. scan_step (depth + length base) (BeginValue, base) c = Some sc \<and>
       skip (depth + length base) (Suc (length base)) sc (cs @ rest) = Some (cs, rest)"
proof -
  have "v \<noteq> []" using assms by (auto simp: compound_json_def valid_json_def scan_eof_def begin_value_def json_space_def)
  then obtain c cs where v: "v = c # cs" by (cases v) auto
  have c: "opens c" using assms v by (simp add: compound_json_def)
  obtain sc0 sc where step: "scan_step depth (BeginValue, []) c = Some sc0" and run: "scan_run depth sc0 cs = Some sc" "scan_eof depth sc"
    using assms v by (auto simp: compound_json_def valid_json_def simp del: scan_step.simps split: option.split_asm)
  have "\<exists>sc. scan_step (depth + length base) (BeginValue, base) c = Some sc \<and>
       skip (depth + length base) (Suc (length base)) sc (cs @ rest) = Some (cs, rest) \<and>
       scan_run (depth + length base) sc cs = Some (pop_frame base)" for base rest
  proof -
    obtain st f where st: "sc0 = (st, [f])" "st \<noteq> EndTop"
      "scan_step (depth + length base) (BeginValue, base) c = Some (st, [f] @ base)"
      by (rule opens_step [OF c step])
    moreover have "cs \<noteq> [] \<Longrightarrow> \<not> json_space (last cs)" using assms v by (simp add: compound_json_def)
    ultimately show ?thesis using closing_text [OF run [unfolded st(1)], of base rest] by simp
  qed
  note all = this
  show thesis
  proof (rule that [OF v c])
    show "scan_run (depth + length base) (BeginValue, base) v = Some (pop_frame base)" for base
      using all [of base "[]"] by (auto simp: v simp del: scan_step.simps)
  qed (use all in blast)
qed

section \<open>Quoted strings\<close>

definition printable :: "string \<Rightarrow> bool" where
  "printable = list_all (char_in 32 126)"

definition esc :: "char \<Rightarrow> string" where
  "esc c = (if c = CHR 0x22 \<or> c = CHR 0x5C then [CHR 0x5C, c] else [c])"

definition quote :: "string \<Rightarrow> string" where
  "quote s = CHR 0x22 # concat (map esc s) @ [CHR 0x22]"

lemma printable_simps [simp]: "printable []" "printable (c # s) \<longleftrightarrow> char_in 32 126 c \<and> printable s"
  by (simp_all add: printable_def)

lemma string_literal_quote: "string_literal (concat (map esc s) @ CHR 0x22 # rest) = (concat (map esc s) @ [CHR 0x22], rest)"
  by (induction s) (simp_all add: esc_def)

lemma scan_run_append [simp]:
  "scan_run depth sc (xs @ ys) = (case scan_run depth sc xs of None \<Rightarrow> None | Some sc' \<Rightarrow> scan_run depth sc' ys)"
  by (induction xs arbitrary: sc) (simp_all split: option.split)

lemma scan_run_quote:
  "printable s \<Longrightarrow> scan_run depth (InString, stack) (concat (map esc s) @ CHR 0x22 # rest) = scan_run depth (EndValue, stack) rest"
proof (induction s)
  case (Cons c s)
  moreover have "\<not> of_char c < (32 :: nat)" using Cons.prems by (simp add: char_in_def)
  ultimately show ?case by (simp add: esc_def)
qed simp

lemma unquote_quote: "printable s \<Longrightarrow> unquote (concat (map esc s)) = Some s"
proof (induction s)
  case (Cons c s)
  have "rune_len (c # t) = 1" for t using Cons.prems by (simp add: rune_len_def char_in_def)
  moreover have "\<not> of_char c < (32 :: nat)" using Cons.prems by (simp add: char_in_def)
  ultimately show ?case using Cons by (auto simp: esc_def unquote.simps json_escape_def)
qed simp

lemma rescan_quote: "rescanLiteral (quote s @ rest) = (quote s, rest)"
  by (simp add: quote_def string_literal_quote)

lemma inner_quote: "inner (quote s) = concat (map esc s)"
  by (simp add: inner_def quote_def)

lemma quote_starts: "starts (CHR 0x22) (quote s @ rest)" "skip_space (quote s @ rest) = quote s @ rest"
  by (simp_all add: quote_def starts_def json_space_def)

section \<open>Objects\<close>

text \<open>
  The members of a response: a key, and a value that is text or the raw text of an array, an object or
  a constant.
\<close>

datatype served = SText string | SRaw string

fun served_text :: "served \<Rightarrow> string" where
  "served_text (SText s) = quote s"
| "served_text (SRaw v) = v"

fun served_ok :: "served \<Rightarrow> bool" where
  "served_ok (SText s) \<longleftrightarrow> printable s"
| "served_ok (SRaw v) \<longleftrightarrow> v \<in> {''null'', ''true'', ''false''} \<or> compound_json (maxNestingDepth - 1) v"

fun members_text :: "(string \<times> served) list \<Rightarrow> string" where
  "members_text [] = []"
| "members_text [(k, v)] = quote k @ CHR '':'' # served_text v"
| "members_text ((k, v) # m # ms) = quote k @ CHR '':'' # served_text v @ CHR '','' # members_text (m # ms)"

definition object_text :: "(string \<times> served) list \<Rightarrow> string" where
  "object_text ms = CHR ''{'' # members_text ms @ [CHR ''}'']"

definition members_ok :: "(string \<times> served) list \<Rightarrow> bool" where
  "members_ok = list_all (\<lambda>(k, v). printable k \<and> served_ok v)"

lemma depth_split: "maxNestingDepth - 1 + length [f] = maxNestingDepth"
  by (simp add: maxNestingDepth_def)

lemma compound_served:
  assumes "compound_json (maxNestingDepth - 1) v"
  shows "scan_run maxNestingDepth (BeginValue, [f]) v = Some (EndValue, [f])" "value_text (v @ rest) = Some (v, rest)"
    "\<not> json_space (hd v)" "v \<noteq> []"
proof -
  obtain c cs where v: "v = c # cs" and c: "opens c"
    and run: "\<And>base. scan_run (maxNestingDepth - 1 + length base) (BeginValue, base) v = Some (pop_frame base)"
    and skips: "\<And>base rest. \<exists>sc. scan_step (maxNestingDepth - 1 + length base) (BeginValue, base) c = Some sc \<and>
       skip (maxNestingDepth - 1 + length base) (Suc (length base)) sc (cs @ rest) = Some (cs, rest)"
    by (rule compound_json_text [OF assms]) blast
  show "scan_run maxNestingDepth (BeginValue, [f]) v = Some (EndValue, [f])"
    using run [of "[f]"] by (simp only: depth_split pop_frame_def) simp
  from skips [of "[ParseObjectValue]" rest] obtain sc where
    "scan_step maxNestingDepth (BeginValue, [ParseObjectValue]) c = Some sc" "skip maxNestingDepth 2 sc (cs @ rest) = Some (cs, rest)"
    unfolding depth_split by (auto simp: numeral_2_eq_2)
  with c show "value_text (v @ rest) = Some (v, rest)" by (simp add: v del: scan_step.simps)
  show "\<not> json_space (hd v)" "v \<noteq> []" using c by (auto simp: v opens_def json_space_def)
qed

lemma served_value:
  assumes "served_ok v"
  shows "scan_run maxNestingDepth (BeginValue, [f]) (served_text v) = Some (EndValue, [f])"
    "value_text (served_text v @ rest) = Some (served_text v, rest)" "skip_space (served_text v @ rest) = served_text v @ rest"
proof -
  have "scan_run maxNestingDepth (BeginValue, [f]) (served_text v) = Some (EndValue, [f]) \<and>
    value_text (served_text v @ rest) = Some (served_text v, rest) \<and> skip_space (served_text v @ rest) = served_text v @ rest"
  proof (cases v)
    case (SText s)
    have "value_text (quote s @ rest) = Some (quote s, rest)"
      using rescan_quote [of s rest] by (simp add: quote_def opens_def)
    then show ?thesis
      using SText assms scan_run_quote [of s maxNestingDepth "[f]" "[]"] quote_starts(2) [of s rest]
      by (simp add: quote_def begin_value_def json_space_def)
  next
    case (SRaw u)
    then consider "compound_json (maxNestingDepth - 1) u" | "u = ''null''" | "u = ''true''" | "u = ''false''" using assms by auto
    then show ?thesis
    proof cases
      case 1
      then show ?thesis using compound_served(1) [OF 1, of f] compound_served(2) [OF 1, of rest] compound_served(3,4) [OF 1] SRaw
        by (cases u) simp_all
    qed (simp_all add: SRaw begin_value_def json_space_def opens_def is_digit_def char_in_def)
  qed
  then show "scan_run maxNestingDepth (BeginValue, [f]) (served_text v) = Some (EndValue, [f])"
    "value_text (served_text v @ rest) = Some (served_text v, rest)" "skip_space (served_text v @ rest) = served_text v @ rest"
    by blast+
qed

lemma scan_key:
  assumes "printable k" "st = BeginString \<or> st = BeginStringOrEmpty"
  shows "scan_run depth (st, [ParseObjectKey]) (quote k @ CHR '':'' # rest) = scan_run depth (BeginValue, [ParseObjectValue]) rest"
proof -
  have "scan_run depth (st, [ParseObjectKey]) (quote k @ CHR '':'' # rest) = scan_run depth (EndValue, [ParseObjectKey]) (CHR '':'' # rest)"
    using assms scan_run_quote [OF assms(1), of depth "[ParseObjectKey]" "CHR '':'' # rest"]
    by (auto simp: quote_def begin_string_def json_space_def simp del: scan_run_append)
  then show ?thesis by (simp add: end_value_def json_space_def)
qed

lemma members_scan:
  assumes "members_ok ms" "ms \<noteq> []" "st = BeginString \<or> st = BeginStringOrEmpty"
  shows "scan_run maxNestingDepth (st, [ParseObjectKey]) (members_text ms @ [CHR ''}'']) = Some (EndTop, [])"
  using assms
proof (induction ms arbitrary: st rule: members_text.induct)
  case (2 k v)
  then have "printable k" "served_ok v" by (simp_all add: members_ok_def)
  then show ?case
    using scan_key [OF _ 2(3), of k maxNestingDepth "served_text v @ [CHR ''}'']"] served_value(1)
    by (simp add: end_value_def json_space_def pop_frame_def del: scan_run_append)
       (simp add: end_value_def json_space_def pop_frame_def)
next
  case (3 k v m ms)
  then have kv: "printable k" "served_ok v" and ms: "members_ok (m # ms)" by (simp_all add: members_ok_def)
  have "scan_run maxNestingDepth (st, [ParseObjectKey]) (members_text ((k, v) # m # ms) @ [CHR ''}'']) =
      scan_run maxNestingDepth (BeginValue, [ParseObjectValue]) (served_text v @ CHR '','' # members_text (m # ms) @ [CHR ''}''])"
    using scan_key [OF kv(1) "3.prems"(3)] by simp
  also have "\<dots> = scan_run maxNestingDepth (BeginString, [ParseObjectKey]) (members_text (m # ms) @ [CHR ''}''])"
    using served_value(1) [OF kv(2)] by (simp add: end_value_def json_space_def)
  finally show ?case using "3.IH" [OF ms, of BeginString] by simp
qed simp

lemma object_valid:
  assumes "members_ok ms"
  shows "checkValid (object_text ms)"
proof -
  have "scan_run maxNestingDepth (BeginStringOrEmpty, [ParseObjectKey]) (members_text ms @ [CHR ''}'']) = Some (EndTop, [])"
    using members_scan [OF assms, of BeginStringOrEmpty]
    by (cases "ms = []") (simp_all add: end_value_def json_space_def pop_frame_def)
  then show ?thesis
    by (simp add: checkValid_def valid_json_def object_text_def begin_value_def push_frame_def json_space_def maxNestingDepth_def
        scan_eof_def del: scan_run_append)
qed

text \<open>The decoder takes the members in order.\<close>

lemma member_read:
  assumes "printable k" "served_ok v"
  shows "json_member (quote k @ CHR '':'' # served_text v @ rest) = Some (k, served_text v, rest)"
proof -
  have "skip_space (CHR '':'' # s) = CHR '':'' # s" for s by (simp add: json_space_def)
  then show ?thesis
    using served_value(2,3) [OF assms(2), of rest]
    by (simp add: json_member_def rescan_quote quote_starts inner_quote unquote_quote [OF assms(1)]) (simp add: starts_def)
qed

lemma members_read:
  assumes "members_ok ms"
  shows "members fds d (members_text ms @ [CHR ''}'']) = Some (foldl (\<lambda>d (k, v). decode_member fds d k (served_text v)) d ms)"
  using assms
proof (induction ms arbitrary: d rule: members_text.induct)
  case 1
  then show ?case by (simp add: members.simps [of _ d] starts_def json_space_def)
next
  case (2 k v)
  then have kv: "printable k" "served_ok v" by (simp_all add: members_ok_def)
  have "\<not> starts (CHR ''}'') (quote k @ s)" for s by (simp add: quote_def starts_def)
  then show ?case
    using member_read [OF kv, of "[CHR ''}'']"]
    by (simp add: members.simps [of _ d] quote_starts Let_def) (simp add: starts_def json_space_def)
next
  case (3 k v m ms)
  then have kv: "printable k" "served_ok v" and ms: "members_ok (m # ms)" by (simp_all add: members_ok_def)
  have "\<not> starts (CHR ''}'') (quote k @ s)" for s by (simp add: quote_def starts_def)
  moreover have "skip_space (CHR '','' # s) = CHR '','' # s" "starts (CHR '','') (CHR '','' # s)" for s by (simp_all add: json_space_def starts_def)
  ultimately show ?case
    using member_read [OF kv, of "CHR '','' # members_text (m # ms) @ [CHR ''}'']"] "3.IH" [OF ms]
    by (simp add: members.simps [of _ d] quote_starts Let_def)
qed

lemma Unmarshal_object:
  assumes "members_ok ms"
  shows "Unmarshal fds (object_text ms) =
    (case foldl (\<lambda>d (k, v). decode_member fds d k (served_text v)) (None, \<lambda>_. []) ms of (Some e, _) \<Rightarrow> Inl e | (None, vals) \<Rightarrow> Inr vals)"
proof -
  have "skip_space (object_text ms) = object_text ms" "starts (CHR ''{'') (object_text ms)" "tl (object_text ms) = members_text ms @ [CHR ''}'']"
    by (simp_all add: object_text_def json_space_def starts_def)
  then show ?thesis by (simp add: Unmarshal_def object_valid [OF assms] members_read [OF assms] split: prod.split option.split)
qed

end
