(* ===== verification/Fetch_Props.thy ===== *)
theory Fetch_Props
  imports Decode Durations Json_Props
begin

text \<open>
  What the ABI fetchers make of a response: the value of the last member with the right name, names
  being compared without regard to case, is handed on, raw from Sourcify and unquoted from Etherscan.
\<close>

declare foldName.simps [simp del]

text \<open>The value of the last member of a name, in upper case.\<close>

definition member_value :: "string \<Rightarrow> (string \<times> 'v) list \<Rightarrow> 'v option" where
  "member_value n ms = map_of (rev (map (apfst foldName) ms)) n"

lemma member_value_simps [simp]:
  "member_value n [] = None"
  "member_value n ((k, v) # ms) =
     (case member_value n ms of None \<Rightarrow> if foldName k = n then Some v else None | Some u \<Rightarrow> Some u)"
  by (auto simp: member_value_def map_add_def split: option.split)

lemma member_value_map: "member_value n (map (apsnd g) ms) = map_option g (member_value n ms)"
  by (induction ms) (auto split: option.split)

text \<open>A field is found by its name up to case when the fields differ in more than case.\<close>

lemma find_field_spec:
  assumes "distinct (map (foldName \<circ> fst) fds)"
  shows "find_field fds k = Some (n, kind) \<longleftrightarrow> (n, kind) \<in> set fds \<and> foldName n = foldName k"
proof -
  have unique: "f = g" if "f \<in> set fds" "g \<in> set fds" "foldName (fst f) = foldName (fst g)" for f g
    using assms that inj_onD [of "foldName \<circ> fst" "set fds" f g] by (simp add: distinct_map)
  have some: "List.find P fds = Some f \<Longrightarrow> f \<in> set fds \<and> P f" for P f by (auto simp: find_Some_iff)
  have none: "List.find P fds = None \<Longrightarrow> f \<in> set fds \<Longrightarrow> \<not> P f" for P f by (cases f) (auto simp: find_None_iff)
  show ?thesis
  proof (cases "List.find (\<lambda>(n, kind). n = k) fds")
    case None
    show ?thesis
    proof (cases "List.find (\<lambda>(n, kind). foldName n = foldName k) fds")
      case (Some f)
      then show ?thesis using \<open>List.find (\<lambda>(n, kind). n = k) fds = None\<close> some [OF Some] unique [of f "(n, kind)"]
        by (auto simp: find_field_def)
    next
      case None
      then show ?thesis using \<open>List.find (\<lambda>(n, kind). n = k) fds = None\<close> none [OF None, of "(n, kind)"] by (auto simp: find_field_def)
    qed
  next
    case (Some f)
    then show ?thesis using some [OF Some] unique [of f "(n, kind)"] by (auto simp: find_field_def)
  qed
qed

lemma decode_fold:
  assumes "distinct (map (foldName \<circ> fst) fds)"
    "\<And>k v kind old. (k, v) \<in> set ms \<Longrightarrow> kind \<in> snd ` set fds \<Longrightarrow> store_value kind old (served_text v) = Inr (g v)"
  shows "foldl (\<lambda>d (k, v). decode_member fds d k (served_text v)) (None, vals) ms =
    (None, \<lambda>n. case if n \<in> fst ` set fds then member_value (foldName n) ms else None of None \<Rightarrow> vals n | Some v \<Rightarrow> g v)"
  using assms(2)
proof (induction ms arbitrary: vals)
  case (Cons m ms)
  obtain k v where m: "m = (k, v)" by (rule prod.exhaust)
  have IH: "foldl (\<lambda>d (k, v). decode_member fds d k (served_text v)) (None, vals) ms =
    (None, \<lambda>n. case if n \<in> fst ` set fds then member_value (foldName n) ms else None of None \<Rightarrow> vals n | Some v \<Rightarrow> g v)" for vals
    by (rule Cons.IH) (metis Cons.prems list.set_intros(2))
  note spec = find_field_spec [OF assms(1)]
  show ?case
  proof (cases "find_field fds k")
    case None
    then have "foldName n \<noteq> foldName k" if "n \<in> fst ` set fds" for n
      using that spec [of k n] by (auto simp: image_iff)
    then show ?thesis using None IH by (fastforce simp: m decode_member_def split: option.split)
  next
    case (Some f)
    obtain n0 kind where f: "f = (n0, kind)" by (rule prod.exhaust)
    have n0: "(n0, kind) \<in> set fds" "foldName n0 = foldName k" using Some spec f by auto
    have other: "foldName k \<noteq> foldName n" if n: "n \<in> fst ` set fds" "n \<noteq> n0" for n
    proof
      assume "foldName k = foldName n"
      moreover obtain b where "(n, b) \<in> set fds" using n by auto
      ultimately show False using spec [of k n b] n Some f by simp
    qed
    have "store_value kind (vals n0) (served_text v) = Inr (g v)"
      using Cons.prems [of k v kind "vals n0"] n0(1) m by force
    then have "decode_member fds (None, vals) k (served_text v) = (None, vals(n0 := g v))"
      by (simp add: decode_member_def Some f)
    moreover have "(case if n \<in> fst ` set fds then member_value (foldName n) ms else None of None \<Rightarrow> (vals(n0 := g v)) n | Some v \<Rightarrow> g v) =
      (case if n \<in> fst ` set fds then member_value (foldName n) (m # ms) else None of None \<Rightarrow> vals n | Some v \<Rightarrow> g v)" for n
      using n0 other [of n] by (cases "n = n0") (auto simp: m image_iff split: option.split)
    ultimately show ?thesis using IH by (simp add: m)
  qed
qed auto

lemma folded_names:
  "foldName ''abi'' = ''ABI''" "foldName ''status'' = ''STATUS''" "foldName ''message'' = ''MESSAGE''" "foldName ''result'' = ''RESULT''"
  by code_simp+

lemma payloads_distinct: "distinct (map (foldName \<circ> fst) sourcify_payload)" "distinct (map (foldName \<circ> fst) etherscan_payload)"
  by code_simp+

lemma sourcify_fold:
  "foldl (\<lambda>d (k, v). decode_member sourcify_payload d k (served_text v)) (None, vals) ms =
     (None, \<lambda>n. case if n = ''abi'' then member_value (foldName n) ms else None of None \<Rightarrow> vals n | Some v \<Rightarrow> served_text v)"
  by (subst decode_fold [OF payloads_distinct(1), where g = served_text])
     (simp_all add: sourcify_payload_def store_value_def)

lemma served_text_nonempty: "served_ok v \<Longrightarrow> served_text v \<noteq> []"
  using compound_served(4) by (cases v) (auto simp: quote_def)

lemma member_value_ok: "members_ok ms \<Longrightarrow> member_value n ms = Some v \<Longrightarrow> served_ok v"
  by (induction ms) (auto simp: members_ok_def split: option.split_asm if_split_asm)

lemma read_limited_whole:
  "length b \<le> body_limit \<Longrightarrow> read_limited \<lparr>hrStatusCode = s, hrBody = b, hrBodyErr = None\<rparr> = Inr b"
  by (auto simp: read_limited_def)

lemma length_string_bytes [simp]: "length (string_bytes s) = length s"
  by (simp add: string_bytes_def)

fun unserved :: "served \<Rightarrow> string" where
  "unserved (SText s) = s"
| "unserved (SRaw v) = v"

lemma store_text: "printable s \<Longrightarrow> store_value StringField old (quote s) = Inr s"
  using unquote_quote [of s] inner_quote [of s] by (simp add: store_value_def) (simp add: quote_def)

lemma etherscan_fold:
  assumes "list_all (\<lambda>(k, s). printable s) ms"
  shows "foldl (\<lambda>d (k, v). decode_member etherscan_payload d k (served_text v)) (None, vals) (map (apsnd SText) ms) =
    (None, \<lambda>n. case if n \<in> {''status'', ''message'', ''result''} then member_value (foldName n) ms else None of None \<Rightarrow> vals n | Some s \<Rightarrow> s)"
proof (subst decode_fold [OF payloads_distinct(2), where g = unserved])
  fix k v kind old
  assume "(k, v) \<in> set (map (apsnd SText) ms)" "kind \<in> snd ` set etherscan_payload"
  then obtain s where "v = SText s" "kind = StringField" "printable s"
    using assms by (auto simp: etherscan_payload_def list_all_iff)
  then show "store_value kind old (served_text v) = Inr (unserved v)" by (simp add: store_text)
next
  have "fst ` set etherscan_payload = {''status'', ''message'', ''result''}" by (simp add: etherscan_payload_def)
  moreover have "(case map_option SText x of None \<Rightarrow> y | Some v \<Rightarrow> unserved v) = (case x of None \<Rightarrow> y | Some s \<Rightarrow> s)" for x y
    by (cases x) simp_all
  ultimately show "(None, \<lambda>n. case if n \<in> fst ` set etherscan_payload then member_value (foldName n) (map (apsnd SText) ms) else None of
      None \<Rightarrow> vals n | Some v \<Rightarrow> unserved v) =
    (None, \<lambda>n. case if n \<in> {''status'', ''message'', ''result''} then member_value (foldName n) ms else None of None \<Rightarrow> vals n | Some s \<Rightarrow> s)"
    by (simp only: member_value_map if_distrib [of "map_option SText", symmetric] option.map(1)) (simp add: fun_eq_iff)
qed

lemma sourcify_unmarshal:
  assumes "members_ok ms"
  obtains vals where "Unmarshal sourcify_payload (object_text ms) = Inr vals"
    "vals ''abi'' = (case member_value ''ABI'' ms of None \<Rightarrow> [] | Some v \<Rightarrow> served_text v)"
  by (rule that [OF Unmarshal_object [OF assms, of sourcify_payload, unfolded sourcify_fold prod.case option.case]])
     (simp add: folded_names)

lemma etherscan_unmarshal:
  assumes "list_all (\<lambda>(k, s). printable k \<and> printable s) ms"
  obtains vals where "Unmarshal etherscan_payload (object_text (map (apsnd SText) ms)) = Inr vals"
    "vals ''status'' = (case member_value ''STATUS'' ms of None \<Rightarrow> [] | Some s \<Rightarrow> s)"
    "vals ''message'' = (case member_value ''MESSAGE'' ms of None \<Rightarrow> [] | Some s \<Rightarrow> s)"
    "vals ''result'' = (case member_value ''RESULT'' ms of None \<Rightarrow> [] | Some s \<Rightarrow> s)"
proof -
  have ok: "members_ok (map (apsnd SText) ms)" and pr: "list_all (\<lambda>(k, s). printable s) ms"
    using assms by (auto simp: members_ok_def list_all_iff)
  show thesis
    by (rule that [OF Unmarshal_object [OF ok, of etherscan_payload, unfolded etherscan_fold [OF pr] prod.case option.case]])
       (simp_all add: folded_names)
qed

section \<open>Requests\<close>

lemma to_lower_hex_digit: "to_lower (hex_digit n) = hex_digit n"
proof -
  have "n mod 16 < 16" by simp
  then have "n mod 16 \<in> set [0..<16]" by simp
  then show ?thesis
    by (auto simp: hex_digit_def upt_rec to_lower_def is_upper_def char_in_def)
qed

lemma to_lower_hex_encode: "map to_lower (hex_encode bs) = hex_encode bs"
  by (induction bs) (auto simp: hex_encode_Cons to_lower_hex_digit)

text \<open>The URLs that the fetchers build parse: what is put into them neither holds a control character nor
  ends the path or the query too early.\<close>

definition query_char :: "char \<Rightarrow> bool" where
  "query_char c \<longleftrightarrow> (32 :: nat) < of_char c \<and> of_char c < (127 :: nat) \<and> c \<noteq> CHR ''#''"

definition path_char :: "char \<Rightarrow> bool" where
  "path_char c \<longleftrightarrow> query_char c \<and> c \<noteq> CHR ''?'' \<and> c \<noteq> CHR ''%''"

lemma cut_append: "c \<notin> set s \<Longrightarrow> cut c (s @ c # t) = (s, t)"
  by (simp add: cut_def takeWhile_append dropWhile_append takeWhile_eq_all_conv)

lemma cut_absent: "c \<notin> set s \<Longrightarrow> cut c s = (s, [])"
  by (induction s) (auto simp: cut_def)

lemma unescapes_path: "list_all path_char s \<Longrightarrow> unescapes EncodePath s"
  by (induction s) (auto simp: path_char_def)

lemma contains_no_ctl: "list_all query_char s \<Longrightarrow> \<not> contains_ctl s"
  by (induction s) (auto simp: contains_ctl_def query_char_def)

lemma query_char_if_path: "list_all path_char s \<Longrightarrow> list_all query_char s"
  by (simp add: list_all_iff path_char_def)

lemma https_parses:
  assumes "list_all path_char path" "list_all query_char q"
    "parseAuthority (takeWhile (\<lambda>x. x \<noteq> CHR ''/'') path)"
  shows "url_Parse (''https://'' @ path @ ''?'' @ q) = Some ''https''"
proof -
  let ?u = "''https://'' @ path @ ''?'' @ q"
  have q: "list_all query_char ?u"
    using assms(2) query_char_if_path [OF assms(1)] by (simp add: query_char_def)
  then have hash: "cut (CHR ''#'') ?u = (?u, [])" by (intro cut_absent) (auto simp: list_all_iff query_char_def)
  have scheme: "get_scheme ?u [] ?u = Some (''https'', ''//'' @ path @ ''?'' @ q)"
    by (simp add: is_lower_def is_upper_def is_digit_def char_in_def)
  have rest: "cut (CHR ''?'') (''//'' @ path @ ''?'' @ q) = (''//'' @ path, q)"
    using cut_append [of "CHR ''?''" "''//'' @ path" q] assms(1) by (auto simp: list_all_iff path_char_def)
  have "list_all path_char (dropWhile (\<lambda>x. x \<noteq> CHR ''/'') path)"
    using assms(1) set_dropWhileD by (fastforce simp: list_all_iff)
  then have "parse_url ?u = Some (map to_lower ''https'')"
    unfolding parse_url_def scheme using contains_no_ctl [OF q] rest assms(3)
    by (simp add: Let_def unescapes_path)
  then show ?thesis unfolding url_Parse_def hash by (simp add: to_lower_def is_upper_def char_in_def)
qed

lemma upper_hex_query: "query_char (upper_hex n)"
proof -
  have "n mod 16 \<in> set [0..<16]" by simp
  then show ?thesis unfolding upper_hex_def by (auto simp: upt_rec query_char_def)
qed

lemma QueryEscape_query: "list_all query_char (QueryEscape s)"
proof -
  have "list_all query_char (escape_char c)" for c
    using upper_hex_query by (auto simp: escape_char_def query_char_def is_digit_def is_lower_def is_upper_def char_in_def)
  then show ?thesis by (simp add: QueryEscape_def list_all_iff)
qed

lemma dec_nat_path: "list_all path_char (dec_nat n)"
  using dec_nat_digits(1) [of n] by (auto simp: list_all_iff path_char_def query_char_def is_digit_def char_in_def)

lemma hex_path: "list_all path_char (hex0x bs)"
proof -
  have "path_char (hex_digit n)" for n
  proof -
    have "n mod 16 \<in> set [0..<16]" by simp
    then show ?thesis by (auto simp: upt_rec hex_digit_def path_char_def query_char_def)
  qed
  then have "list_all path_char (hex_encode bs)" by (induction bs) (auto simp: hex_encode_Cons)
  then show ?thesis by (simp add: hex0x_def path_char_def query_char_def)
qed

lemma to_lower_path: "path_char (to_lower c) \<Longrightarrow> path_char c"
  by (cases "is_upper c") (auto simp: to_lower_def path_char_def query_char_def is_upper_def char_in_def)

lemma etherscan_url_parses: "url_Parse (etherscan_url lib (NewEtherscanFetcher k) chainID address) = Some ''https''"
proof -
  have "parseAuthority (takeWhile (\<lambda>x. x \<noteq> CHR ''/'') ''api.etherscan.io/v2/api'')" "list_all path_char ''api.etherscan.io/v2/api''"
    by code_simp+
  moreover have "list_all query_char (''action=getabi&address='' @ QueryEscape (lbHex lib address) @ ''&apikey='' @ QueryEscape k @
      ''&chainid='' @ dec_nat (unat chainID) @ ''&module=contract'')"
    using QueryEscape_query query_char_if_path [OF dec_nat_path] by (simp add: query_char_def)
  ultimately show ?thesis
    using https_parses [of "''api.etherscan.io/v2/api''"] by (simp add: etherscan_url_def NewEtherscanFetcher_def)
qed

lemma sourcify_url_parses:
  assumes "hex_form lib"
  shows "url_Parse (sourcify_url lib NewSourcifyFetcher chainID address) = Some ''https''"
proof -
  let ?path = "''sourcify.dev/server/v2/contract/'' @ dec_nat (unat chainID) @ ''/'' @ lbHex lib address"
  have "list_all path_char (map to_lower (lbHex lib address))" using assms hex_path by (simp add: hex_form_def)
  then have "list_all path_char (lbHex lib address)" using to_lower_path by (auto simp: list_all_iff)
  moreover have "list_all path_char ''sourcify.dev/server/v2/contract/''" by code_simp
  ultimately have "list_all path_char ?path" using dec_nat_path by (simp add: path_char_def query_char_def)
  moreover have "parseAuthority ''sourcify.dev''" by code_simp
  moreover have "list_all query_char ''fields=abi''" by code_simp
  ultimately show ?thesis
    using https_parses [of ?path "''fields=abi''"] by (simp add: sourcify_url_def NewSourcifyFetcher_def)
qed

section \<open>Responses\<close>

text \<open>
  C38. Sourcify's ABI is handed on verbatim: from a well-formed response the fetcher returns the raw text
  of the last member called \<open>abi\<close>, in any case of letters and whatever it is, and reports an empty
  ABI exactly when there is no such member. In particular \<open>null\<close> counts as an ABI.
\<close>

theorem sourcify_reads_abi:
  assumes "url_Parse (sourcify_url lib f chainID address) \<noteq> None"
    "lbDo lib (sourcify_url lib f chainID address) w =
       (Inr \<lparr>hrStatusCode = 200, hrBody = string_bytes (object_text ms), hrBodyErr = None\<rparr>, w')"
    "members_ok ms" "length (object_text ms) \<le> body_limit"
  shows "Sourcify_FetchJSON lib f chainID address w =
    (case member_value ''ABI'' ms of None \<Rightarrow> Inl EmptyABI | Some v \<Rightarrow> Inr (string_bytes (served_text v)), w')"
proof -
  obtain vals where u: "Unmarshal sourcify_payload (object_text ms) = Inr vals"
    and abi: "vals ''abi'' = (case member_value ''ABI'' ms of None \<Rightarrow> [] | Some v \<Rightarrow> served_text v)"
    by (rule sourcify_unmarshal [OF assms(3)])
  have "served_text v \<noteq> []" if "member_value ''ABI'' ms = Some v" for v
    using member_value_ok [OF assms(3) that] by (rule served_text_nonempty)
  then show ?thesis
    using assms(1,2,4) u abi by (auto simp: Sourcify_FetchJSON_def read_limited_whole split: option.split)
qed

text \<open>
  C39. Etherscan's ABI is read out of the string it comes in: from a well-formed response with text members
  the fetcher returns the unescaped result when the status is 1 and the result is not empty, and
  otherwise the message with the shortened result, or the complaint about an empty result.
\<close>

theorem etherscan_reads_result:
  assumes "efAPIKey f \<noteq> []" "url_Parse (etherscan_url lib f chainID address) \<noteq> None"
    "lbDo lib (etherscan_url lib f chainID address) w =
       (Inr \<lparr>hrStatusCode = 200, hrBody = string_bytes (object_text (map (apsnd SText) ms)), hrBodyErr = None\<rparr>, w')"
    "list_all (\<lambda>(k, s). printable k \<and> printable s) ms" "length (object_text (map (apsnd SText) ms)) \<le> body_limit"
    "status = (case member_value ''STATUS'' ms of None \<Rightarrow> [] | Some s \<Rightarrow> s)"
    "result = (case member_value ''RESULT'' ms of None \<Rightarrow> [] | Some s \<Rightarrow> s)"
    "message = (case member_value ''MESSAGE'' ms of None \<Rightarrow> [] | Some s \<Rightarrow> s)"
  shows "Etherscan_FetchJSON lib f chainID address w =
    (if status \<noteq> ''1'' then Inl (ApiErr message (truncate_str result 120))
     else if result = [] then Inl EmptyResult else Inr (string_bytes result), w')"
proof -
  obtain vals where u: "Unmarshal etherscan_payload (object_text (map (apsnd SText) ms)) = Inr vals"
    and vals: "vals ''status'' = status" "vals ''message'' = message" "vals ''result'' = result"
    unfolding assms(6-8) by (rule etherscan_unmarshal [OF assms(4)])
  show ?thesis
    using assms(1-3,5) u vals by (auto simp: Etherscan_FetchJSON_def read_limited_whole)
qed

section \<open>Examples\<close>

text \<open>A network that answers every request with the same object.\<close>

definition ex_serving :: "(string \<times> served) list \<Rightarrow> (bytes, nat) libs" where
  "ex_serving ms = \<lparr>lbHex = (\<lambda>a. hex0x (be_bytes 20 a)), lbHexToAddress = (\<lambda>s. 5), lbBytesToAddress = (\<lambda>b. word_of_nat (be_nat b)),
     lbKeccak256 = (\<lambda>b. b), lbABIJSON = Inr, lbHasEvent = (\<lambda>a e. True),
     lbEventByID = (\<lambda>a t. Inr \<lparr>aeName = ''Paused'', aeInputs = []\<rparr>), lbNonIndexed = filter (\<lambda>x. \<not> agIndexed x),
     lbParseTopicsIntoMap = (\<lambda>m as ts. Inr m), lbUnpackIntoMap = (\<lambda>as m bs. Inr m),
     lbDo = (\<lambda>u n. (Inr \<lparr>hrStatusCode = 200, hrBody = string_bytes (object_text ms), hrBodyErr = None\<rparr>, Suc n))\<rparr>"

lemma ex_serving_hex: "hex_form (ex_serving ms)"
  by (simp add: hex_form_def ex_serving_def hex0x_def to_lower_hex_encode to_lower_def is_upper_def char_in_def)

definition ex_sourcify :: "(string \<times> served) list" where
  "ex_sourcify = [(''match'', SText ''exact''), (''abi'', SRaw ''null''), (''ABI'', SRaw ''[{},[1.5e3, -0]]''), (''chainId'', SText ''1'')]"

definition ex_etherscan :: "(string \<times> string) list" where
  "ex_etherscan = [(''status'', ''1''), (''message'', ''OK''), (''result'', ''['' @ [CHR 0x22] @ ''x'' @ [CHR 0x22] @ '']'')]"

theorem sourcify_reads_abi_witness:
  "Sourcify_FetchJSON (ex_serving ex_sourcify) NewSourcifyFetcher 1 5 0 = (Inr (string_bytes ''[{},[1.5e3, -0]]''), 1) \<and>
   Sourcify_FetchJSON (ex_serving [(''abi'', SRaw ''null'')]) NewSourcifyFetcher 1 5 0 = (Inr (string_bytes ''null''), 1)"
proof -
  have "members_ok ex_sourcify" "members_ok [(''abi'', SRaw ''null'')]" by code_simp+
  moreover have "length (object_text ex_sourcify) \<le> 100" "length (object_text [(''abi'', SRaw ''null'')]) \<le> 100"
    by code_simp+
  moreover have "member_value ''ABI'' ex_sourcify = Some (SRaw ''[{},[1.5e3, -0]]'')"
    "member_value ''ABI'' [(''abi'', SRaw ''null'')] = Some (SRaw ''null'')" by code_simp+
  ultimately show ?thesis
    using sourcify_reads_abi [of "ex_serving ex_sourcify" NewSourcifyFetcher 1 5 0 ex_sourcify 1]
      sourcify_reads_abi [of "ex_serving [(''abi'', SRaw ''null'')]" NewSourcifyFetcher 1 5 0 "[(''abi'', SRaw ''null'')]" 1]
      sourcify_url_parses [OF ex_serving_hex] by (simp add: ex_serving_def body_limit_def)
qed

theorem etherscan_reads_result_witness:
  "Etherscan_FetchJSON (ex_serving (map (apsnd SText) ex_etherscan)) (NewEtherscanFetcher ''key'') 1 5 0 =
    (Inr (string_bytes (''['' @ [CHR 0x22] @ ''x'' @ [CHR 0x22] @ '']'')), 1)"
proof -
  have "list_all (\<lambda>(k, s). printable k \<and> printable s) ex_etherscan" "length (object_text (map (apsnd SText) ex_etherscan)) \<le> 100"
    by code_simp+
  moreover have "member_value ''STATUS'' ex_etherscan = Some ''1''"
    "member_value ''RESULT'' ex_etherscan = Some (''['' @ [CHR 0x22] @ ''x'' @ [CHR 0x22] @ '']'')" by code_simp+
  ultimately show ?thesis
    using etherscan_reads_result [of "NewEtherscanFetcher ''key''" "ex_serving (map (apsnd SText) ex_etherscan)" 1 5 0 ex_etherscan 1]
      etherscan_url_parses [of "ex_serving (map (apsnd SText) ex_etherscan)" "''key''" 1 5]
    by (simp add: ex_serving_def NewEtherscanFetcher_def body_limit_def)
qed

end
