(* ===== verification/Decode_Props.thy ===== *)
theory Decode_Props
  imports Fetch_Props Store_Props
begin

text \<open>
  What ABI loading and the registry guarantee: a registered contract is found under its address,
  an ABI that could be fetched is never lost to the resolution of a proxy, and an ABI that was
  cached is used again without the network.
\<close>

section \<open>Addresses as keys\<close>

lemma addr_hex_eq: "addr_hex a = hex0x (be_bytes 20 a)"
  by (simp add: addr_hex_def hex0x_def to_lower_hex_encode)

lemma addr_hex_inject [simp]: "addr_hex a = addr_hex b \<longleftrightarrow> a = b"
  by (simp add: addr_hex_eq)

lemma key_of_address: "hex_form lib \<Longrightarrow> map to_lower (lbHex lib a) = addr_hex a"
  by (simp add: hex_form_def addr_hex_eq)

section \<open>Registration\<close>

text \<open>Loading an ABI reads the fetchers and the cache of a decoder, not its registry.\<close>

lemma loadABI_registry: "loadABI lib (d\<lparr>dcABIs := x, dcMonitors := y\<rparr>) spec w = loadABI lib d spec w"
proof -
  let ?d = "d\<lparr>dcABIs := x, dcMonitors := y\<rparr>"
  have same: "dcCache ?d = dcCache d" "dcFetcher ?d = dcFetcher d" "dcEtherscan ?d = dcEtherscan d" by simp_all
  have "cached_abi lib ?d = cached_abi lib d" "fetch_abi lib ?d = fetch_abi lib d"
    "resolve_proxy lib ?d = resolve_proxy lib d" "store_abi ?d = store_abi d"
    by (intro ext, simp only: cached_abi_def fetch_abi_def resolve_proxy_def store_abi_def same)+
  then show ?thesis by (simp only: loadABI_def)
qed

lemma Register_cases:
  assumes "hex_form lib" "Register lib d spec w = (e, d', w')"
  obtains (failed) x where "loadABI lib d spec w = (Inl x, w')" "e = Some (spID spec, x)" "d' = d"
  | (ok) a where "loadABI lib d spec w = (Inr a, w')" "e = None"
      "d' = d\<lparr>dcABIs := gm_put (addr_hex (spAddress spec)) a (dcABIs d),
              dcMonitors := gm_put (addr_hex (spAddress spec)) (spID spec) (dcMonitors d)\<rparr>"
  using assms(2) by (auto simp: Register_def Let_def key_of_address [OF assms(1)] split: prod.splits sum.splits)

section \<open>Resolution of proxies\<close>

lemma resolve_proxy_cases:
  assumes "resolve_proxy lib d spec data a w = ((data', a'), w')" "lbABIJSON lib data = Inr a"
  shows "lbABIJSON lib data' = Inr a' \<and> (a' = a \<or> looksLikeProxy lib a \<and>
    (\<exists>reader impl w1. spStorage spec = Some reader \<and>
       readImplementationAddress lib reader (spAddress spec) w = (Inr (Some impl), w1) \<and>
       Sourcify_FetchJSON lib (dcFetcher d) (spChainID spec) impl w1 = (Inr data', w')))"
  using assms by (auto simp: resolve_proxy_def split: if_splits option.splits prod.splits sum.splits)

text \<open>
  Resolving a proxy never costs a monitor its ABI: once the contract's own ABI was fetched and
  parsed, loading succeeds whatever the node, Sourcify and the cache answer afterwards. The result
  is that ABI, or, for an ABI that looks like a proxy's, the one that Sourcify has for the
  implementation address read from the chain.
\<close>

theorem loadABI_proxy_safe:
  assumes "TrimSpace (spABI spec) = ''sourcify''" "spChainID spec \<noteq> 0"
    and "cached_abi lib d spec w = (None, w1)" "fetch_abi lib d spec w1 = (Inr data, w2)" "lbABIJSON lib data = Inr a"
  shows "\<exists>a' w'. loadABI lib d spec w = (Inr a', w') \<and> (a' = a \<or> looksLikeProxy lib a \<and>
    (\<exists>reader impl w3 data' w4. spStorage spec = Some reader \<and>
       readImplementationAddress lib reader (spAddress spec) w2 = (Inr (Some impl), w3) \<and>
       Sourcify_FetchJSON lib (dcFetcher d) (spChainID spec) impl w3 = (Inr data', w4) \<and>
       lbABIJSON lib data' = Inr a'))"
proof -
  obtain data' a' w' where r: "resolve_proxy lib d spec data a w2 = ((data', a'), w')" by (metis prod.exhaust)
  then have "loadABI lib d spec w = (Inr a', store_abi d spec data' w')"
    using assms by (simp add: loadABI_def)
  with resolve_proxy_cases [OF r assms(5)] show ?thesis by blast
qed

section \<open>The cache in the store\<close>

text \<open>The cache as \<open>main\<close> builds it: the store's operations behind the adapter.\<close>

definition store_cache :: "('w \<Rightarrow> gotime) \<Rightarrow> 'w store \<Rightarrow> 'w abi_cache" where
  "store_cache clock st = NewStoreABICache (LoadCachedABI st) (\<lambda>c a abi w. SaveCachedABI st (clock w) c a abi w)"

lemma copy_address [simp]: "copy_address a = a"
  by (simp add: copy_address_def of_nat_be_nat_be_bytes)

text \<open>Without driver faults the cache reads and writes its entry.\<close>

lemma abi_no_fault:
  assumes "st = SQLiteStore \<or> st = PostgresStore" "faults d = []"
  shows "LoadCachedABI st c a d = (Inr (vABI (db_view d) c a), d)"
    and "SaveCachedABI st now c a abi d = (None, upsert_abi now c a abi d)"
  using assms by (auto simp: SQLiteStore_def PostgresStore_def sqlite_LoadCachedABI_def pg_LoadCachedABI_def
      sqlite_SaveCachedABI_def pg_SaveCachedABI_def db_query_def db_exec_def next_fault_def db_view_def)

lemma upsert_abi_faults [simp]: "faults (upsert_abi now c a abi d) = faults d"
  by (simp add: upsert_abi_def)

text \<open>A part \<open>P\<close> of the world that HTTP requests and calls to the node leave alone stays as it is while an
  ABI is fetched and a proxy resolved.\<close>

definition keeps :: "('w \<Rightarrow> 'b) \<Rightarrow> ('a, 'w) libs \<Rightarrow> 'w monitor_spec \<Rightarrow> bool" where
  "keeps P lib spec \<longleftrightarrow> (\<forall>u w. P (snd (lbDo lib u w)) = P w) \<and>
     (case spStorage spec of
        None \<Rightarrow> True
      | Some r \<Rightarrow> (\<forall>a s w. P (snd (rdStorageAt r a s w)) = P w) \<and>
                  (\<forall>a x b w. P (snd (rdCallContract r a x b w)) = P w))"

lemma keepsD:
  assumes "keeps P lib spec"
  shows "lbDo lib u w = (x, w') \<Longrightarrow> P w' = P w"
    and "spStorage spec = Some r \<Longrightarrow> rdStorageAt r a s w = (y, w') \<Longrightarrow> P w' = P w"
    and "spStorage spec = Some r \<Longrightarrow> rdCallContract r a sel b w = (y, w') \<Longrightarrow> P w' = P w"
  using assms by (auto simp: keeps_def split: option.splits, (metis snd_conv)+)

lemma Sourcify_keeps:
  assumes "keeps P lib spec" "Sourcify_FetchJSON lib f c a w = (out, w')"
  shows "P w' = P w"
  using assms(2) by (auto simp: Sourcify_FetchJSON_def Let_def split: option.splits prod.splits sum.splits
      dest!: keepsD(1) [OF assms(1)])

lemma Etherscan_keeps:
  assumes "keeps P lib spec" "Etherscan_FetchJSON lib f c a w = (out, w')"
  shows "P w' = P w"
  using assms(2) by (auto simp: Etherscan_FetchJSON_def Let_def split: option.splits prod.splits sum.splits if_splits
      dest!: keepsD(1) [OF assms(1)])

lemma fetch_keeps:
  assumes "keeps P lib spec" "fetch_abi lib d spec w = (out, w')"
  shows "P w' = P w"
  using assms(2) by (auto simp: fetch_abi_def split: option.splits prod.splits sum.splits if_splits
      dest!: Sourcify_keeps [OF assms(1)] Etherscan_keeps [OF assms(1)])

lemma read_slots_keeps:
  assumes "keeps P lib spec" "spStorage spec = Some r" "read_slots r a slots w = (out, w')"
  shows "P w' = P w"
  using assms(3)
proof (induction slots arbitrary: w)
  case (Cons s slots)
  then show ?case using keepsD(2) [OF assms(1,2)] by (fastforce split: prod.splits sum.splits if_splits)
qed simp

lemma implementation_keeps:
  assumes "keeps P lib spec" "spStorage spec = Some r" "readImplementationAddress lib r a w = (out, w')"
  shows "P w' = P w"
  using assms(3) by (auto simp: readImplementationAddress_def split: prod.splits sum.splits option.splits if_splits
      dest!: keepsD(2,3) [OF assms(1,2)] read_slots_keeps [OF assms(1,2)])

lemma resolve_keeps:
  assumes "keeps P lib spec" "resolve_proxy lib d spec data a w = (out, w')"
  shows "P w' = P w"
  using assms(2) by (auto simp: resolve_proxy_def split: option.splits prod.splits sum.splits if_splits
      dest!: Sourcify_keeps [OF assms(1)] implementation_keeps [OF assms(1)])

text \<open>With a cache that leaves \<open>P\<close> alone as well, so does loading.\<close>

definition cache_keeps :: "('w \<Rightarrow> 'b) \<Rightarrow> ('a, 'w) decoder \<Rightarrow> bool" where
  "cache_keeps P d \<longleftrightarrow> (case dcCache d of
     None \<Rightarrow> True
   | Some c \<Rightarrow> (\<forall>i a w. P (snd (acLoad c i a w)) = P w) \<and> (\<forall>i a x w. P (snd (acSave c i a x w)) = P w))"

lemma loadABI_keeps:
  assumes "keeps P lib spec" "cache_keeps P d" "loadABI lib d spec w = (out, w')"
  shows "P w' = P w"
proof -
  have cached: "P w2 = P w1" if "cached_abi lib d spec w1 = (hit, w2)" for hit w1 w2
    using that assms(2) by (auto simp: cached_abi_def cache_keeps_def split: option.splits prod.splits sum.splits, (metis snd_conv)+)
  have store: "P (store_abi d spec x w1) = P w1" for x w1
    using assms(2) by (simp add: store_abi_def cache_keeps_def split: option.splits)
  show ?thesis
    using assms(3) by (auto simp: loadABI_def Let_def store split: if_splits prod.splits option.splits sum.splits
        dest!: cached fetch_keeps [OF assms(1)] resolve_keeps [OF assms(1)])
qed

text \<open>A cached entry that parses is the result, and nothing else happens.\<close>

lemma loadABI_hit:
  assumes "TrimSpace (spABI spec) = ''sourcify''" "spChainID spec \<noteq> 0" "cached_abi lib d spec w = (Some a, w')"
  shows "loadABI lib d spec w = (Inr a, w')"
  using assms by (simp add: loadABI_def)

lemma cached_abi_store:
  assumes "st = SQLiteStore \<or> st = PostgresStore" "faults s = []" "dcCache d = Some (store_cache clock (lift_store st))"
  shows "cached_abi lib d spec (n, s) =
    (case vABI (db_view s) (spChainID spec) (spAddress spec) of
       Some data \<Rightarrow> (case lbABIJSON lib data of Inr a \<Rightarrow> (Some a, (n, s)) | Inl e \<Rightarrow> (None, (n, s)))
     | None \<Rightarrow> (None, (n, s)))"
  using assms(3) by (simp add: cached_abi_def store_cache_def NewStoreABICache_def lift_store_def on_snd_def
      abi_no_fault [OF assms(1,2)] split: option.splits sum.splits)

lemma store_abi_store:
  assumes "st = SQLiteStore \<or> st = PostgresStore" "faults s = []" "dcCache d = Some (store_cache clock (lift_store st))"
  shows "store_abi d spec data (n, s) = (n, upsert_abi (clock (n, s)) (spChainID spec) (spAddress spec) data s)"
  using assms(3) by (simp add: store_abi_def store_cache_def NewStoreABICache_def lift_store_def on_snd_def
      abi_no_fault [OF assms(1,2)])

text \<open>
  C37. An ABI loaded from the network is loaded only once: with the cache in the store and no driver
  faults, whatever a first load returned, a second one for the same monitor, with the network in
  any state, returns the same ABI from the database and makes no request.
\<close>

theorem cached_abi_reused:
  assumes "st = SQLiteStore \<or> st = PostgresStore" "dcCache d = Some (store_cache clock (lift_store st))"
    and "keeps snd lib spec" "TrimSpace (spABI spec) = ''sourcify''" "faults s = []" "db_ok s"
    and "loadABI lib d spec (n, s) = (Inr a, (n', s'))"
  shows "loadABI lib d spec (m, s') = (Inr a, (m, s'))"
proof -
  note cached = cached_abi_store [OF assms(1) _ assms(2)]
  have chain: "spChainID spec \<noteq> 0" using assms(4,7) by (auto simp: loadABI_def)
  have "cached_abi lib d spec (m, s') = (Some a, (m, s'))"
  proof -
    obtain hit w1 where Pair: "cached_abi lib d spec (n, s) = (hit, w1)" by (rule prod.exhaust)
    show ?thesis
    proof (cases hit)
      case (Some b)
      then have "b = a \<and> w1 = (n', s')" using loadABI_hit [OF assms(4) chain, of lib d "(n, s)"] Pair assms(7) by simp
      with Pair Some assms(5) show ?thesis by (auto simp: cached split: option.splits sum.splits)
    next
      case None
      have w1: "w1 = (n, s)" using Pair by (auto simp: cached assms(5) split: option.splits sum.splits)
      obtain data b n2 s2 data' n3 s3 where fetch: "fetch_abi lib d spec (n, s) = (Inr data, (n2, s2))"
        and json: "lbABIJSON lib data = Inr b" and res: "resolve_proxy lib d spec data b (n2, s2) = ((data', a), (n3, s3))"
        and store: "store_abi d spec data' (n3, s3) = (n', s')"
        using assms(4,7) chain Pair None w1
        by (auto simp: loadABI_def split: prod.splits sum.splits)
      have "lbABIJSON lib data' = Inr a" using resolve_proxy_cases [OF res json] by simp
      moreover have "s3 = s" using fetch_keeps [OF assms(3) fetch] resolve_keeps [OF assms(3) res] by simp
      then have "s' = upsert_abi (clock (n3, s)) (spChainID spec) (spAddress spec) data' s"
        using store store_abi_store [OF assms(1,5,2)] by auto
      ultimately show ?thesis using upsert_abi_view [OF assms(6)] assms(5) by (simp add: cached)
    qed
  qed
  then show ?thesis by (rule loadABI_hit [OF assms(4) chain])
qed

section \<open>Examples\<close>

text \<open>An ABI is its text, every contract looks like a proxy, and the network counts requests.\<close>

definition ex_abi :: bytes where
  "ex_abi = string_bytes ''[]''"

definition ex_body :: string where
  "ex_body = object_text [(''abi'', SRaw ''[]'')]"

definition ex_libs :: "(bytes, nat \<times> db) libs" where
  "ex_libs = \<lparr>lbHex = (\<lambda>a. hex0x (be_bytes 20 a)), lbHexToAddress = (\<lambda>s. 5), lbBytesToAddress = (\<lambda>b. word_of_nat (be_nat b)),
     lbKeccak256 = (\<lambda>b. b), lbABIJSON = Inr, lbHasEvent = (\<lambda>a e. True),
     lbEventByID = (\<lambda>a t. Inr \<lparr>aeName = ''Paused'', aeInputs = []\<rparr>), lbNonIndexed = filter (\<lambda>x. \<not> agIndexed x),
     lbParseTopicsIntoMap = (\<lambda>m as ts. Inr m), lbUnpackIntoMap = (\<lambda>as m bs. Inr m),
     lbDo = (\<lambda>u (n, d). (Inr \<lparr>hrStatusCode = 200, hrBody = string_bytes ex_body, hrBodyErr = None\<rparr>, (Suc n, d)))\<rparr>"

definition ex_spec :: "(nat \<times> db) monitor_spec" where
  "ex_spec = \<lparr>spID = ''m'', spChainID = 10, spAddress = 5, spABI = '' sourcify'', spStorage = None\<rparr>"

definition ex_decoder :: "(bytes, nat \<times> db) decoder" where
  "ex_decoder = NewDecoder\<lparr>dcCache := Some (store_cache (\<lambda>w. 0) (lift_store SQLiteStore))\<rparr>"

lemma ex_unmarshal:
  obtains vals where "Unmarshal sourcify_payload ex_body = Inr vals" "vals ''abi'' = ''[]''"
proof -
  have "members_ok [(''abi'', SRaw ''[]'')]" "member_value ''ABI'' [(''abi'', SRaw ''[]'')] = Some (SRaw ''[]'')" by code_simp+
  then show thesis using that by (auto simp: ex_body_def elim: sourcify_unmarshal)
qed

lemma ex_fetch: "fetch_abi ex_libs ex_decoder ex_spec (n, d) = (Inr ex_abi, (Suc n, d))"
proof -
  have "length ex_body \<le> 100" by code_simp
  then have body: "length ex_body \<le> body_limit" by (simp add: body_limit_def)
  obtain vals where "Unmarshal sourcify_payload ex_body = Inr vals" "vals ''abi'' = ''[]''" by (rule ex_unmarshal)
  moreover have "url_Parse (sourcify_url ex_libs NewSourcifyFetcher c a) = Some ''https''" for c a
    by (rule sourcify_url_parses)
       (simp add: hex_form_def ex_libs_def hex0x_def to_lower_hex_encode to_lower_def is_upper_def char_in_def)
  moreover have "lbDo ex_libs u (n, d) = (Inr \<lparr>hrStatusCode = 200, hrBody = string_bytes ex_body, hrBodyErr = None\<rparr>, (Suc n, d))" for u
    by (simp add: ex_libs_def)
  ultimately show ?thesis using body
    by (simp add: fetch_abi_def Sourcify_FetchJSON_def ex_decoder_def NewDecoder_def ex_spec_def read_limited_whole ex_abi_def)
qed

lemma ex_trimmed: "TrimSpace (spABI ex_spec) = ''sourcify''" "spChainID ex_spec \<noteq> 0"
  by (simp_all add: ex_spec_def TrimSpace_def is_space_def)

lemma ex_cached: "cached_abi ex_libs ex_decoder ex_spec (n, migrated []) = (None, (n, migrated []))"
  by (subst cached_abi_store [where st = SQLiteStore and clock = "\<lambda>w. 0"])
    (simp_all add: ex_decoder_def migrated_def db_view_def)

theorem loadABI_proxy_safe_witness:
  "\<exists>w'. loadABI ex_libs ex_decoder ex_spec (0, migrated []) = (Inr ex_abi, w')"
proof -
  have "lbABIJSON ex_libs ex_abi = Inr ex_abi" "spStorage ex_spec = None" by (simp_all add: ex_libs_def ex_spec_def)
  with loadABI_proxy_safe [OF ex_trimmed ex_cached ex_fetch] show ?thesis by auto
qed

theorem cached_abi_reused_witness:
  "\<exists>s. loadABI ex_libs ex_decoder ex_spec (0, migrated []) = (Inr ex_abi, (1, s)) \<and>
     loadABI ex_libs ex_decoder ex_spec (99, s) = (Inr ex_abi, (99, s))"
proof -
  have "keeps snd ex_libs ex_spec" by (auto simp: keeps_def ex_libs_def ex_spec_def)
  moreover have "dcCache ex_decoder = Some (store_cache (\<lambda>w. 0) (lift_store SQLiteStore))" by (simp add: ex_decoder_def)
  moreover have "\<exists>s. loadABI ex_libs ex_decoder ex_spec (0, migrated []) = (Inr ex_abi, (1, s))"
  proof -
    have "resolve_proxy ex_libs ex_decoder ex_spec ex_abi ex_abi w = ((ex_abi, ex_abi), w)" for w
      by (simp add: resolve_proxy_def ex_spec_def)
    moreover have "\<exists>s. store_abi ex_decoder ex_spec ex_abi (1, migrated []) = (1, s)"
      by (subst store_abi_store [where st = SQLiteStore and clock = "\<lambda>w. 0"]) (simp_all add: ex_decoder_def migrated_def)
    moreover have "lbABIJSON ex_libs ex_abi = Inr ex_abi" by (simp add: ex_libs_def)
    ultimately show ?thesis using ex_trimmed ex_cached [of 0] ex_fetch by (simp add: loadABI_def)
  qed
  ultimately show ?thesis
    using cached_abi_reused [of SQLiteStore ex_decoder "\<lambda>w. 0" ex_libs ex_spec "migrated []" 0 ex_abi 1 _ 99]
      ex_trimmed(1) db_ok_migrated [of "[]"] by (auto simp: migrated_def)
qed

end
