(* ===== verification/Json_Total.thy ===== *)
theory Json_Total
  imports Json_Props
begin

text \<open>
  The decoder never panics: on a text that the scanner accepted, the decoder finds every key, colon and
  value it looks for, and every string can be unquoted.
\<close>

definition scan_accepts :: "nat \<Rightarrow> scanner \<Rightarrow> string \<Rightarrow> bool" where
  "scan_accepts depth sc s \<longleftrightarrow> (case scan_run depth sc s of None \<Rightarrow> False | Some sc' \<Rightarrow> scan_eof depth sc')"

lemma accepts_Cons: "scan_accepts depth sc (c # cs) \<longleftrightarrow> (\<exists>sc'. scan_step depth sc c = Some sc' \<and> scan_accepts depth sc' cs)"
  by (simp add: scan_accepts_def split: option.split)

lemma accepts_Nil: "scan_accepts depth sc [] \<longleftrightarrow> scan_eof depth sc"
  by (simp add: scan_accepts_def)

lemma accepts_nonempty:
  assumes "scan_accepts depth (st, stack) s" "stack \<noteq> []" "st \<noteq> EndTop"
  shows "s \<noteq> []"
  using assms scan_eof_open by (auto simp: accepts_Nil)

section \<open>Strings\<close>

lemma hex_plain: "is_hex_char c \<Longrightarrow> c \<noteq> CHR 0x22 \<and> c \<noteq> CHR 0x5C"
  by (auto simp: is_hex_char_def is_digit_def char_in_def)

definition simple_escape :: "char \<Rightarrow> bool" where
  "simple_escape e \<longleftrightarrow> e \<in> {CHR ''b'', CHR ''f'', CHR ''n'', CHR ''r'', CHR ''t'', CHR 0x5C, CHR ''/'', CHR 0x22}"

lemma simple_escape_u: "\<not> simple_escape (CHR ''u'')" "simple_escape e \<Longrightarrow> json_escape e \<noteq> None"
  by (auto simp: simple_escape_def json_escape_def)

text \<open>The contents of a string literal that the scanner reads without leaving it.\<close>

function string_body :: "string \<Rightarrow> bool" where
  "string_body [] = True"
| "string_body (c # cs) =
     (if c = CHR 0x5C then
        (case cs of
           [] \<Rightarrow> False
         | e # es \<Rightarrow>
             if simple_escape e then string_body es
             else e = CHR ''u'' \<and> 4 \<le> length es \<and> list_all is_hex_char (take 4 es) \<and> string_body (drop 4 es))
      else c \<noteq> CHR 0x22 \<and> \<not> of_char c < (32 :: nat) \<and> string_body cs)"
  by pat_completeness auto
termination
  by (relation "measure length") auto

declare string_body.simps(2) [simp del]

lemma body_plain: "c \<noteq> CHR 0x5C \<Longrightarrow> string_body (c # cs) \<longleftrightarrow> c \<noteq> CHR 0x22 \<and> \<not> of_char c < (32 :: nat) \<and> string_body cs"
  by (simp add: string_body.simps)

lemma body_escape: "simple_escape e \<Longrightarrow> string_body (CHR 0x5C # e # es) \<longleftrightarrow> string_body es"
  by (simp add: string_body.simps)

lemma body_escape_u:
  "string_body (CHR 0x5C # CHR ''u'' # es) \<longleftrightarrow> 4 \<le> length es \<and> list_all is_hex_char (take 4 es) \<and> string_body (drop 4 es)"
  by (simp add: string_body.simps simple_escape_u)

lemma literal_plain: "c \<noteq> CHR 0x22 \<Longrightarrow> c \<noteq> CHR 0x5C \<Longrightarrow> string_literal (c # cs) = apfst (Cons c) (string_literal cs)"
  by simp

lemma literal_escape: "string_literal (CHR 0x5C # e # es) = apfst (\<lambda>t. CHR 0x5C # e # t) (string_literal es)"
  by simp

lemma accepts_hex:
  assumes "scan_accepts depth (InStringEscU n, stack) s" "stack \<noteq> []"
  shows "\<exists>hs t. s = hs @ t \<and> length hs = Suc n \<and> list_all is_hex_char hs \<and> scan_accepts depth (InString, stack) t"
  using assms(1)
proof (induction n arbitrary: s)
  case 0
  then obtain c cs where s: "s = c # cs" using accepts_nonempty [OF 0 assms(2)] by (cases s) auto
  with 0 have "is_hex_char c" "scan_accepts depth (InString, stack) cs" by (auto simp: accepts_Cons split: if_split_asm)
  with s show ?case by (intro exI [of _ "[c]"] exI [of _ cs]) simp
next
  case (Suc n)
  then obtain c cs where s: "s = c # cs" using accepts_nonempty [OF Suc.prems assms(2)] by (cases s) auto
  with Suc.prems have c: "is_hex_char c" "scan_accepts depth (InStringEscU n, stack) cs"
    by (auto simp: accepts_Cons split: if_split_asm)
  from Suc.IH [OF c(2)] obtain hs t where "cs = hs @ t" "length hs = Suc n" "list_all is_hex_char hs" "scan_accepts depth (InString, stack) t"
    by blast
  with c(1) s show ?case by (intro exI [of _ "c # hs"] exI [of _ t]) simp
qed

lemma literal_hex: "list_all is_hex_char hs \<Longrightarrow> string_literal (hs @ s) = apfst (append hs) (string_literal s)"
proof (induction hs)
  case (Cons c hs)
  then show ?case using hex_plain [of c] by (simp add: apfst_def map_prod_def split: prod.split)
qed (simp add: apfst_def map_prod_def)

lemma string_scanned:
  assumes "scan_accepts depth (InString, stack) s" "stack \<noteq> []"
  shows "\<exists>t rest. string_literal s = (t @ [CHR 0x22], rest) \<and> string_body t \<and> scan_accepts depth (EndValue, stack) rest"
  using assms(1)
proof (induction s rule: length_induct)
  case (1 s)
  then obtain c cs where s: "s = c # cs" using accepts_nonempty [OF 1(2) assms(2)] by (cases s) auto
  have IH: thesis
    if "scan_accepts depth (InString, stack) u" "length u < length s"
      "\<And>t rest. string_literal u = (t @ [CHR 0x22], rest) \<Longrightarrow> string_body t \<Longrightarrow> scan_accepts depth (EndValue, stack) rest \<Longrightarrow> thesis"
    for u thesis using "1.IH" that by blast
  consider "c = CHR 0x22" | "c = CHR 0x5C" | "c \<noteq> CHR 0x22" "c \<noteq> CHR 0x5C" by blast
  then show ?case
  proof cases
    case 1
    then show ?thesis using \<open>scan_accepts depth (InString, stack) s\<close> s by (intro exI [of _ "[]"] exI [of _ cs]) (simp add: accepts_Cons)
  next
    case 2
    then have esc: "scan_accepts depth (InStringEsc, stack) cs" using \<open>scan_accepts depth (InString, stack) s\<close> s by (simp add: accepts_Cons)
    then obtain e es where cs: "cs = e # es" using accepts_nonempty [OF esc assms(2)] by (cases cs) auto
    show ?thesis
    proof (cases "simple_escape e")
      case True
      then have "scan_accepts depth (InString, stack) es" using esc cs by (auto simp: accepts_Cons simple_escape_def)
      then obtain t rest where "string_literal es = (t @ [CHR 0x22], rest)" "string_body t" "scan_accepts depth (EndValue, stack) rest"
        by (rule IH) (simp_all add: s cs)
      then show ?thesis
        using True 2 s cs by (intro exI [of _ "c # e # t"] exI [of _ rest]) (simp add: body_escape literal_escape del: string_literal.simps)
    next
      case False
      then have e: "e = CHR ''u''" and "scan_accepts depth (InStringEscU 3, stack) es"
        using esc cs by (auto simp: accepts_Cons simple_escape_def split: if_split_asm)
      from accepts_hex [OF this(2) assms(2)] obtain hs u where hs: "es = hs @ u" "length hs = 4" "list_all is_hex_char hs"
        "scan_accepts depth (InString, stack) u" by auto
      obtain t rest where "string_literal u = (t @ [CHR 0x22], rest)" "string_body t" "scan_accepts depth (EndValue, stack) rest"
        by (rule IH [OF hs(4)]) (simp_all add: s cs hs(1))
      then show ?thesis
        using 2 s cs e hs
        by (intro exI [of _ "c # e # hs @ t"] exI [of _ rest])
           (simp add: body_escape_u literal_escape literal_hex del: string_literal.simps)
    qed
  next
    case 3
    then have plain: "\<not> of_char c < (32 :: nat)" "scan_accepts depth (InString, stack) cs"
      using \<open>scan_accepts depth (InString, stack) s\<close> s by (auto simp: accepts_Cons split: if_split_asm)
    obtain t rest where "string_literal cs = (t @ [CHR 0x22], rest)" "string_body t" "scan_accepts depth (EndValue, stack) rest"
      by (rule IH [OF plain(2)]) (simp_all add: s)
    then show ?thesis
      using 3 s plain by (intro exI [of _ "c # t"] exI [of _ rest]) (simp add: body_plain literal_plain del: string_literal.simps)
  qed
qed

text \<open>Bytes of a rune beyond the first leave the rest of the string in order.\<close>

lemma body_drop_high: "string_body (hs @ t) \<Longrightarrow> list_all (char_in 128 191) hs \<Longrightarrow> string_body t"
proof (induction hs)
  case (Cons c hs)
  moreover have "c \<noteq> CHR 0x5C" using Cons.prems(2) by (auto simp: char_in_def)
  ultimately show ?case by (simp add: body_plain)
qed simp

lemma rune_tail: "list_all (char_in 128 191) (take (rune_len (c # cs) - 1) cs)"
  by (simp add: rune_len_def Let_def)

lemma body_rune:
  assumes "string_body cs"
  shows "string_body (drop (rune_len (c # cs) - 1) cs)"
  using body_drop_high [of "take (rune_len (c # cs) - 1) cs"] rune_tail assms by simp

lemma getu4_body:
  assumes "getu4 s = Some r" "string_body s"
  shows "string_body (drop 6 s)"
proof -
  have "take 2 s = [CHR 0x5C, CHR ''u'']" using assms(1) by (simp add: getu4_def Let_def split: if_split_asm)
  then obtain es where "s = CHR 0x5C # CHR ''u'' # es"
    by (metis append_Cons append_Nil append_take_drop_id)
  with assms(2) show ?thesis by (simp add: body_escape_u)
qed

lemma unquote_body: "string_body t \<Longrightarrow> unquote t \<noteq> None"
proof (induction t rule: length_induct)
  case (1 t)
  have IH: "unquote u \<noteq> None" if "string_body u" "length u < length t" for u using "1.IH" that by blast
  show ?case
  proof (cases t)
    case (Cons c cs)
    show ?thesis
    proof (cases "c = CHR 0x5C")
      case esc: True
      then obtain e es where cs: "cs = e # es" using "1.prems" Cons by (cases cs) (auto simp: string_body.simps)
      show ?thesis
      proof (cases "simple_escape e")
        case True
        moreover have "unquote es \<noteq> None" using True "1.prems" Cons esc cs by (intro IH) (simp_all add: body_escape)
        ultimately show ?thesis using simple_escape_u(2) [OF True] Cons esc cs by (auto simp: unquote.simps)
      next
        case False
        then have u: "e = CHR ''u''" "4 \<le> length es" "list_all is_hex_char (take 4 es)" "string_body (drop 4 es)"
          using "1.prems" Cons esc cs by (simp_all add: string_body.simps)
        have "json_escape (CHR ''u'') = None" by (simp add: json_escape_def)
        moreover have "getu4 t \<noteq> None" using u Cons esc cs by (simp add: getu4_def Let_def)
        moreover have "unquote (drop 4 es) \<noteq> None" by (rule IH [OF u(4)]) (simp add: Cons cs)
        moreover have "unquote (drop 6 (drop 4 es)) \<noteq> None" if "getu4 (drop 4 es) = Some r" for r
          using getu4_body [OF that u(4)] by (rule IH) (simp add: Cons cs)
        ultimately show ?thesis
          using Cons esc cs u(1) by (auto simp: unquote.simps Let_def bind_eq_Some_conv split: option.split)
      qed
    next
      case False
      then have body: "c \<noteq> CHR 0x22" "\<not> of_char c < (32 :: nat)" "string_body cs" using "1.prems" Cons by (simp_all add: body_plain)
      have "unquote cs \<noteq> None" by (rule IH [OF body(3)]) (simp add: Cons)
      moreover have "unquote (drop (rune_len (c # cs) - 1) cs) \<noteq> None" by (rule IH [OF body_rune [OF body(3)]]) (simp add: Cons)
      ultimately show ?thesis using Cons False body by (auto simp: unquote.simps Let_def)
    qed
  qed simp
qed

section \<open>Values\<close>

lemma accepts_space:
  assumes "scan_accepts depth (st, stack) s" "stack \<noteq> []" "st \<in> {BeginValue, BeginString, BeginStringOrEmpty, EndValue}"
  shows "scan_accepts depth (st, stack) (skip_space s)"
  using assms
proof (induction s)
  case (Cons c cs)
  have "scan_step depth (st, stack) c = Some (st, stack)" if "json_space c"
    using that Cons.prems(2,3) by (cases stack) (auto simp: begin_value_def begin_string_def end_value_def)
  then show ?case using Cons by (auto simp: accepts_Cons)
qed simp

text \<open>Numbers.\<close>

definition in_number :: "scan_state \<Rightarrow> bool" where
  "in_number st \<longleftrightarrow> st \<in> {InNeg, Num1, Num0, InDot, Dot0, InE, ESign, E0}"

lemma number_not_end:
  assumes "number_char c" "stack \<noteq> []"
  shows "end_value stack c = None"
proof -
  have "c \<notin> {CHR '','', CHR '':'', CHR ''}'', CHR '']''}" "\<not> json_space c"
    using assms(1) by (auto simp: number_char_def is_digit_def char_in_def json_space_def)
  then show ?thesis using assms(2) by (cases stack) (simp_all add: end_value_def split: parse_frame.split)
qed

lemma number_step:
  assumes "in_number st" "stack \<noteq> []" "scan_step depth (st, stack) c = Some sc"
  shows "if number_char c then \<exists>st'. sc = (st', stack) \<and> in_number st' else end_value stack c = Some sc"
proof (cases "number_char c")
  case True
  then show ?thesis
    using assms number_not_end [OF True assms(2)]
    by (cases st) (auto simp: in_number_def num0_def exp_digit_def split: if_split_asm)
next
  case False
  then have c: "\<not> is_digit c" "\<not> exponent c" "c \<noteq> CHR ''.''" "c \<noteq> CHR ''+''" "c \<noteq> CHR ''-''"
    by (auto simp: number_char_def exponent_def)
  moreover have "c \<noteq> CHR ''0''" using c(1) by (auto simp: is_digit_def char_in_def)
  ultimately show ?thesis using assms False by (cases st) (simp_all add: in_number_def num0_def exp_digit_def)
qed

lemma number_scanned:
  "scan_accepts depth (st, stack) s \<Longrightarrow> in_number st \<Longrightarrow> stack \<noteq> [] \<Longrightarrow> scan_accepts depth (EndValue, stack) (dropWhile number_char s)"
proof (induction s arbitrary: st)
  case Nil
  then show ?case using scan_eof_open [of stack st depth] by (auto simp: accepts_Nil in_number_def)
next
  case (Cons c cs)
  then obtain sc where "scan_step depth (st, stack) c = Some sc" "scan_accepts depth sc cs" by (auto simp: accepts_Cons)
  with number_step [OF Cons.prems(2,3)] Cons.IH Cons.prems(3) show ?case
    by (fastforce simp: accepts_Cons split: if_split_asm)
qed

text \<open>Constants, arrays and objects.\<close>

lemma constant_scanned:
  "scan_accepts depth (InLit r, stack) s \<Longrightarrow> r \<noteq> [] \<Longrightarrow> stack \<noteq> [] \<Longrightarrow> scan_accepts depth (EndValue, stack) (drop (length r) s)"
proof (induction r arbitrary: s)
  case (Cons c r)
  from accepts_nonempty [OF Cons.prems(1,3)] obtain c' cs where s: "s = c' # cs" by (cases s) auto
  with Cons.prems(1) have "scan_accepts depth (if r = [] then EndValue else InLit r, stack) cs"
    by (auto simp: accepts_Cons split: if_split_asm)
  with Cons s show ?case by (cases "r = []") simp_all
qed simp

lemma skip_scanned:
  assumes "scan_accepts (Suc depth) (st, xs @ [f]) s" "xs \<noteq> []" "st \<noteq> EndTop"
  shows "\<exists>t rest. skip (Suc depth) 2 (st, xs @ [f]) s = Some (t, rest) \<and> scan_accepts (Suc depth) (EndValue, [f]) rest"
  using assms
proof (induction s arbitrary: st xs)
  case Nil
  then show ?case using scan_eof_open [of "xs @ [f]" st "Suc depth"] by (simp add: accepts_Nil)
next
  case (Cons c cs)
  then obtain sc where step: "scan_step (Suc depth) (st, xs @ [f]) c = Some sc" and acc: "scan_accepts (Suc depth) sc cs"
    by (auto simp: accepts_Cons)
  obtain st1 xs1 where low: "scan_step depth (st, xs) c = Some (st1, xs1)" and sc: "sc = nested [f] (st1, xs1)"
    using scan_step_nested [OF Cons.prems(2), of depth "[f]" st c] step by (cases "scan_step depth (st, xs) c") auto
  have top: "(st1 = EndTop) = (xs1 = [])"
    using scan_step_open [OF Cons.prems(2,3), of depth c] by (simp add: low open_or_top_def)
  show ?case
  proof (cases "xs1 = []")
    case True
    then show ?thesis using step sc acc by (simp add: nested_def)
  next
    case False
    then have "scan_accepts (Suc depth) (st1, xs1 @ [f]) cs" "st1 \<noteq> EndTop" using sc acc top by (simp_all add: nested_def)
    from Cons.IH [OF this(1) False this(2)] show ?thesis using step sc False by (auto simp: nested_def Suc_le_eq)
  qed
qed

lemma literal_scanned:
  assumes "scan_accepts depth (InString, stack) cs" "stack \<noteq> []"
  shows "\<exists>t rest. rescanLiteral (CHR 0x22 # cs) = (t, rest) \<and> starts (CHR 0x22) t \<and> unquote (inner t) \<noteq> None \<and> scan_accepts depth (EndValue, stack) rest"
proof -
  from string_scanned [OF assms] obtain t rest where t: "string_literal cs = (t @ [CHR 0x22], rest)" "string_body t"
    "scan_accepts depth (EndValue, stack) rest" by blast
  have "inner (CHR 0x22 # t @ [CHR 0x22]) = t" by (simp add: inner_def)
  with t unquote_body [OF t(2)] show ?thesis
    by (intro exI [of _ "CHR 0x22 # t @ [CHR 0x22]"] exI [of _ rest]) (simp add: starts_def)
qed

lemma value_scanned:
  assumes "scan_accepts maxNestingDepth (BeginValue, [ParseObjectValue]) (c # cs)" "\<not> json_space c"
  shows "\<exists>raw rest. value_text (c # cs) = Some (raw, rest) \<and> scan_accepts maxNestingDepth (EndValue, [ParseObjectValue]) rest \<and>
    (starts (CHR 0x22) raw \<longrightarrow> unquote (inner raw) \<noteq> None)"
proof -
  obtain sc where step: "begin_value maxNestingDepth [ParseObjectValue] c = Some sc" and acc: "scan_accepts maxNestingDepth sc cs"
    using assms(1) by (auto simp: accepts_Cons)
  have suc: "maxNestingDepth = Suc 9999" by (simp add: maxNestingDepth_def)
  consider "opens c" | "c = CHR 0x22" | "is_digit c \<or> c = CHR ''-''" | "c \<in> {CHR ''t'', CHR ''f'', CHR ''n''}"
    using step assms(2) by (auto simp: begin_value_def opens_def is_digit_def char_in_def split: if_split_asm)
  then show ?thesis
  proof cases
    case 1
    obtain st f where sc: "sc = (st, [f] @ [ParseObjectValue])" "st \<noteq> EndTop"
      using 1 step by (auto simp: begin_value_def opens_def json_space_def push_frame_def split: if_split_asm)
    have "\<exists>t rest. skip maxNestingDepth 2 sc cs = Some (t, rest) \<and> scan_accepts maxNestingDepth (EndValue, [ParseObjectValue]) rest"
      using acc unfolding sc(1) suc by (rule skip_scanned) (simp_all add: sc(2))
    moreover have "\<not> starts (CHR 0x22) (c # t)" for t using 1 by (auto simp: starts_def opens_def)
    ultimately show ?thesis using 1 step by auto
  next
    case 2
    then have "sc = (InString, [ParseObjectValue])" using step by (simp add: begin_value_def json_space_def)
    from literal_scanned [OF acc [unfolded this]] 2 show ?thesis by (auto simp: opens_def simp del: rescanLiteral.simps)
  next
    case 3
    then have "\<exists>st. sc = (st, [ParseObjectValue]) \<and> in_number st"
      using step by (auto simp: begin_value_def in_number_def json_space_def is_digit_def char_in_def split: if_split_asm)
    then have "scan_accepts maxNestingDepth (EndValue, [ParseObjectValue]) (dropWhile number_char cs)" using number_scanned acc by blast
    moreover have "c \<noteq> CHR 0x22" "\<not> opens c" using 3 by (auto simp: opens_def is_digit_def char_in_def)
    ultimately show ?thesis using 3 by (simp add: starts_def)
  next
    case 4
    have "\<exists>r. sc = (InLit r, [ParseObjectValue]) \<and> r \<noteq> [] \<and> rescanLiteral (c # cs) = (c # take (length r) cs, drop (length r) cs)"
      using 4 step by (auto simp: begin_value_def json_space_def is_digit_def char_in_def eval_nat_numeral)
    then obtain r where r: "sc = (InLit r, [ParseObjectValue])" "r \<noteq> []" "rescanLiteral (c # cs) = (c # take (length r) cs, drop (length r) cs)"
      by blast
    moreover have "c \<noteq> CHR 0x22" "\<not> opens c" using 4 by (auto simp: opens_def)
    ultimately show ?thesis
      using constant_scanned [OF acc [unfolded r(1)] r(2)] by (simp add: starts_def del: rescanLiteral.simps)
  qed
qed

section \<open>Members\<close>

lemma starts_Cons: "starts c (d # s) \<longleftrightarrow> d = c"
  by (simp add: starts_def)

lemma member_scanned:
  assumes "scan_accepts maxNestingDepth (InString, [ParseObjectKey]) cs"
  shows "\<exists>key raw rest. json_member (CHR 0x22 # cs) = Some (key, raw, rest) \<and>
    scan_accepts maxNestingDepth (EndValue, [ParseObjectValue]) rest \<and> (starts (CHR 0x22) raw \<longrightarrow> unquote (inner raw) \<noteq> None)"
proof -
  from literal_scanned [OF assms] obtain item s1 key where item: "rescanLiteral (CHR 0x22 # cs) = (item, s1)" "unquote (inner item) = Some key"
    and s1: "scan_accepts maxNestingDepth (EndValue, [ParseObjectKey]) s1" by auto
  from accepts_space [OF s1] have colon: "scan_accepts maxNestingDepth (EndValue, [ParseObjectKey]) (skip_space s1)" by simp
  then obtain c s2 where c: "skip_space s1 = c # s2" using accepts_nonempty [OF colon] by (cases "skip_space s1") auto
  have "\<not> json_space c" using c hd_dropWhile [of json_space s1] by auto
  then have s2: "c = CHR '':''" "scan_accepts maxNestingDepth (BeginValue, [ParseObjectValue]) s2"
    using colon c by (auto simp: accepts_Cons end_value_def split: if_split_asm)
  from accepts_space [OF s2(2)] have s3: "scan_accepts maxNestingDepth (BeginValue, [ParseObjectValue]) (skip_space s2)" by simp
  then obtain d s4 where d: "skip_space s2 = d # s4" using accepts_nonempty [OF s3] by (cases "skip_space s2") auto
  have "\<not> json_space d" using d hd_dropWhile [of json_space s2] by auto
  from value_scanned [OF s3 [unfolded d] this] item s2(1) c d show ?thesis
    by (auto simp: json_member_def starts_Cons simp del: rescanLiteral.simps value_text.simps)
qed

lemma decode_no_panic:
  assumes "fst d \<noteq> Some PhasePanic" "starts (CHR 0x22) raw \<longrightarrow> unquote (inner raw) \<noteq> None" "raw \<noteq> []"
  shows "fst (decode_member fds d key raw) \<noteq> Some PhasePanic"
  using assms
  by (auto simp: decode_member_def store_value_def starts_def split: option.splits field_kind.split sum.split if_split_asm)

lemma value_text_nonempty: "value_text s = Some (raw, rest) \<Longrightarrow> raw \<noteq> []"
  by (cases s) (auto split: if_split_asm option.split_asm prod.split_asm simp: apfst_def map_prod_def)

lemma members_scanned:
  assumes "scan_accepts maxNestingDepth (st, [ParseObjectKey]) s" "st = BeginString \<or> st = BeginStringOrEmpty" "fst d \<noteq> Some PhasePanic"
  shows "\<exists>d'. members fds d s = Some d' \<and> fst d' \<noteq> Some PhasePanic"
  using assms
proof (induction fds d s arbitrary: st rule: members.induct)
  case (1 fds d s)
  have acc: "scan_accepts maxNestingDepth (st, [ParseObjectKey]) (skip_space s)" using accepts_space [OF 1(2)] 1(3) by auto
  then obtain c cs where c: "skip_space s = c # cs" using accepts_nonempty [OF acc] 1(3) by (cases "skip_space s") auto
  have "\<not> json_space c" using c hd_dropWhile [of json_space s] by auto
  then consider "c = CHR ''}''" | "c = CHR 0x22" "scan_accepts maxNestingDepth (InString, [ParseObjectKey]) cs" "c \<noteq> CHR ''}''"
    using acc c 1(3) by (auto simp: accepts_Cons begin_string_def split: if_split_asm)
  then show ?case
  proof cases
    case 1
    then show ?thesis using c \<open>fst d \<noteq> Some PhasePanic\<close> by (simp add: members.simps [of fds d s] starts_Cons)
  next
    case 2
    from member_scanned [OF 2(2)] obtain key raw rest where m: "json_member (skip_space s) = Some (key, raw, rest)"
      and rest: "scan_accepts maxNestingDepth (EndValue, [ParseObjectValue]) rest"
      and raw: "starts (CHR 0x22) raw \<longrightarrow> unquote (inner raw) \<noteq> None" using c 2(1) by auto
    have "raw \<noteq> []" using m value_text_nonempty by (auto simp: json_member_def split: if_split_asm prod.split_asm option.split_asm)
    define d' where "d' = decode_member fds d key raw"
    have d': "fst d' \<noteq> Some PhasePanic" unfolding d'_def by (rule decode_no_panic [OF 1(4) raw \<open>raw \<noteq> []\<close>])
    have no: "\<not> starts (CHR ''}'') (skip_space s)" using c 2(3) by (simp add: starts_Cons)
    from accepts_space [OF rest] have acc': "scan_accepts maxNestingDepth (EndValue, [ParseObjectValue]) (skip_space rest)" by simp
    then obtain e es where e: "skip_space rest = e # es" using accepts_nonempty [OF acc'] by (cases "skip_space rest") auto
    have "\<not> json_space e" using e hd_dropWhile [of json_space rest] by auto
    then consider "e = CHR '',''" "scan_accepts maxNestingDepth (BeginString, [ParseObjectKey]) es" | "e = CHR ''}''" "e \<noteq> CHR '',''"
      using acc' e by (auto simp: accepts_Cons end_value_def split: if_split_asm)
    then show ?thesis
    proof cases
      case 1
      then have s': "starts (CHR '','') (skip_space rest)" "tl (skip_space rest) = es" using e by (simp_all add: starts_Cons)
      from "1.IH" [OF no m refl refl d'_def refl s'(1), of BeginString] s'(2) 1(2) d' show ?thesis
        by (simp add: members.simps [of fds d s] no m s'(1) flip: d'_def)
    next
      case 2
      then show ?thesis using e d' by (simp add: members.simps [of fds d s] no m starts_Cons flip: d'_def)
    qed
  qed
qed

lemma Unmarshal_no_panic: "Unmarshal fds s \<noteq> Inl PhasePanic"
proof (cases "checkValid s \<and> starts (CHR ''{'') (skip_space s)")
  case True
  have space: "scan_accepts depth (BeginValue, []) (skip_space s)" if "scan_accepts depth (BeginValue, []) s" for depth s
    using that
  proof (induction s)
    case (Cons c s)
    then show ?case by (cases "json_space c") (simp_all add: accepts_Cons begin_value_def [of _ _ c])
  qed simp
  from True have "scan_accepts maxNestingDepth (BeginValue, []) s" by (simp add: checkValid_def valid_json_def scan_accepts_def)
  from space [OF this] True have "scan_accepts maxNestingDepth (BeginStringOrEmpty, [ParseObjectKey]) (tl (skip_space s))"
    by (cases "skip_space s") (auto simp: starts_def accepts_Cons begin_value_def push_frame_def json_space_def split: if_split_asm)
  from members_scanned [OF this, of "(None, \<lambda>_. [])" fds] True show ?thesis
    by (auto simp: Unmarshal_def split: option.split)
qed (auto simp: Unmarshal_def)

end
