(* ===== verification/Wiring.thy ===== *)
theory Wiring
  imports Tracker Logs Alerts Rpc Rules Notify Reads Decode
begin

text \<open>
  How the program puts its components together (\<open>cmd/opsentry/main.go\<close>): the per-chain views of the
  configuration, the start of a chain, the callbacks that carry a log through decoding, state
  reads, rules and the alert manager to the receivers, the callback for a reverted block, the
  reload of the rules and the two command-line checks.

  The state of a chain's closures is a record: the client with its pool, the state readers, the
  current rules, the router and the network; with the database it is the world the tracker acts
  on. The router, the network and the database are shared by all chains. What lies outside the
  repository is the record \<open>platform\<close>; all components make their calls on the metrics through \<open>pfSinks\<close>. Log
  lines, the HTTP server and the handling of signals are left out.
\<close>

section \<open>Views of the configuration\<close>

definition level_of :: "(string, bytes20 list) gomap \<Rightarrow> monitor_cfg \<Rightarrow> string" where
  "level_of out m =
     (let conf = (if moConfirmation m = [] then ''fast'' else moConfirmation m)
      in if map_of out conf = None then ''fast'' else conf)"

definition at_level :: "(string, bytes20 list) gomap \<Rightarrow> string \<Rightarrow> bytes20 list" where
  "at_level out conf = (case map_of out conf of Some as \<Rightarrow> as | None \<Rightarrow> [])"

fun collect_addresses ::
  "(string \<Rightarrow> bytes20) \<Rightarrow> string \<Rightarrow> monitor_cfg list \<Rightarrow> (string, bytes20 list) gomap \<Rightarrow> (string, bytes20 list) gomap
     \<Rightarrow> (string, bytes20 list) gomap" where
  "collect_addresses hexToAddress chain [] out seen = out"
| "collect_addresses hexToAddress chain (m # ms) out seen =
     (if moChain m \<noteq> chain \<or> moAddress m = [] then collect_addresses hexToAddress chain ms out seen
      else
        (let conf = level_of out m; addr = hexToAddress (moAddress m)
         in if addr \<in> set (at_level seen conf) then collect_addresses hexToAddress chain ms out seen
            else collect_addresses hexToAddress chain ms
                   (gm_put conf (at_level out conf @ [addr]) out)
                   (gm_put conf (addr # at_level seen conf) seen)))"

definition monitorAddressesByConfirmation ::
  "(string \<Rightarrow> bytes20) \<Rightarrow> monitor_cfg list \<Rightarrow> string \<Rightarrow> (string, bytes20 list) gomap" where
  "monitorAddressesByConfirmation hexToAddress monitors chain =
     collect_addresses hexToAddress chain monitors
       [(''fast'', []), (''safe'', []), (''finalized'', [])] [(''fast'', []), (''safe'', []), (''finalized'', [])]"

text \<open>The specs without their storage reader, which the caller sets.\<close>

fun monitorSpecs :: "(string \<Rightarrow> bytes20) \<Rightarrow> monitor_cfg list \<Rightarrow> chain_cfg \<Rightarrow> 'w monitor_spec list" where
  "monitorSpecs hexToAddress [] ch = []"
| "monitorSpecs hexToAddress (m # ms) ch =
     (if moChain m \<noteq> chID ch \<or> moAddress m = [] then monitorSpecs hexToAddress ms ch
      else \<lparr>spID = moID m, spChainID = chChainID ch, spAddress = hexToAddress (moAddress m), spABI = moABI m,
            spStorage = None\<rparr> # monitorSpecs hexToAddress ms ch)"

fun read_defs :: "read_cfg list \<Rightarrow> read_def list" where
  "read_defs [] = []"
| "read_defs (r # rs) =
     (if rdOutput r = [] then read_defs rs
      else \<lparr>dfName = rdName r, dfMethod = rdMethod r, dfOutput = rdOutput r\<rparr> # read_defs rs)"

fun build_readers ::
  "(string \<Rightarrow> bytes20) \<Rightarrow> string \<Rightarrow> monitor_cfg list \<Rightarrow> (string, state_reader) gomap \<Rightarrow> (string, state_reader) gomap" where
  "build_readers hexToAddress chain [] out = out"
| "build_readers hexToAddress chain (m # ms) out =
     (if moChain m \<noteq> chain \<or> moReads m = [] then build_readers hexToAddress chain ms out
      else if read_defs (moReads m) = [] then build_readers hexToAddress chain ms out
      else build_readers hexToAddress chain ms
             (gm_put (moID m) \<lparr>srMonitorID = moID m, srAddress = hexToAddress (moAddress m), srDefs = read_defs (moReads m),
                srLatestBlock = 0, srLatest = None, srPrev = None\<rparr> out))"

definition buildStateReaders ::
  "(string \<Rightarrow> bytes20) \<Rightarrow> monitor_cfg list \<Rightarrow> string \<Rightarrow> (string, state_reader) gomap" where
  "buildStateReaders hexToAddress monitors chain = build_readers hexToAddress chain monitors []"

fun monitorRules :: "monitor_cfg list \<Rightarrow> string \<Rightarrow> monitor_rules list" where
  "monitorRules [] chain = []"
| "monitorRules (m # ms) chain =
     (if moChain m \<noteq> chain then monitorRules ms chain
      else \<lparr>mrMonitorID = moID m,
            mrRules = map (\<lambda>r. \<lparr>rWhen = ruWhen r, rSeverity = ruSeverity r, rReceivers = ruReceivers r\<rparr>) (moRules m)\<rparr>
           # monitorRules ms chain)"

section \<open>The platform and the world of a chain\<close>

record ('a, 'p, 'n) platform =
  pfClock :: "'n \<Rightarrow> gotime"
  pfDial :: "string \<Rightarrow> 'n \<Rightarrow> err option \<times> 'n"
  pfHeaderByNumber :: "u64 \<Rightarrow> (header, 'n) node_call"
  pfHeadByTag :: "string \<Rightarrow> (header option, 'n) node_call"
  pfFilterLogs :: "u64 \<times> u64 \<times> bytes20 list \<Rightarrow> (gethlog list, 'n) node_call"
  pfStorageAt :: "bytes20 \<Rightarrow> bytes32 \<Rightarrow> (bytes, 'n) node_call"
  pfCallContract :: "bytes20 \<times> bytes \<Rightarrow> u64 option \<Rightarrow> (bytes, 'n) node_call"
  pfLibs :: "('a, 'n) libs"
  pfCompile :: "string \<Rightarrow> err + 'p"
  pfRun :: "'p \<Rightarrow> envmap \<Rightarrow> err + goval"
  pfSinks :: "'n sinks"

record ('p, 'n) chain_state =
  csClient :: client
  csReaders :: "(string, state_reader) gomap"
  csRules :: "'p compiled list"
  csRouter :: router
  csNet :: 'n

type_synonym ('p, 'n) world = "('p, 'n) chain_state \<times> db"

text \<open>A call of the client as the components see it: its errors are strings.\<close>

fun rpc_err_msg :: "rpc_err \<Rightarrow> err" where
  "rpc_err_msg (CtxEnded e) = e"
| "rpc_err_msg (NoEndpoints chain) = chain @ '': no endpoints available''"
| "rpc_err_msg (AllFailed chain what e) = chain @ '': '' @ what @ '': all endpoints failed (last: '' @ e @ '')''"

definition client_op ::
  "(client \<Rightarrow> 'n \<Rightarrow> (rpc_err + 'x) \<times> client \<times> 'n) \<Rightarrow> ('p, 'n) world \<Rightarrow> (err + 'x) \<times> ('p, 'n) world" where
  "client_op f w =
     (case f (csClient (fst w)) (csNet (fst w)) of
        (out, c, n) \<Rightarrow> (map_sum rpc_err_msg id out, ((fst w)\<lparr>csClient := c, csNet := n\<rparr>, snd w)))"

definition net_op :: "('n \<Rightarrow> 'x \<times> 'n) \<Rightarrow> ('p, 'n) world \<Rightarrow> 'x \<times> ('p, 'n) world" where
  "net_op f w = (case f (csNet (fst w)) of (x, n) \<Rightarrow> (x, ((fst w)\<lparr>csNet := n\<rparr>, snd w)))"

definition world_libs :: "('a, 'n) libs \<Rightarrow> ('a, ('p, 'n) world) libs" where
  "world_libs lib =
     \<lparr>lbHex = lbHex lib, lbHexToAddress = lbHexToAddress lib, lbBytesToAddress = lbBytesToAddress lib,
      lbKeccak256 = lbKeccak256 lib, lbABIJSON = lbABIJSON lib, lbHasEvent = lbHasEvent lib, lbEventByID = lbEventByID lib,
      lbNonIndexed = lbNonIndexed lib, lbParseTopicsIntoMap = lbParseTopicsIntoMap lib,
      lbUnpackIntoMap = lbUnpackIntoMap lib, lbDo = (\<lambda>u. net_op (lbDo lib u))\<rparr>"

definition world_clock :: "('a, 'p, 'n) platform \<Rightarrow> ('p, 'n) world \<Rightarrow> gotime" where
  "world_clock pf w = pfClock pf (csNet (fst w))"

text \<open>The calls on the metrics, which the whole process shares.\<close>

definition net_obs :: "('a, 'p, 'n) platform \<Rightarrow> metric \<Rightarrow> 'n \<Rightarrow> 'n" where
  "net_obs pf = skObs (pfSinks pf)"

definition world_obs :: "('a, 'p, 'n) platform \<Rightarrow> metric \<Rightarrow> ('p, 'n) world \<Rightarrow> ('p, 'n) world" where
  "world_obs pf m w = ((fst w)\<lparr>csNet := net_obs pf m (csNet (fst w))\<rparr>, snd w)"

definition node_host :: "('a, 'p, 'n) platform \<Rightarrow> 'n host" where
  "node_host pf = \<lparr>hoNow = pfClock pf, hoObs = net_obs pf\<rparr>"

definition client_calls :: "('a, 'p, 'n) platform \<Rightarrow> ('p, 'n) world call_client" where
  "client_calls pf =
     \<lparr>ccKeccak256 = lbKeccak256 (pfLibs pf),
      ccCallContract = (\<lambda>addr sel block. client_op (\<lambda>c. CallContract (node_host pf) (pfCallContract pf) c (addr, sel) (Some block)))\<rparr>"

definition client_storage :: "('a, 'p, 'n) platform \<Rightarrow> ('p, 'n) world storage_reader" where
  "client_storage pf =
     \<lparr>rdStorageAt = (\<lambda>addr slot. client_op (\<lambda>c. StorageAt (node_host pf) (pfStorageAt pf) c addr slot)),
      rdCallContract = (\<lambda>addr sel block. client_op (\<lambda>c. CallContract (node_host pf) (pfCallContract pf) c (addr, sel) block))\<rparr>"

section \<open>From a log to the receivers\<close>

definition send_env :: "('a, 'p, 'n) platform \<Rightarrow> string \<Rightarrow> envmap \<Rightarrow> ('p, 'n) world \<Rightarrow> send_err option \<times> ('p, 'n) world" where
  "send_env pf rid env w =
     (case Router_SendEnv (pfSinks pf) (csRouter (fst w)) rid env (csNet (fst w)) of
        (e, r, n) \<Rightarrow> (e, ((fst w)\<lparr>csRouter := r, csNet := n\<rparr>, snd w)))"

definition send_alert :: "('a, 'p, 'n) platform \<Rightarrow> string \<Rightarrow> alert \<Rightarrow> ('p, 'n) world \<Rightarrow> send_err option \<times> ('p, 'n) world" where
  "send_alert pf rid a w =
     (case Router_Send (pfSinks pf) (csRouter (fst w)) rid a (csNet (fst w)) of
        (e, r, n) \<Rightarrow> (e, ((fst w)\<lparr>csRouter := r, csNet := n\<rparr>, snd w)))"

text \<open>An error of a receiver is logged and the loop goes on; a message without an error is counted.\<close>

fun notify_all :: "('a, 'p, 'n) platform \<Rightarrow> alert \<Rightarrow> string list \<Rightarrow> ('p, 'n) world \<Rightarrow> ('p, 'n) world" where
  "notify_all pf a [] w = w"
| "notify_all pf a (rid # rids) w =
     (case send_alert pf rid a w of
        (Some e, w') \<Rightarrow> notify_all pf a rids w'
      | (None, w') \<Rightarrow> notify_all pf a rids (world_obs pf (Inc AlertsSent [rid, kind_string (aKind a)]) w'))"

definition alert_manager :: "('a, 'p, 'n) platform \<Rightarrow> db store \<Rightarrow> ('p, 'n) world manager" where
  "alert_manager pf st = \<lparr>mgStore = lift_store st, mgNow = world_clock pf, mgObs = world_obs pf\<rparr>"

fun handle_matches :: "('a, 'p, 'n) platform \<Rightarrow> db store \<Rightarrow> rmatch list \<Rightarrow> ('p, 'n) world \<Rightarrow> ('p, 'n) world" where
  "handle_matches pf st [] w = w"
| "handle_matches pf st (m # ms) w =
     (case Handle (alert_manager pf st) m w of
        (Inl e, w') \<Rightarrow> handle_matches pf st ms w'
      | (Inr None, w') \<Rightarrow> handle_matches pf st ms w'
      | (Inr (Some a), w') \<Rightarrow> handle_matches pf st ms (notify_all pf a (mReceivers m) w'))"

definition enrich_event :: "('a, 'p, 'n) platform \<Rightarrow> event \<Rightarrow> ('p, 'n) world \<Rightarrow> event \<times> ('p, 'n) world" where
  "enrich_event pf ev w =
     (case map_of (csReaders (fst w)) (eMonitorID ev) of
        None \<Rightarrow> (ev, w)
      | Some r \<Rightarrow>
          (case Enrich (client_calls pf) r ev w of
             (r', ev', w') \<Rightarrow>
               (ev', ((fst w')\<lparr>csReaders := gm_put (eMonitorID ev) r' (csReaders (fst w'))\<rparr>, snd w'))))"

definition onLog ::
  "('a, 'p, 'n) platform \<Rightarrow> db store \<Rightarrow> ('a, ('p, 'n) world) decoder \<Rightarrow> log \<Rightarrow> ('p, 'n) world \<Rightarrow> ('p, 'n) world" where
  "onLog pf st dec l w =
     (case Decode (world_libs (pfLibs pf) :: ('a, ('p, 'n) world) libs) dec l of
        Inl e \<Rightarrow> w
      | Inr ev \<Rightarrow>
          (case enrich_event pf ev w of
             (ev', w') \<Rightarrow> handle_matches pf st (Eval (pfRun pf) (csRules (fst w')) ev') w'))"

section \<open>Reverted blocks\<close>

fun notify_revert :: "('a, 'p, 'n) platform \<Rightarrow> envmap \<Rightarrow> string list \<Rightarrow> ('p, 'n) world \<Rightarrow> ('p, 'n) world" where
  "notify_revert pf env [] w = w"
| "notify_revert pf env (rid # rids) w =
     (case send_env pf rid env w of
        (Some e, w') \<Rightarrow> notify_revert pf env rids w'
      | (None, w') \<Rightarrow> notify_revert pf env rids (world_obs pf (Inc AlertsSent [rid, kind_string AlertReverted]) w'))"

definition revert_env :: "stored_alert \<Rightarrow> envmap" where
  "revert_env sa = gm_put ''kind'' (VString (kind_string AlertReverted)) (case saEnv sa of None \<Rightarrow> [] | Some env \<Rightarrow> env)"

fun revert_alerts :: "('a, 'p, 'n) platform \<Rightarrow> stored_alert list \<Rightarrow> ('p, 'n) world \<Rightarrow> ('p, 'n) world" where
  "revert_alerts pf [] w = w"
| "revert_alerts pf (sa # sas) w = revert_alerts pf sas (notify_revert pf (revert_env sa) (saReceivers sa) w)"

definition onReverted :: "('a, 'p, 'n) platform \<Rightarrow> db store \<Rightarrow> string \<Rightarrow> blockref \<Rightarrow> ('p, 'n) world \<Rightarrow> ('p, 'n) world" where
  "onReverted pf st chain b w =
     (case LoadAlertsAtBlock (lift_store st) chain (bNumber b) (bHash b) w of
        (Inl e, w') \<Rightarrow> w'
      | (Inr stored, w') \<Rightarrow> revert_alerts pf stored w')"

section \<open>Starting a chain\<close>

definition chain_fetcher ::
  "('a, 'p, 'n) platform \<Rightarrow> db store \<Rightarrow> ('a, ('p, 'n) world) decoder \<Rightarrow> string \<Rightarrow> bytes20 list \<Rightarrow> ('p, 'n) world logfetcher" where
  "chain_fetcher pf st dec chain addrs =
     \<lparr>lfChain = chain,
      lfFilterLogs = (\<lambda>from to as. client_op (\<lambda>c. FilterLogs (node_host pf) (pfFilterLogs pf) c (from, to, as))),
      lfAddresses = addrs, lfBatchSize = 0, lfOnLog = Some (onLog pf st dec)\<rparr>"

text \<open>\<open>time.Duration(ms) * time.Millisecond\<close> in 64 bits.\<close>

definition wrap64 :: "int \<Rightarrow> int" where
  "wrap64 i = sint (word_of_int i :: u64)"

definition chain_interval :: "chain_cfg \<Rightarrow> duration" where
  "chain_interval ch = (let interval = wrap64 (chBlockTimeMs ch * 1000000) in if interval = 0 then 2 * second else interval)"

text \<open>The callback for each canonical block only logs it.\<close>

definition chain_tracker ::
  "('a, 'p, 'n) platform \<Rightarrow> db store \<Rightarrow> ('a, ('p, 'n) world) decoder \<Rightarrow> config \<Rightarrow> chain_cfg \<Rightarrow> ('p, 'n) world headtracker" where
  "chain_tracker pf st dec cfg ch =
     (let addrsByConf = monitorAddressesByConfirmation (lbHexToAddress (pfLibs pf)) (cfgMonitors cfg) (chID ch);
          fetcher = (\<lambda>conf. chain_fetcher pf st dec (chID ch) (at_level addrsByConf conf))
      in \<lparr>tChain = chID ch, tInterval = chain_interval ch, tTag = ''latest'',
          tConfirmDepth = word_of_int (cfFast (chConfirmations ch)),
          tHeadByTag = (\<lambda>tag. client_op (\<lambda>c. HeadByTag (node_host pf) (pfHeadByTag pf) c tag)),
          tBlockByNumber = (\<lambda>n. client_op (\<lambda>c. BlockByNumber (node_host pf) (pfHeaderByNumber pf) c n)),
          tReconciler = NewReconciler (chID ch) 256, tStore = lift_store st, tNow = world_clock pf, tObs = world_obs pf,
          tOnCanonical = Some (\<lambda>b w. w),
          tOnCanonicalBatch = Some (OnCanonicalBatch (fetcher ''fast'')),
          tOnReverted = Some (onReverted pf st (chID ch)),
          tSafeTag = cfSafe (chConfirmations ch), tFinalizedTag = cfFinalized (chConfirmations ch),
          tSafeInterval = 0, tFinalizedInterval = 0,
          tOnCanonicalSafe = Some (OnCanonicalBatch (fetcher ''safe'')),
          tOnCanonicalFinalized = Some (OnCanonicalBatch (fetcher ''finalized'')),
          pending = [], safeTip = 0, safeSeeded = False, finalizedTip = 0, finalizedSeeded = False\<rparr>)"

text \<open>A monitor whose ABI cannot be loaded is logged and skipped.\<close>

fun register_all ::
  "('a, 'w) libs \<Rightarrow> 'w monitor_spec list \<Rightarrow> ('a, 'w) decoder \<Rightarrow> 'w \<Rightarrow> ('a, 'w) decoder \<times> 'w" where
  "register_all lib [] d w = (d, w)"
| "register_all lib (spec # specs) d w = (case Register lib d spec w of (e, d', w') \<Rightarrow> register_all lib specs d' w')"

definition base_decoder :: "('a, 'p, 'n) platform \<Rightarrow> db store \<Rightarrow> string \<Rightarrow> ('a, ('p, 'n) world) decoder" where
  "base_decoder pf st apiKey =
     NewDecoder\<lparr>dcCache := Some (NewStoreABICache (LoadCachedABI (lift_store st))
         (\<lambda>c a abi w. SaveCachedABI (lift_store st) (world_clock pf w) c a abi w)),
       dcEtherscan := (if apiKey \<noteq> [] then Some (NewEtherscanFetcher apiKey) else None)\<rparr>"

datatype ('a, 'p, 'n) chain_outcome =
    NoRPCs
  | DialFailed dial_err
  | CompileFailed compile_err
  | Started "('p, 'n) world headtracker" "('p, 'n) world"

definition start_chain ::
  "('a, 'p, 'n) platform \<Rightarrow> db store \<Rightarrow> string \<Rightarrow> config \<Rightarrow> chain_cfg \<Rightarrow> router \<Rightarrow> 'n \<Rightarrow> db
     \<Rightarrow> ('a, 'p, 'n) chain_outcome \<times> 'n \<times> db" where
  "start_chain pf st apiKey cfg ch router n d =
     (if chRPCs ch = [] then (NoRPCs, n, d)
      else
        (case Dial (pfDial pf) (chID ch) (map (\<lambda>r. \<lparr>esURL = rpcURL r, esWeight = rpcWeight r\<rparr>) (chRPCs ch)) n of
           (Inl e, n1) \<Rightarrow> (DialFailed e, n1, d)
         | (Inr client, n1) \<Rightarrow>
             (let w0 = (\<lparr>csClient = client, csReaders = [], csRules = [], csRouter = router, csNet = n1\<rparr>, d);
                  hexToAddress = lbHexToAddress (pfLibs pf);
                  specs = map (\<lambda>spec. spec\<lparr>spStorage := Some (client_storage pf)\<rparr>)
                            (monitorSpecs hexToAddress (cfgMonitors cfg) ch);
                  (dec, w1) = register_all (world_libs (pfLibs pf)) specs (base_decoder pf st apiKey) w0
              in (case NewExprEvaluator (pfCompile pf) (monitorRules (cfgMonitors cfg) (chID ch)) of
                    Inl e \<Rightarrow> (CompileFailed e, csNet (fst w1), snd w1)
                  | Inr rules \<Rightarrow>
                      (Started (chain_tracker pf st dec cfg ch)
                         ((fst w1)\<lparr>csReaders := buildStateReaders hexToAddress (cfgMonitors cfg) (chID ch), csRules := rules\<rparr>, snd w1),
                       csNet (fst w1), snd w1)))))"

section \<open>Starting the program\<close>

definition is_postgres :: "string \<Rightarrow> bool" where
  "is_postgres dbPath \<longleftrightarrow> take 11 dbPath = ''postgres://'' \<or> take 13 dbPath = ''postgresql://''"

definition openStore :: "string \<Rightarrow> db \<Rightarrow> (err + db store) \<times> db" where
  "openStore dbPath d =
     (if is_postgres dbPath
      then (case OpenPostgres d of (Some e, d') \<Rightarrow> (Inl e, d') | (None, d') \<Rightarrow> (Inr PostgresStore, d'))
      else (case OpenSQLite dbPath d of (Some e, d') \<Rightarrow> (Inl e, d') | (None, d') \<Rightarrow> (Inr SQLiteStore, d')))"

section \<open>Reload and checks\<close>

text \<open>The number is the count of reloaded chains that is logged.\<close>

fun reload_chains ::
  "(string \<Rightarrow> err + 'p) \<Rightarrow> config \<Rightarrow> (string, 'p compiled list) gomap \<Rightarrow> (string, 'p compiled list) gomap \<times> nat" where
  "reload_chains compile newCfg [] = ([], 0)"
| "reload_chains compile newCfg ((chainID, holder) # es) =
     (case reload_chains compile newCfg es of
        (es', reloaded) \<Rightarrow>
          (case NewExprEvaluator compile (monitorRules (cfgMonitors newCfg) chainID) of
             Inl e \<Rightarrow> ((chainID, holder) # es', reloaded)
           | Inr newEval \<Rightarrow> ((chainID, newEval) # es', reloaded + 1)))"

definition reloadRules ::
  "(string \<Rightarrow> err + 'p) \<Rightarrow> load_err + config \<Rightarrow> (string, 'p compiled list) gomap \<Rightarrow> (string, 'p compiled list) gomap" where
  "reloadRules compile loaded evaluators =
     (case loaded of Inl e \<Rightarrow> evaluators | Inr newCfg \<Rightarrow> fst (reload_chains compile newCfg evaluators))"

datatype check_err = CheckLoad load_err | CheckReceivers router_err | CheckRules string compile_err

fun check_chain_rules :: "(string \<Rightarrow> err + 'p) \<Rightarrow> config \<Rightarrow> chain_cfg list \<Rightarrow> check_err option" where
  "check_chain_rules compile cfg [] = None"
| "check_chain_rules compile cfg (ch # chs) =
     (case NewExprEvaluator compile (monitorRules (cfgMonitors cfg) (chID ch)) of
        Inl e \<Rightarrow> Some (CheckRules (chID ch) e)
      | Inr ev \<Rightarrow> check_chain_rules compile cfg chs)"

definition checkConfig :: "(string \<Rightarrow> err + 'p) \<Rightarrow> load_err + config \<Rightarrow> check_err option" where
  "checkConfig compile loaded =
     (case loaded of
        Inl e \<Rightarrow> Some (CheckLoad e)
      | Inr cfg \<Rightarrow>
          (case BuildRouter (cfgReceivers cfg) of
             Inl e \<Rightarrow> Some (CheckReceivers e)
           | Inr r \<Rightarrow> check_chain_rules compile cfg (cfgChains cfg)))"

text \<open>The lines written to the table writer, cell by cell.\<close>

definition monitor_cells :: "monitor_cfg \<Rightarrow> string list" where
  "monitor_cells m =
     [moID m, moChain m,
      (if 20 < length (moAddress m) then take 12 (moAddress m) @ ''...'' else moAddress m),
      (if take 1 (TrimSpace (moABI m)) = ''['' then ''inline ('' @ dec_nat (length (moABI m)) @ ''B)''
       else if moABI m = [] then ''-'' else moABI m),
      (if moConfirmation m = [] then ''fast'' else moConfirmation m),
      dec_nat (length (moReads m)), dec_nat (length (moRules m))]"

definition listMonitorsCmd :: "load_err + config \<Rightarrow> load_err + string list list" where
  "listMonitorsCmd loaded =
     (case loaded of
        Inl e \<Rightarrow> Inl e
      | Inr cfg \<Rightarrow>
          Inr ([''ID'', ''CHAIN'', ''ADDRESS'', ''ABI'', ''CONFIRMATION'', ''READS'', ''RULES''] # map monitor_cells (cfgMonitors cfg)))"

end
