(* ===== verification/Wiring_Props.thy ===== *)
theory Wiring_Props
  imports Wiring Decode_Props
begin

text \<open>
  What the assembled program guarantees: which monitor a log is decoded for, which logs the fetcher
  of a confirmation level hands on, that rules only name receivers the router has, that a reverted
  block leads to a message to every receiver of its alerts, and that a message that could not be
  sent is not sent again.
\<close>

section \<open>Monitors by address\<close>

text \<open>The specs whose ABI loads, in order of registration.\<close>

fun loaded :: "('a, 'w) libs \<Rightarrow> ('a, 'w) decoder \<Rightarrow> 'w monitor_spec list \<Rightarrow> 'w \<Rightarrow> ('w monitor_spec \<times> 'a) list" where
  "loaded lib d [] w = []"
| "loaded lib d (spec # specs) w =
     (case loadABI lib d spec w of
        (Inl e, w') \<Rightarrow> loaded lib d specs w'
      | (Inr a, w') \<Rightarrow> (spec, a) # loaded lib d specs w')"

lemma loaded_registry: "loaded lib (d\<lparr>dcABIs := x, dcMonitors := y\<rparr>) specs w = loaded lib d specs w"
  by (induction specs arbitrary: w) (auto simp: loadABI_registry split: prod.splits sum.splits)

text \<open>The registry is the assignment of the loaded specs, later ones winning.\<close>

lemma register_all_loaded:
  assumes "hex_form lib"
  shows "fst (register_all lib specs d w) =
    d\<lparr>dcABIs := fold (\<lambda>x. gm_put (addr_hex (spAddress (fst x))) (snd x)) (loaded lib d specs w) (dcABIs d),
      dcMonitors := fold (\<lambda>x. gm_put (addr_hex (spAddress (fst x))) (spID (fst x))) (loaded lib d specs w) (dcMonitors d)\<rparr>"
proof (induction specs arbitrary: d w)
  case (Cons spec specs)
  obtain e d' w' where r: "Register lib d spec w = (e, d', w')" by (rule prod_cases3)
  from assms r show ?case
  proof (cases rule: Register_cases)
    case (failed x)
    with Cons r show ?thesis by simp
  next
    case (ok a)
    then show ?thesis using r by (simp add: Cons loaded_registry)
  qed
qed simp

text \<open>
  C36. The monitor of a log: with the monitors registered in order, a log is decoded with the ABI and
  for the monitor of the last spec at the log's address whose ABI could be loaded, and rejected
  when there is none. Monitors registered earlier at the same address get no events.
\<close>

theorem Decode_routes_last:
  assumes "hex_form lib" "dcABIs d = []" "dcMonitors d = []"
  shows "Decode lib (fst (register_all lib specs d w)) l =
    (case find (\<lambda>x. spAddress (fst x) = lAddress l) (rev (loaded lib d specs w)) of
       None \<Rightarrow> Inl (NoABI (addr_hex (lAddress l)))
     | Some x \<Rightarrow> decode_as lib (snd x) (spID (fst x)) l)"
proof -
  note get = gm.get_fold_put [where key = "\<lambda>x. addr_hex (spAddress (fst x))"]
  show ?thesis
    by (simp add: Decode_def register_all_loaded [OF assms(1)] assms(2,3) get split: option.splits)
qed

section \<open>Addresses by confirmation level\<close>

abbreviation levels :: "string set" where
  "levels \<equiv> {''fast'', ''safe'', ''finalized''}"

definition level :: "monitor_cfg \<Rightarrow> string" where
  "level m = (if moConfirmation m \<in> levels then moConfirmation m else ''fast'')"

definition at_address :: "(string \<Rightarrow> bytes20) \<Rightarrow> string \<Rightarrow> monitor_cfg list \<Rightarrow> string \<Rightarrow> bytes20 set" where
  "at_address h chain ms lvl =
     (\<lambda>m. h (moAddress m)) ` {m \<in> set ms. moChain m = chain \<and> moAddress m \<noteq> [] \<and> level m = lvl}"

lemma level_of_level: "dom (map_of out) = levels \<Longrightarrow> level_of out m = level m"
proof -
  assume "dom (map_of out) = levels"
  then have "map_of out c = None \<longleftrightarrow> c \<notin> levels" for c by (metis domIff)
  then show ?thesis unfolding level_of_def level_def Let_def by (cases "moConfirmation m = []") simp_all
qed

lemma at_level_put: "at_level (gm_put c v out) c' = (if c' = c then v else at_level out c')"
  by (simp add: at_level_def gomap_simps)

lemma collect_addresses_spec:
  assumes "dom (map_of out) = levels" "\<And>c. set (at_level seen c) = set (at_level out c)" "\<And>c. distinct (at_level out c)"
  shows "set (at_level (collect_addresses h chain ms out seen) c) = set (at_level out c) \<union> at_address h chain ms c \<and>
    distinct (at_level (collect_addresses h chain ms out seen) c)"
  using assms
proof (induction ms arbitrary: out seen)
  case Nil
  then show ?case by (simp add: at_address_def)
next
  case (Cons m ms)
  let ?a = "h (moAddress m)" and ?l = "level m"
  consider (skip) "moChain m \<noteq> chain \<or> moAddress m = []"
    | (dup) "\<not> (moChain m \<noteq> chain \<or> moAddress m = [])" "?a \<in> set (at_level out ?l)"
    | (new) "\<not> (moChain m \<noteq> chain \<or> moAddress m = [])" "?a \<notin> set (at_level out ?l)"
    by blast
  then show ?case
  proof cases
    case skip
    then have "at_address h chain (m # ms) c = at_address h chain ms c" by (auto simp: at_address_def)
    with skip Cons show ?thesis by simp
  next
    case dup
    then have "at_address h chain (m # ms) c = (if c = ?l then {?a} else {}) \<union> at_address h chain ms c"
      by (auto simp: at_address_def)
    with dup Cons.prems Cons.IH [OF Cons.prems] show ?thesis by (auto simp: level_of_level)
  next
    case new
    let ?out = "gm_put ?l (at_level out ?l @ [?a]) out" and ?seen = "gm_put ?l (?a # at_level seen ?l) seen"
    have "at_address h chain (m # ms) c = (if c = ?l then {?a} else {}) \<union> at_address h chain ms c"
      using new by (auto simp: at_address_def)
    moreover have "?l \<in> levels" by (simp add: level_def)
    then have "dom (map_of ?out) = levels" using Cons.prems(1) by (simp add: gomap_simps insert_absorb)
    moreover have "set (at_level ?seen c') = set (at_level ?out c')" "distinct (at_level ?out c')" for c'
      using Cons.prems(2,3) new(2) by (auto simp: at_level_put)
    ultimately show ?thesis
      using Cons.IH [of ?out ?seen] new Cons.prems(1,2) by (auto simp: level_of_level at_level_put Let_def)
  qed
qed

lemma addresses_by_level:
  "set (at_level (monitorAddressesByConfirmation h ms chain) lvl) = at_address h chain ms lvl"
  "distinct (at_level (monitorAddressesByConfirmation h ms chain) lvl)"
  using collect_addresses_spec [of "[(''fast'', []), (''safe'', []), (''finalized'', [])]"
      "[(''fast'', []), (''safe'', []), (''finalized'', [])]" h chain ms lvl]
  by (auto simp: monitorAddressesByConfirmation_def at_level_def split: option.splits if_splits)

text \<open>
  C35. The fetcher of a confirmation level hands the logs of a batch on to the rules in order of block
  and index: those of the addresses that are monitored at that level on the chain, unless there is
  no such address. Then the query has no address filter, and every log of the batch is handed on,
  those of monitors of the other levels included: with no monitor at the fast level, a monitor
  configured for finalized blocks is evaluated on blocks that are not final.
\<close>

theorem level_logs:
  assumes "f = (chain_fetcher pf st dec chain (at_level (monitorAddressesByConfirmation h ms chain) lvl))\<lparr>lfFilterLogs := flt\<rparr>"
    and "serves f lgs" "distinct (map bNumber blocks)"
  shows "OnCanonicalBatch f blocks w =
    fold (onLog pf st dec) (attach chain (map_of (index_blocks blocks)) (sort_key log_key
      (filter (\<lambda>lg. glBlockNumber lg \<in> bNumber ` set blocks \<and>
         (at_address h chain ms lvl = {} \<or> glAddress lg \<in> at_address h chain ms lvl)) lgs))) w"
proof -
  have f: "lfOnLog f = Some (onLog pf st dec)" "lfChain f = chain"
      "lfAddresses f = at_level (monitorAddressesByConfirmation h ms chain) lvl"
    by (simp_all add: assms(1) chain_fetcher_def)
  have "wanted f (bNumber ` set blocks) = (\<lambda>lg. glBlockNumber lg \<in> bNumber ` set blocks \<and>
      (at_address h chain ms lvl = {} \<or> glAddress lg \<in> at_address h chain ms lvl))"
    using addresses_by_level(1) [of h ms chain lvl] by (auto simp: fun_eq_iff wanted_def f(3))
  with batch_serves [OF assms(2) f(1) assms(3)] show ?thesis by (simp add: f(2))
qed

section \<open>Receivers\<close>

lemma build_all_dom: "build_all rs ns = Inr r \<Longrightarrow> dom (map_of r) = dom (map_of ns) \<union> rvID ` set rs"
  by (induction rs arbitrary: ns) (auto simp: gomap_simps split: sum.splits)

lemma BuildRouter_dom: "BuildRouter rs = Inr r \<Longrightarrow> dom (map_of r) = rvID ` set rs"
  using build_all_dom [of rs "[]"] by (simp add: BuildRouter_def)

lemma Router_SendEnv_frame:
  assumes "Router_SendEnv sk r rid env n = (e, r', n')"
  shows "dom (map_of r') = dom (map_of r)" and "rid \<in> dom (map_of r) \<Longrightarrow> e \<noteq> Some (UnknownReceiverErr x)"
    and "rid \<notin> dom (map_of r) \<Longrightarrow> e = Some (UnknownReceiverErr rid) \<and> r' = r \<and> n' = n"
  using assms by (auto simp: Router_SendEnv_def gomap_simps split: option.splits prod.splits if_splits)

text \<open>What a step of a callback leaves alone: the rules, the readers' keys, and the receivers' ids. Sending
  also leaves the database and the client alone.\<close>

definition same_routes :: "('p, 'n) world \<Rightarrow> ('p, 'n) world \<Rightarrow> bool" where
  "same_routes w w' \<longleftrightarrow> csRules (fst w') = csRules (fst w) \<and> dom (map_of (csRouter (fst w'))) = dom (map_of (csRouter (fst w)))"

lemma same_routes_refl [simp]: "same_routes w w"
  by (simp add: same_routes_def)

lemma same_routes_trans: "same_routes u v \<Longrightarrow> same_routes v w \<Longrightarrow> same_routes u w"
  by (simp add: same_routes_def)

lemma send_env_frame:
  assumes "send_env pf rid env w = (e, w')"
  shows "same_routes w w'" "snd w' = snd w"
proof -
  obtain x r n where s: "Router_SendEnv (pfSinks pf) (csRouter (fst w)) rid env (csNet (fst w)) = (x, r, n)"
    by (rule prod_cases3)
  then have w': "w' = ((fst w)\<lparr>csRouter := r, csNet := n\<rparr>, snd w)" using assms by (simp add: send_env_def)
  show "same_routes w w'" "snd w' = snd w"
    using Router_SendEnv_frame(1) [OF s] by (simp_all add: w' same_routes_def)
qed

lemma send_alert_env: "send_alert pf rid a = send_env pf rid (AlertEnv a)"
  by (simp add: fun_eq_iff send_alert_def send_env_def Router_Send_def)

text \<open>Both loops over receivers send one environment and count what was sent.\<close>

definition sent :: "('a, 'p, 'n) platform \<Rightarrow> string \<Rightarrow> string \<times> envmap \<Rightarrow> ('p, 'n) world \<Rightarrow> ('p, 'n) world" where
  "sent pf kind msg w =
     (case send_env pf (fst msg) (snd msg) w of
        (Some e, w') \<Rightarrow> w'
      | (None, w') \<Rightarrow> world_obs pf (Inc AlertsSent [fst msg, kind]) w')"

lemma notify_all_sent: "notify_all pf a rids w = fold (\<lambda>rid. sent pf (kind_string (aKind a)) (rid, AlertEnv a)) rids w"
  by (induction rids arbitrary: w) (simp_all add: send_alert_env sent_def split: prod.split option.split)

lemma notify_revert_sent: "notify_revert pf env rids w = fold (\<lambda>rid. sent pf ''reverted'' (rid, env)) rids w"
  by (induction rids arbitrary: w) (simp_all add: sent_def split: prod.split option.split)

lemma world_obs_frame: "same_routes w (world_obs pf m w)" "snd (world_obs pf m w) = snd w"
  by (simp_all add: same_routes_def world_obs_def)

lemma sent_frame: "same_routes w (sent pf kind msg w) \<and> snd (sent pf kind msg w) = snd w"
proof -
  obtain e w' where s: "send_env pf (fst msg) (snd msg) w = (e, w')" by (rule prod.exhaust)
  note f = send_env_frame [OF s]
  have "same_routes w (world_obs pf (Inc AlertsSent [fst msg, kind]) w')" by (rule same_routes_trans [OF f(1) world_obs_frame(1)])
  with f s show ?thesis by (simp add: sent_def world_obs_frame(2) split: option.split)
qed

lemma fold_sent_frame: "same_routes w (fold (\<lambda>x. sent pf kind (f x)) xs w) \<and> snd (fold (\<lambda>x. sent pf kind (f x)) xs w) = snd w"
proof (induction xs arbitrary: w)
  case (Cons x xs)
  let ?w = "sent pf kind (f x) w"
  have w: "same_routes w ?w" "snd ?w = snd w" using sent_frame [of w pf kind "f x"] by simp_all
  then show ?case
    using same_routes_trans [OF w(1) conjunct1 [OF Cons [of ?w]]] Cons [of ?w] by simp
qed simp

lemma notify_all_frame: "same_routes w (notify_all pf a rids w)" "snd (notify_all pf a rids w) = snd w"
  unfolding notify_all_sent by (rule conjunct1 [OF fold_sent_frame], rule conjunct2 [OF fold_sent_frame])

lemma revert_alerts_fold:
  "revert_alerts pf sas w =
     fold (sent pf ''reverted'') (concat (map (\<lambda>sa. map (\<lambda>rid. (rid, revert_env sa)) (saReceivers sa)) sas)) w"
  by (induction sas arbitrary: w) (simp_all add: notify_revert_sent fold_map comp_def)

lemma revert_alerts_frame: "same_routes w (revert_alerts pf sas w)"
  unfolding revert_alerts_fold using fold_sent_frame [of _ pf "''reverted''" id] by simp

lemma onReverted_frame: "same_routes w (onReverted pf st chain b w)"
proof -
  obtain out w' where l: "LoadAlertsAtBlock (lift_store st) chain (bNumber b) (bHash b) w = (out, w')" by (rule prod.exhaust)
  then have "fst w' = fst w" using lift_store_fst(1) [of st chain "bNumber b" "bHash b" w] by simp
  then have "same_routes w w'" by (simp add: same_routes_def)
  then show ?thesis
    using l revert_alerts_frame [of w' pf] by (auto simp: onReverted_def intro: same_routes_trans split: sum.splits)
qed

lemma Handle_frame:
  assumes "Handle (alert_manager pf st) m w = (out, w')"
  shows "same_routes w w'"
proof -
  obtain dup w1 where d: "IsDuplicate (lift_store st) (Fingerprint m) w = (dup, w1)" by (rule prod.exhaust)
  then have w1: "fst w1 = fst w" using lift_store_fst(2) [of st "Fingerprint m" w] by simp
  then have r1: "same_routes w w1" by (simp add: same_routes_def)
  have "same_routes w w2" if "RecordAlert (lift_store st) a w1 = (e, w2)" for a e w2
    using that lift_store_fst(3) [of st a w1] w1 by (simp add: same_routes_def)
  moreover have "same_routes w (world_obs pf x w1)" for x by (rule same_routes_trans [OF r1 world_obs_frame(1)])
  ultimately show ?thesis
    using assms d r1 by (auto simp: Handle_def alert_manager_def Let_def split: prod.splits sum.splits bool.splits option.splits)
qed

lemma handle_matches_frame: "same_routes w (handle_matches pf st ms w)"
proof (induction ms arbitrary: w)
  case (Cons m ms)
  obtain out w' where h: "Handle (alert_manager pf st) m w = (out, w')" by (rule prod.exhaust)
  then have w': "same_routes w w'" by (rule Handle_frame)
  define w2 where "w2 = (case out of Inr (Some a) \<Rightarrow> notify_all pf a (mReceivers m) w' | _ \<Rightarrow> w')"
  have "same_routes w (notify_all pf a rids w')" for a rids
    by (rule same_routes_trans [OF w' notify_all_frame(1)])
  then have "same_routes w w2" using w' by (simp add: w2_def split: sum.splits option.splits)
  moreover have "handle_matches pf st (m # ms) w = handle_matches pf st ms w2"
    using h by (simp add: w2_def split: sum.splits option.splits)
  ultimately show ?case using same_routes_trans [OF _ Cons.IH] by simp
qed simp

lemma client_op_frame: "client_op f w = (out, w') \<Longrightarrow> same_routes w w'"
  by (auto simp: client_op_def same_routes_def split: prod.splits)

lemma read_all_frame: "read_all (client_calls pf) r k ds acc w = (acc', w') \<Longrightarrow> same_routes w w'"
proof (induction ds arbitrary: acc w)
  case (Cons d ds)
  obtain out w1 where c: "read_call (client_calls pf) r d k w = (out, w1)" by (rule prod.exhaust)
  then have "same_routes w w1"
    by (auto simp: read_call_def client_calls_def Let_def split: prod.splits sum.splits dest!: client_op_frame)
  moreover have "\<exists>acc1. read_all (client_calls pf) r k ds acc1 w1 = (acc', w')"
    using c Cons.prems by (cases out) auto
  ultimately show ?case using Cons.IH same_routes_trans by blast
qed simp

lemma enrich_event_frame: "enrich_event pf ev w = (ev', w') \<Longrightarrow> same_routes w w'"
proof -
  have "same_routes w w1" if "Enrich (client_calls pf) r ev w = (r1, ev1, w1)" for r r1 ev1 w1
    using that by (auto simp: Enrich_def Let_def split: if_splits prod.splits dest!: read_all_frame)
  then show "enrich_event pf ev w = (ev', w') \<Longrightarrow> ?thesis"
    by (fastforce simp: enrich_event_def same_routes_def split: option.splits prod.splits)
qed

lemma onLog_frame: "same_routes w (onLog pf st dec l w)"
proof (cases "onLog pf st dec l w = w")
  case False
  then obtain ev where d: "Decode (world_libs (pfLibs pf)) dec l = Inr ev" by (auto simp: onLog_def split: sum.splits)
  obtain ev' w' where e: "enrich_event pf ev w = (ev', w')" by (rule prod.exhaust)
  have "onLog pf st dec l w = handle_matches pf st (Eval (pfRun pf) (csRules (fst w')) ev') w'"
    by (simp add: onLog_def d e)
  then show ?thesis using same_routes_trans [OF enrich_event_frame [OF e] handle_matches_frame] by simp
qed simp

text \<open>The receivers of a match are those of a rule of the configuration.\<close>

lemma Eval_receivers: "m \<in> set (Eval run rules ev) \<Longrightarrow> \<exists>r \<in> set rules. mReceivers m = cmReceivers r"
proof -
  have "m \<in> set (eval_rules run ev env rules) \<Longrightarrow> \<exists>r \<in> set rules. mReceivers m = cmReceivers r" for env
    by (induction rules) (auto split: if_splits sum.splits)
  then show "m \<in> set (Eval run rules ev) \<Longrightarrow> ?thesis" by (simp add: Eval_def)
qed

lemma monitorRules_mem:
  "mr \<in> set (monitorRules ms chain) \<Longrightarrow> r \<in> set (mrRules mr) \<Longrightarrow>
     \<exists>m \<in> set ms. \<exists>ru \<in> set (moRules m). rReceivers r = ruReceivers ru"
  by (induction ms) (force split: if_splits)+

lemma compiled_receivers:
  assumes "NewExprEvaluator compile (monitorRules ms chain) = Inr rules" "r \<in> set rules"
  shows "\<exists>m \<in> set ms. \<exists>ru \<in> set (moRules m). cmReceivers r = ruReceivers ru"
proof -
  have "rules = concat (map (\<lambda>m. map (compiled_of compile (mrMonitorID m)) (enumerate 0 (mrRules m))) (monitorRules ms chain))"
    using compile_monitors_ok [OF assms(1) [unfolded NewExprEvaluator_def]] by simp
  with assms(2) obtain mr i x where "mr \<in> set (monitorRules ms chain)" "(i, x) \<in> set (enumerate 0 (mrRules mr))"
    "cmReceivers r = rReceivers x"
    by (auto simp: compiled_of_def)
  moreover from this have "x \<in> set (mrRules mr)" by (metis in_set_zip enumerate_eq_zip snd_conv nth_mem)
  ultimately show ?thesis using monitorRules_mem by metis
qed

lemma register_all_keeps:
  assumes "\<And>spec. spec \<in> set specs \<Longrightarrow> keeps P lib spec" "cache_keeps P d"
  shows "P (snd (register_all lib specs d w)) = P w"
  using assms
proof (induction specs arbitrary: d w)
  case (Cons spec specs)
  obtain e d' w' where r: "Register lib d spec w = (e, d', w')" by (rule prod_cases3)
  obtain out w2 where l: "loadABI lib d spec w = (out, w2)" by (rule prod.exhaust)
  with r have "w' = w2" "dcCache d' = dcCache d" by (auto simp: Register_def Let_def split: sum.splits)
  moreover have "P w2 = P w" using loadABI_keeps [OF _ Cons.prems(2) l] Cons.prems(1) by simp
  ultimately show ?case using Cons.IH [of d' w'] Cons.prems r by (simp add: cache_keeps_def)
qed simp

lemma start_chain_routes:
  assumes "start_chain pf st key cfg ch router n d = (Started t w, n', d')"
  shows "csRouter (fst w) = router \<and> NewExprEvaluator (pfCompile pf) (monitorRules (cfgMonitors cfg) (chID ch)) = Inr (csRules (fst w))"
proof -
  let ?P = "\<lambda>w :: ('b, 'c) world. csRouter (fst w)"
  have "keeps ?P (world_libs (pfLibs pf)) spec" if "spec \<in> set (map (\<lambda>spec. spec\<lparr>spStorage := Some (client_storage pf)\<rparr>) specs)"
    for spec specs
    using that by (auto simp: keeps_def world_libs_def net_op_def client_storage_def client_op_def split: prod.splits)
  moreover have "cache_keeps ?P (base_decoder pf st key)"
    by (simp add: cache_keeps_def base_decoder_def NewDecoder_def NewStoreABICache_def lift_store_fst)
  ultimately have "csRouter (fst (snd (register_all (world_libs (pfLibs pf))
      (map (\<lambda>spec. spec\<lparr>spStorage := Some (client_storage pf)\<rparr>) specs) (base_decoder pf st key) w0))) = csRouter (fst w0)"
    for specs w0
    by (rule register_all_keeps)
  then show ?thesis
    using assms by (auto simp: start_chain_def Let_def split_beta split: if_splits sum.splits prod.splits)
qed

section \<open>Stored alerts\<close>

text \<open>An alert that fired is on record.\<close>

lemma fired_recorded:
  assumes "st = SQLiteStore \<or> st = PostgresStore" "db_ok (snd w)"
    and "Handle (alert_manager pf st) m w = (Inr (Some a), w1)"
  shows "aMatch a = m \<and> aFingerprint a = Fingerprint m \<and> aKind a = AlertFiring \<and>
    vAlerts (db_view (snd w1)) (Fingerprint m) = Some (alert_view_of a)"
proof -
  note st = lifted_backends [OF assms(1)]
  obtain wa where d: "IsDuplicate (lift_store st) (Fingerprint m) w = (Inr False, wa)"
    and a: "a = \<lparr>aMatch = m, aFingerprint = Fingerprint m, aKind = AlertFiring, aAt = world_clock pf wa\<rparr>"
    and r: "RecordAlert (lift_store st) a wa = (None, w1)"
    using assms(3) by (auto simp: Handle_def alert_manager_def Let_def split: prod.splits sum.splits bool.splits option.splits)
  have wa: "db_ok (snd wa)" "vAlerts (db_view (snd wa)) (Fingerprint m) = None"
    using store_laws.is_duplicate [OF st assms(2) d] by auto
  with store_laws.record_alert [OF st wa(1) r] show ?thesis by (simp add: a)
qed


text \<open>
  An alert is put on record before it is sent, and sending is tried once: whatever became of the
  messages, as long as the record is in the store no later match of the same fingerprint fires. A
  receiver that the router does not have, as after a reload of the rules that adds one, gets
  nothing.
\<close>

theorem failed_send_not_retried:
  assumes "st = SQLiteStore \<or> st = PostgresStore" "db_ok (snd w)"
    and "Handle (alert_manager pf st) m w = (Inr (Some a), w1)" "rid \<notin> dom (map_of (csRouter (fst w1)))"
    and "db_ok (snd w2)" "vAlerts (db_view (snd (notify_all pf a (mReceivers m) w1))) \<subseteq>\<^sub>m vAlerts (db_view (snd w2))"
    and "Fingerprint m' = Fingerprint m"
  shows "send_alert pf rid a w1 = (Some (UnknownReceiverErr rid), w1) \<and>
    fst (Handle (alert_manager pf st) m' w2) \<noteq> Inr (Some a')"
proof -
  note fired = fired_recorded [OF assms(1,2,3)]
  have "snd (notify_all pf a (mReceivers m) w1) = snd w1" by (rule notify_all_frame(2))
  with fired assms(6) have "vAlerts (db_view (snd w2)) (Fingerprint m') \<noteq> None"
    by (auto simp: map_le_def dom_def assms(7))
  moreover obtain out w3 where d: "IsDuplicate (lift_store st) (Fingerprint m') w2 = (out, w3)" by (rule prod.exhaust)
  ultimately have "out \<noteq> Inr False" using store_laws.is_duplicate [OF lifted_backends [OF assms(1)] assms(5) d] by auto
  with d have "fst (Handle (alert_manager pf st) m' w2) \<noteq> Inr (Some a')"
    by (simp add: Handle_def alert_manager_def split: sum.splits bool.splits)
  moreover have "send_alert pf rid a w1 = (Some (UnknownReceiverErr rid), w1)"
    using assms(4) by (auto simp: send_alert_env send_env_def Router_SendEnv_def split: option.splits)
  ultimately show ?thesis by simp
qed

section \<open>Examples\<close>

text \<open>A platform with a clock and a log of messages, where every address is 5 and every contract has the
  one event \<open>Paused\<close>.\<close>

definition ex_net_libs :: "(unit, 'w) libs" where
  "ex_net_libs = \<lparr>lbHex = (\<lambda>a. hex0x (be_bytes 20 a)), lbHexToAddress = (\<lambda>s. 5), lbBytesToAddress = (\<lambda>b. 5),
     lbKeccak256 = (\<lambda>b. b), lbABIJSON = (\<lambda>b. Inr ()), lbHasEvent = (\<lambda>a e. False),
     lbEventByID = (\<lambda>a t. Inr \<lparr>aeName = ''Paused'', aeInputs = []\<rparr>), lbNonIndexed = filter (\<lambda>x. \<not> agIndexed x),
     lbParseTopicsIntoMap = (\<lambda>m as ts. Inr m), lbUnpackIntoMap = (\<lambda>as m bs. Inr m),
     lbDo = (\<lambda>u n. (Inl ''offline'', n))\<rparr>"

definition ex_pf :: "(unit, goval, stamped) platform" where
  "ex_pf = \<lparr>pfClock = fst, pfDial = (\<lambda>u n. (None, n)), pfHeaderByNumber = (\<lambda>k u n. (Inl (CallErr ''x''), n)),
     pfHeadByTag = (\<lambda>k u n. (Inl (CallErr ''x''), n)), pfFilterLogs = (\<lambda>q u n. (Inr [], n)),
     pfStorageAt = (\<lambda>a s u n. (Inl (CallErr ''x''), n)), pfCallContract = (\<lambda>c k u n. (Inl (CallErr ''x''), n)),
     pfLibs = ex_net_libs, pfCompile = ex_compile, pfRun = (\<lambda>p env. Inr p), pfSinks = stamping\<rparr>"

definition ex_monitor :: "string \<Rightarrow> string \<Rightarrow> monitor_cfg" where
  "ex_monitor mid lvl = \<lparr>moID = mid, moChain = ''op'', moAddress = ''0x0000000000000000000000000000000000000005'',
     moABI = ''erc20'', moConfirmation = lvl, moReads = [],
     moRules = [\<lparr>ruWhen = ''true'', ruSeverity = ''high'', ruReceivers = [''ops'']\<rparr>]\<rparr>"

definition ex_chain :: chain_cfg where
  "ex_chain = \<lparr>chID = ''op'', chChainID = 10, chRPCs = [\<lparr>rpcURL = ''https://op'', rpcWeight = 1\<rparr>], chBlockTimeMs = 2000,
     chConfirmations = \<lparr>cfFast = 0, cfSafe = [], cfFinalized = []\<rparr>, chReorgCheck = [],
     chRecovery = \<lparr>rvEnabled = False, rvInterval = 0, rvMaxBlocksPerRun = 0, rvMaxRetries = 0\<rparr>\<rparr>"

definition ex_cfg :: config where
  "ex_cfg = \<lparr>cfgChains = [ex_chain],
     cfgReceivers = [\<lparr>rvID = ''ops'', rvType = ''log'', rvURL = [], rvThrottle = None, rvTemplate = \<lparr>rtTitle = [], rtBody = []\<rparr>\<rparr>],
     cfgMonitors = [ex_monitor ''m'' []]\<rparr>"

lemma ex_hex_form: "hex_form ex_net_libs"
  using addr_hex_eq by (auto simp: hex_form_def ex_net_libs_def addr_hex_def hex0x_def to_lower_hex_encode to_lower_def is_upper_def char_in_def)

text \<open>Two monitors at one address: the second one gets the events.\<close>

definition ex_twin :: "string \<Rightarrow> unit monitor_spec" where
  "ex_twin mid = \<lparr>spID = mid, spChainID = 10, spAddress = 5, spABI = ''erc20'', spStorage = None\<rparr>"

definition ex_log :: log where
  "ex_log = \<lparr>lChain = ''op'', lBlock = zero_block, lTxHash = 1, lTxIndex = 0, lLogIndex = 0, lAddress = 5,
     lTopics = [9], lData = []\<rparr>"

theorem Decode_routes_last_witness:
  "map_sum id eMonitorID (Decode ex_net_libs (fst (register_all ex_net_libs [ex_twin ''a'', ex_twin ''b''] NewDecoder ())) ex_log) =
     Inr ''b''"
proof -
  have "loadABI ex_net_libs NewDecoder (ex_twin mid) () = (Inr (), ())" for mid
    by (simp add: loadABI_def ex_twin_def TrimSpace_def is_space_def ex_net_libs_def)
  then have "loaded ex_net_libs NewDecoder [ex_twin ''a'', ex_twin ''b''] () = [(ex_twin ''a'', ()), (ex_twin ''b'', ())]"
    by simp
  then show ?thesis
    using Decode_routes_last [OF ex_hex_form, of NewDecoder "[ex_twin ''a'', ex_twin ''b'']" "()" ex_log]
    by (simp add: NewDecoder_def ex_twin_def ex_log_def decode_as_def decode_params_def ex_net_libs_def)
qed

text \<open>A monitor for finalized blocks only, and the fast fetcher: its log is handed on.\<close>

definition ex_lg :: gethlog where
  "ex_lg = \<lparr>glAddress = 5, glTopics = [9], glData = [], glBlockNumber = 7, glTxHash = 1, glTxIndex = 0,
     glBlockHash = 0, glIndex = 0\<rparr>"

definition ex_block7 :: blockref where
  "ex_block7 = \<lparr>bChain = ''op'', bNumber = 7, bHash = 7, bParentHash = 6, bTime = 0\<rparr>"

definition ex_filter :: "u64 \<Rightarrow> u64 \<Rightarrow> bytes20 list \<Rightarrow> 'w \<Rightarrow> (err + gethlog list) \<times> 'w" where
  "ex_filter from to as w = (Inr (filter (\<lambda>lg. from \<le> glBlockNumber lg \<and> glBlockNumber lg \<le> to \<and>
     (as = [] \<or> glAddress lg \<in> set as)) [ex_lg]), w)"

theorem level_logs_witness:
  "OnCanonicalBatch ((chain_fetcher ex_pf SQLiteStore NewDecoder ''op''
       (at_level (monitorAddressesByConfirmation (\<lambda>s. 5) [ex_monitor ''m'' ''finalized''] ''op'') ''fast''))\<lparr>lfFilterLogs := ex_filter\<rparr>)
     [ex_block7] =
   onLog ex_pf SQLiteStore NewDecoder (toPipelineLog ''op'' ex_block7 ex_lg)"
proof
  fix w
  let ?f = "(chain_fetcher ex_pf SQLiteStore NewDecoder ''op''
       (at_level (monitorAddressesByConfirmation (\<lambda>s. 5) [ex_monitor ''m'' ''finalized''] ''op'') ''fast''))\<lparr>lfFilterLogs := ex_filter\<rparr>"
  have "serves ?f [ex_lg]" by (simp add: serves_def ex_filter_def)
  moreover have "at_address (\<lambda>s. 5) ''op'' [ex_monitor ''m'' ''finalized''] ''fast'' = {}"
    by (auto simp: at_address_def level_def ex_monitor_def)
  ultimately show "OnCanonicalBatch ?f [ex_block7] w = onLog ex_pf SQLiteStore NewDecoder (toPipelineLog ''op'' ex_block7 ex_lg) w"
    using level_logs [OF refl, of ex_filter ex_pf SQLiteStore NewDecoder "''op''" "\<lambda>s. 5" "[ex_monitor ''m'' ''finalized'']" "''fast''" "[ex_lg]" "[ex_block7]" w]
    by (simp add: ex_block7_def ex_lg_def attach_def index_blocks_def gm_put_def)
qed

text \<open>A chain that starts, with its one monitor.\<close>

lemma ex_scheme: "good_scheme ''https://op''"
  by code_simp

lemma ex_validated: "Validate ex_cfg = None"
  by (simp add: Validate_def ex_cfg_def ex_chain_def ex_monitor_def ex_scheme is_lower_def is_upper_def
      is_digit_def char_in_def to_lower_def TrimSpace_def is_space_def addressRegex_def is_hex_char_def validConfirmations_def)

definition ex_router :: router where
  "ex_router = [(''ops'', LogNotifier ''ops'' \<lparr>tmTitle = [], tmBody = []\<rparr>)]"

lemma ex_built: "BuildRouter (cfgReceivers ex_cfg) = Inr ex_router"
  by (simp add: BuildRouter_def ex_cfg_def build_notifier_def ex_router_def gm_put_def)

definition ex_rules :: "goval compiled list" where
  "ex_rules = [\<lparr>cmMonitorID = ''m'', cmIdx = 0, cmSeverity = ''high'', cmReceivers = [''ops''], cmProgram = VBool True\<rparr>]"

lemma start_chain_starts:
  assumes "chRPCs ch \<noteq> []" "NewExprEvaluator (pfCompile pf) (monitorRules (cfgMonitors cfg) (chID ch)) = Inr rules"
    and "Dial (pfDial pf) (chID ch) (map (\<lambda>r. \<lparr>esURL = rpcURL r, esWeight = rpcWeight r\<rparr>) (chRPCs ch)) n = (Inr client, n1)"
  shows "\<exists>t w n' d'. start_chain pf st key cfg ch router n d = (Started t w, n', d') \<and> csRules (fst w) = rules"
proof -
  obtain dec w1 where r: "register_all (world_libs (pfLibs pf))
      (map (\<lambda>spec. spec\<lparr>spStorage := Some (client_storage pf)\<rparr>) (monitorSpecs (lbHexToAddress (pfLibs pf)) (cfgMonitors cfg) ch))
      (base_decoder pf st key) (\<lparr>csClient = client, csReaders = [], csRules = [], csRouter = router, csNet = n1\<rparr>, d) = (dec, w1)"
    by (rule prod.exhaust)
  let ?w = "((fst w1)\<lparr>csReaders := buildStateReaders (lbHexToAddress (pfLibs pf)) (cfgMonitors cfg) (chID ch), csRules := rules\<rparr>, snd w1)"
  have "start_chain pf st key cfg ch router n d = (Started (chain_tracker pf st dec cfg ch) ?w, csNet (fst w1), snd w1)"
    by (simp only: start_chain_def if_not_P [OF assms(1)] assms(2,3) r Let_def prod.case sum.case)
  moreover have "csRules (fst ?w) = rules" by simp
  ultimately show ?thesis by blast
qed

lemma ex_started: "\<exists>t w n' d'. start_chain ex_pf SQLiteStore [] ex_cfg ex_chain ex_router (0, []) (migrated []) =
    (Started t w, n', d') \<and> csRules (fst w) = ex_rules"
proof -
  have "NewExprEvaluator (pfCompile ex_pf) (monitorRules (cfgMonitors ex_cfg) (chID ex_chain)) = Inr ex_rules"
    by (simp add: NewExprEvaluator_def ex_pf_def ex_cfg_def ex_monitor_def ex_compile_def ex_rules_def ex_chain_def)
  moreover obtain client where "Dial (pfDial ex_pf) (chID ex_chain)
      (map (\<lambda>r. \<lparr>esURL = rpcURL r, esWeight = rpcWeight r\<rparr>) (chRPCs ex_chain)) (0, []) = (Inr client, (0, []))"
    by (simp add: Dial_def ex_pf_def ex_chain_def)
  moreover have "chRPCs ex_chain \<noteq> []" by (simp add: ex_chain_def)
  ultimately show ?thesis by (intro start_chain_starts)
qed

text \<open>An alert that fires, a message that has no receiver, and the revert of its block.\<close>

definition ex_world :: "(goval, stamped) world" where
  "ex_world = (\<lparr>csClient = \<lparr>cChain = ''op'', cPool = newPool []\<rparr>, csReaders = [], csRules = ex_rules, csRouter = ex_router,
     csNet = (0, [])\<rparr>, migrated [])"

lemma ex_fires: "\<exists>a w. Handle (alert_manager ex_pf SQLiteStore) (ex_match 2 ''high'') ex_world = (Inr (Some a), w) \<and>
    db_ok (snd w) \<and> fst w = fst ex_world \<and> faults (snd w) = []"
proof -
  have "db_ok (insert_alert a (migrated []))" for a using insert_alert_view [of "migrated []" a] by simp
  moreover have "faults (insert_alert a (migrated [])) = []" for a by (simp add: insert_alert_def migrated_def Let_def)
  ultimately show ?thesis
    by (simp add: Handle_def alert_manager_def lift_store_def on_snd_def SQLiteStore_def sqlite_IsDuplicate_def
        sqlite_RecordAlert_def db_query_def db_exec_def next_fault_def ex_world_def migrated_def Let_def)
qed

theorem failed_send_not_retried_witness:
  "\<exists>a w. Handle (alert_manager ex_pf SQLiteStore) (ex_match 2 ''high'') ex_world = (Inr (Some a), w) \<and>
     send_alert ex_pf ''new'' a w = (Some (UnknownReceiverErr ''new''), w) \<and>
     fst (Handle (alert_manager ex_pf SQLiteStore) (ex_match 2 ''low'') w) \<noteq> Inr (Some a)"
proof -
  obtain a w where h: "Handle (alert_manager ex_pf SQLiteStore) (ex_match 2 ''high'') ex_world = (Inr (Some a), w)"
    and w: "db_ok (snd w)" "fst w = fst ex_world" using ex_fires by blast
  have "fingerprint_preimage (ex_match 2 ''low'') = fingerprint_preimage (ex_match 2 ''high'')"
    by (simp add: fingerprint_preimage_def ex_match_def)
  then have fp: "Fingerprint (ex_match 2 ''low'') = Fingerprint (ex_match 2 ''high'')" by (simp add: Fingerprint_def)
  have "db_ok (snd ex_world)" by (simp add: ex_world_def)
  moreover have "''new'' \<notin> dom (map_of (csRouter (fst w)))" by (simp add: w(2) ex_world_def ex_router_def)
  moreover have "snd (notify_all ex_pf a rids w) = snd w" for rids by (rule notify_all_frame(2))
  ultimately have "send_alert ex_pf ''new'' a w = (Some (UnknownReceiverErr ''new''), w) \<and>
      fst (Handle (alert_manager ex_pf SQLiteStore) (ex_match 2 ''low'') w) \<noteq> Inr (Some a)"
    using failed_send_not_retried [OF _ _ h _ w(1) _ fp, of "''new''" a] by simp
  with h show ?thesis by blast
qed

lemma ex_match_simps: "mReceivers (ex_match i sev) = [''ops'']" "lChain (eLog (mEvent (ex_match i sev))) = ''op''"
  by (simp_all add: ex_match_def)


end
