(* ===== verification/Race.thy ===== *)
theory Race
  imports Alerts
begin

text \<open>
  The alert manager under concurrency. The loops of a chain handle their matches in goroutines of
  their own, and \<open>Handle\<close> of \<open>internal/alerts/manager.go\<close> makes two calls to the store. Here each call is a
  step of its own, and the steps of any number of handlers interleave.
\<close>

section \<open>The steps of a handler\<close>

datatype phase = Checking rmatch | Recording rmatch | Answered "err + alert option"

fun advance :: "'s manager \<Rightarrow> phase \<Rightarrow> 's \<Rightarrow> phase \<times> 's" where
  "advance mg (Checking m) s =
     (case IsDuplicate (mgStore mg) (Fingerprint m) s of
        (Inl e, s1) \<Rightarrow> (Answered (Inl e), s1)
      | (Inr True, s1) \<Rightarrow> (Answered (Inr None), mgObs mg (Inc AlertsDeduped [eMonitorID (mEvent m)]) s1)
      | (Inr False, s1) \<Rightarrow> (Recording m, s1))"
| "advance mg (Recording m) s =
     (let a = \<lparr>aMatch = m, aFingerprint = Fingerprint m, aKind = AlertFiring, aAt = mgNow mg s\<rparr>
      in (case RecordAlert (mgStore mg) a s of
            (Some e, s1) \<Rightarrow> (Answered (Inl e), s1)
          | (None, s1) \<Rightarrow> (Answered (Inr (Some a)), s1)))"
| "advance mg (Answered out) s = (Answered out, s)"

inductive race :: "'s manager \<Rightarrow> phase list \<times> 's \<Rightarrow> phase list \<times> 's \<Rightarrow> bool" for mg where
  handler: "i < length ps \<Longrightarrow> advance mg (ps ! i) s = (p, s') \<Longrightarrow> race mg (ps, s) (ps[i := p], s')"

inductive_cases raceE: "race mg (ps, s) (ps', s')"

text \<open>A handler that is not disturbed does what \<open>Handle\<close> does.\<close>

lemma advance_Handle:
  "Handle mg m s = (case advance mg (Checking m) s of
     (Answered out, s1) \<Rightarrow> (out, s1)
   | (p, s1) \<Rightarrow> (case advance mg p s1 of (Answered out, s2) \<Rightarrow> (out, s2) | (_, s2) \<Rightarrow> (Inl [], s2)))"
  by (auto simp: Handle_def Let_def split: prod.splits sum.splits bool.splits option.splits)

section \<open>What every interleaving keeps\<close>

text \<open>The state of one handler of the match \<open>m\<close>, where \<open>old\<close> are the alerts on record at the start and \<open>new\<close>
  those on record now.\<close>

fun phase_ok :: "(string \<rightharpoonup> alert_view) \<Rightarrow> (string \<rightharpoonup> alert_view) \<Rightarrow> rmatch \<Rightarrow> phase \<Rightarrow> bool" where
  "phase_ok old new m (Checking m') \<longleftrightarrow> m' = m"
| "phase_ok old new m (Recording m') \<longleftrightarrow> m' = m \<and> old (Fingerprint m) = None"
| "phase_ok old new m (Answered (Inl e)) \<longleftrightarrow> True"
| "phase_ok old new m (Answered (Inr None)) \<longleftrightarrow> new (Fingerprint m) \<noteq> None"
| "phase_ok old new m (Answered (Inr (Some a))) \<longleftrightarrow> aMatch a = m \<and> aFingerprint a = Fingerprint m \<and> aKind a = AlertFiring \<and>
     old (Fingerprint m) = None \<and> new (Fingerprint m) \<noteq> None"

text \<open>Every alert that is new on record was put there by a handler that fired.\<close>

definition accounted :: "(string \<rightharpoonup> alert_view) \<Rightarrow> (string \<rightharpoonup> alert_view) \<Rightarrow> phase list \<Rightarrow> bool" where
  "accounted old new ps \<longleftrightarrow> (\<forall>fp v. new fp = Some v \<longrightarrow> old fp = None \<longrightarrow>
     (\<exists>a. Answered (Inr (Some a)) \<in> set ps \<and> aFingerprint a = fp \<and> v = alert_view_of a))"

lemma phase_ok_mono: "phase_ok old new m p \<Longrightarrow> new \<subseteq>\<^sub>m new' \<Longrightarrow> phase_ok old new' m p"
  by (cases "(old, new, m, p)" rule: phase_ok.cases) (auto simp: map_le_def dom_def)

text \<open>Only a handler that has not been answered changes, so answers stay.\<close>

lemma answered_stays:
  assumes "advance mg (ps ! i) s = (p, s')" "Answered out \<in> set ps"
  shows "Answered out \<in> set (ps[i := p])"
proof -
  obtain j where j: "j < length ps" "ps ! j = Answered out" using assms(2) by (auto simp: in_set_conv_nth)
  then have "ps[i := p] ! j = Answered out" using assms(1) by (cases "i = j") auto
  then show ?thesis using j(1) by (metis length_list_update nth_mem)
qed

context store_laws
begin

lemma advance_law:
  assumes "mgStore mg = st" "inv s" "vAlerts v0 \<subseteq>\<^sub>m vAlerts (view s)" "phase_ok (vAlerts v0) (vAlerts (view s)) m p"
    and "advance mg p s = (p', s')" and obs: "\<And>x s. inv s \<Longrightarrow> inv (mgObs mg x s) \<and> view (mgObs mg x s) = view s"
  shows "inv s' \<and> vAlerts (view s) \<subseteq>\<^sub>m vAlerts (view s') \<and> phase_ok (vAlerts v0) (vAlerts (view s')) m p' \<and>
    (\<forall>fp v. vAlerts (view s') fp = Some v \<longrightarrow> vAlerts (view s) fp \<noteq> None \<or>
       (\<exists>a. p' = Answered (Inr (Some a)) \<and> aFingerprint a = fp \<and> v = alert_view_of a))"
proof (cases p)
  case (Checking m')
  obtain out s1 where d: "IsDuplicate st (Fingerprint m) s = (out, s1)" by (rule prod.exhaust)
  have m: "m' = m" using assms(4) Checking by simp
  from is_duplicate [OF assms(2) d] have l: "inv s1" "view s1 = view s" "\<forall>b. out = Inr b \<longrightarrow> b = (vAlerts (view s) (Fingerprint m) \<noteq> None)"
    by auto
  have "vAlerts v0 (Fingerprint m) = None" if "vAlerts (view s) (Fingerprint m) = None"
    using assms(3) that by (metis domIff map_le_def)
  with l assms(1,5) d obs [OF l(1)] show ?thesis by (auto simp: Checking m split: sum.splits bool.splits)
next
  case (Recording m')
  have m: "m' = m" "vAlerts v0 (Fingerprint m) = None" using assms(4) Recording by simp_all
  let ?a = "\<lparr>aMatch = m, aFingerprint = Fingerprint m, aKind = AlertFiring, aAt = mgNow mg s\<rparr>"
  obtain e s1 where r: "RecordAlert st ?a s = (e, s1)" by (rule prod.exhaust)
  from record_alert [OF assms(2) r] have l: "inv s1" "view s1 = (if e = None \<and> vAlerts (view s) (Fingerprint m) = None
      then (view s)\<lparr>vAlerts := (vAlerts (view s))(Fingerprint m \<mapsto> alert_view_of ?a)\<rparr> else view s)" by auto
  with assms(1,5) r m show ?thesis
    by (cases e) (auto simp: Recording map_le_def split: if_splits)
next
  case (Answered out)
  then show ?thesis using assms(2,4,5) by auto
qed

lemma race_law:
  assumes "(race mg)\<^sup>*\<^sup>* (map Checking ms, s0) x" "mgStore mg = st" "inv s0"
    and obs: "\<And>x s. inv s \<Longrightarrow> inv (mgObs mg x s) \<and> view (mgObs mg x s) = view s"
  shows "inv (snd x) \<and> vAlerts (view s0) \<subseteq>\<^sub>m vAlerts (view (snd x)) \<and>
    list_all2 (phase_ok (vAlerts (view s0)) (vAlerts (view (snd x)))) ms (fst x) \<and>
    accounted (vAlerts (view s0)) (vAlerts (view (snd x))) (fst x)"
  using assms(1)
proof (induction rule: rtranclp_induct)
  case base
  then show ?case using assms(3) by (auto simp: list_all2_conv_all_nth accounted_def)
next
  case (step y z)
  obtain i ps s p s' where y: "y = (ps, s)" "z = (ps[i := p], s')" and i: "i < length ps" "advance mg (ps ! i) s = (p, s')"
    using step(2) by (auto elim: race.cases)
  let ?o = "vAlerts (view s0)"
  have IH: "inv s" "?o \<subseteq>\<^sub>m vAlerts (view s)" "list_all2 (phase_ok ?o (vAlerts (view s))) ms ps" "accounted ?o (vAlerts (view s)) ps"
    using step(3) by (simp_all add: y)
  then have "phase_ok ?o (vAlerts (view s)) (ms ! i) (ps ! i)" using i(1) by (simp add: list_all2_conv_all_nth)
  note l = advance_law [OF assms(2) IH(1,2) this i(2) obs]
  have "list_all2 (phase_ok ?o (vAlerts (view s'))) ms ps" using IH(3) by (rule list_all2_mono) (erule phase_ok_mono, use l in blast)
  then have "list_all2 (phase_ok ?o (vAlerts (view s'))) (ms[i := ms ! i]) (ps[i := p])"
    by (rule list_all2_update_cong) (use l in blast)
  then have "list_all2 (phase_ok ?o (vAlerts (view s'))) ms (ps[i := p])" by simp
  moreover have "accounted ?o (vAlerts (view s')) (ps[i := p])"
    unfolding accounted_def
  proof (intro allI impI)
    fix fp v assume v: "vAlerts (view s') fp = Some v" "?o fp = None"
    show "\<exists>a. Answered (Inr (Some a)) \<in> set (ps[i := p]) \<and> aFingerprint a = fp \<and> v = alert_view_of a"
    proof (cases "vAlerts (view s) fp")
      case None
      then obtain a where a: "p = Answered (Inr (Some a))" "aFingerprint a = fp" "v = alert_view_of a" using l v(1) by blast
      have "p \<in> set (ps[i := p])" by (rule set_update_memI [OF i(1)])
      with a show ?thesis by metis
    next
      case (Some u)
      then have "u = v" using l v(1) by (metis domI map_le_def option.inject)
      then show ?thesis using IH(4) Some v(2) answered_stays [OF i(2)] unfolding accounted_def by blast
    qed
  qed
  ultimately show ?case using l IH(2) map_le_trans by (auto simp: y)
qed

end

section \<open>Properties\<close>

text \<open>
  C21. Handlers in any interleaving, on both back ends and whatever the driver's failures: alerts on record
  stay unchanged; a handler that fires does so for a fingerprint that was not on record at the start
  and is now; one that reports a duplicate has its fingerprint on record; and every alert that is
  new on record is the one of a handler that fired, so no alert is recorded without being sent.
\<close>

theorem race_keeps_records:
  assumes "db_manager mg" "db_ok (snd w)" "(race mg)\<^sup>*\<^sup>* (map Checking ms, w) (ps, w')"
  shows "vAlerts (db_view (snd w)) \<subseteq>\<^sub>m vAlerts (db_view (snd w')) \<and>
    list_all2 (phase_ok (vAlerts (db_view (snd w))) (vAlerts (db_view (snd w')))) ms ps \<and>
    accounted (vAlerts (db_view (snd w))) (vAlerts (db_view (snd w'))) ps"
  using store_laws.race_law [OF db_manager_laws(1) [OF assms(1)] assms(3) refl assms(2) db_manager_laws(2) [OF assms(1)]] by simp

text \<open>
  C22. But not at most once: when a fingerprint is not on record and the driver does not fail, two handlers of
  matches with that fingerprint can both fire, and the alert is sent twice. The check and the insert
  are two calls, and the insert does not say whether it inserted.
\<close>

theorem race_fires_twice:
  assumes "db_manager mg" "faults (snd w) = []"
    and "vAlerts (db_view (snd w)) (Fingerprint m) = None" "Fingerprint m' = Fingerprint m"
  shows "\<exists>a a' w'. (race mg)\<^sup>*\<^sup>* ([Checking m, Checking m'], w) ([Answered (Inr (Some a)), Answered (Inr (Some a'))], w') \<and>
    aFingerprint a = Fingerprint m \<and> aFingerprint a' = Fingerprint m"
proof -
  have st: "mgStore mg = lift_store SQLiteStore \<or> mgStore mg = lift_store PostgresStore" using assms(1) by (simp add: db_manager_def)
  have new: "map_of (t_alerts (snd w)) (Fingerprint m) = None" using assms(3) by (simp add: db_view_def)
  have check: "advance mg (Checking x) w = (Recording x, w)" if "Fingerprint x = Fingerprint m" for x
    using st assms(2) new that
    by (elim disjE) (simp_all add: lift_store_def on_snd_def SQLiteStore_def PostgresStore_def sqlite_IsDuplicate_def pg_IsDuplicate_def
        db_query_def next_fault_def)
  have rec: "\<exists>a v'. advance mg (Recording x) v = (Answered (Inr (Some a)), v') \<and> aFingerprint a = Fingerprint x \<and> faults (snd v') = []"
    if "faults (snd v) = []" for x v
    using st that
    by (elim disjE) (simp_all add: lift_store_def on_snd_def SQLiteStore_def PostgresStore_def sqlite_RecordAlert_def pg_RecordAlert_def
        db_exec_def next_fault_def insert_alert_def Let_def)
  obtain a w1 where a: "advance mg (Recording m) w = (Answered (Inr (Some a)), w1)" "aFingerprint a = Fingerprint m" "faults (snd w1) = []"
    using rec [OF assms(2)] by blast
  obtain a' w2 where a': "advance mg (Recording m') w1 = (Answered (Inr (Some a')), w2)" "aFingerprint a' = Fingerprint m'"
    using rec [OF a(3)] by blast
  have "race mg ([Checking m, Checking m'], w) ([Checking m, Checking m'][0 := Recording m], w)"
    by (rule race.handler) (use check in \<open>simp_all del: advance.simps\<close>)
  moreover have "race mg ([Recording m, Checking m'], w) ([Recording m, Checking m'][1 := Recording m'], w)"
    by (rule race.handler) (use check [OF assms(4)] in \<open>simp_all del: advance.simps\<close>)
  moreover have "race mg ([Recording m, Recording m'], w) ([Recording m, Recording m'][0 := Answered (Inr (Some a))], w1)"
    by (rule race.handler) (use a(1) in \<open>simp_all del: advance.simps\<close>)
  moreover have "race mg ([Answered (Inr (Some a)), Recording m'], w1)
      ([Answered (Inr (Some a)), Recording m'][1 := Answered (Inr (Some a'))], w2)"
    by (rule race.handler) (use a'(1) in \<open>simp_all del: advance.simps\<close>)
  ultimately have "(race mg)\<^sup>*\<^sup>* ([Checking m, Checking m'], w) ([Answered (Inr (Some a)), Answered (Inr (Some a'))], w2)"
    by (simp add: converse_rtranclp_into_rtranclp)
  then show ?thesis using a(2) a'(2) assms(4) by metis
qed

theorem race_fires_twice_witness:
  "\<exists>a a' w'. (race ex_manager)\<^sup>*\<^sup>* ([Checking (ex_match 2 ''high''), Checking (ex_match 2 ''high'')], ([], migrated []))
     ([Answered (Inr (Some a)), Answered (Inr (Some a'))], w') \<and> aFingerprint a = aFingerprint a'"
proof -
  let ?w = "([] :: metric list, migrated [])"
  have "faults (snd ?w) = []" "vAlerts (db_view (snd ?w)) (Fingerprint (ex_match 2 ''high'')) = None"
    by (simp_all add: migrated_def db_view_def)
  from race_fires_twice [OF ex_manager_ok this HOL.refl] show ?thesis by metis
qed

text \<open>A handler after its first step.\<close>

theorem race_keeps_records_witness:
  "\<exists>p w. (race ex_manager)\<^sup>*\<^sup>* (map Checking [ex_match 2 ''high''], ([], migrated [])) ([p], w) \<and>
     phase_ok Map.empty (vAlerts (db_view (snd w))) (ex_match 2 ''high'') p"
proof -
  let ?m = "ex_match 2 ''high''" and ?w = "([] :: metric list, migrated [])"
  obtain p w where p: "advance ex_manager (Checking ?m) ?w = (p, w)" by (rule prod.exhaust)
  have "race ex_manager ([Checking ?m], ?w) ([p], w)" using race.handler [of 0 "[Checking ?m]"] p by simp
  then have r: "(race ex_manager)\<^sup>*\<^sup>* (map Checking [?m], ?w) ([p], w)" by simp
  have "db_ok (snd ?w)" by simp
  from race_keeps_records [OF ex_manager_ok this r]
  have "phase_ok (vAlerts (db_view (migrated []))) (vAlerts (db_view (snd w))) ?m p" by simp
  moreover have "vAlerts (db_view (migrated [])) = Map.empty" by (simp add: db_view_def migrated_def)
  ultimately show ?thesis using r by metis
qed

end
