(* ===== verification/Program.thy ===== *)
theory Program
  imports Wiring
begin

text \<open>
  The running program (\<open>func main\<close> of \<open>cmd/opsentry/main.go\<close>): the command line, the modes that end at
  once, the start, and then the goroutines as a step relation. The chains of the configuration
  start one after the other while the trackers of those that have started already poll; each
  tracker has its three loops; the rules are reloaded on SIGHUP; the process may end at any time and
  be started again on the same database with another configuration.

  A step is one poll, one reload or the start of one chain. Between any two steps the network may
  change and the database driver may be given new failures.
\<close>

section \<open>The command line\<close>

record options =
  opConfig :: string
  opAddr :: string
  opDB :: string
  opVersion :: bool
  opCheck :: bool
  opRefreshABI :: bool
  opListMonitors :: bool

definition default_options :: options where
  "default_options = \<lparr>opConfig = ''config.yaml'', opAddr = '':8080'', opDB = ''opsentry.db'', opVersion = False,
     opCheck = False, opRefreshABI = False, opListMonitors = False\<rparr>"

datatype flag_var = StringVar "string \<Rightarrow> options \<Rightarrow> options" | BoolVar "bool \<Rightarrow> options \<Rightarrow> options"

definition flags :: "(string, flag_var) gomap" where
  "flags =
     [(''config'', StringVar (\<lambda>v. opConfig_update (\<lambda>_. v))),
      (''http.addr'', StringVar (\<lambda>v. opAddr_update (\<lambda>_. v))),
      (''db'', StringVar (\<lambda>v. opDB_update (\<lambda>_. v))),
      (''version'', BoolVar (\<lambda>v. opVersion_update (\<lambda>_. v))),
      (''check'', BoolVar (\<lambda>v. opCheck_update (\<lambda>_. v))),
      (''refresh-abi'', BoolVar (\<lambda>v. opRefreshABI_update (\<lambda>_. v))),
      (''list-monitors'', BoolVar (\<lambda>v. opListMonitors_update (\<lambda>_. v)))]"

definition ParseBool :: "string \<Rightarrow> bool option" where
  "ParseBool s =
     (if s \<in> {''1'', ''t'', ''T'', ''true'', ''TRUE'', ''True''} then Some True
      else if s \<in> {''0'', ''f'', ''F'', ''false'', ''FALSE'', ''False''} then Some False
      else None)"

datatype flag_err = BadSyntax string | Undefined string | InvalidBool string string | NeedsArgument string | HelpWanted

text \<open>The name and the value of an argument: the first \<open>=\<close> after the first character separates them.\<close>

definition split_flag :: "string \<Rightarrow> string \<times> string option" where
  "split_flag name =
     (let n = take 1 name @ takeWhile (\<lambda>c. c \<noteq> CHR ''='') (drop 1 name)
      in (n, if length n = length name then None else Some (drop (length n + 1) name)))"

definition flag_name :: "string \<Rightarrow> string" where
  "flag_name s = (if take 2 s = ''--'' then drop 2 s else drop 1 s)"

text \<open>\<open>flag.Parse\<close>: parsing ends at the first argument that is no flag, or after \<open>--\<close>.\<close>

fun Parse_flags :: "string list \<Rightarrow> options \<Rightarrow> flag_err + options" where
  "Parse_flags [] opts = Inr opts"
| "Parse_flags (s # args) opts =
     (if length s < 2 \<or> take 1 s \<noteq> ''-'' \<or> s = ''--'' then Inr opts
      else if flag_name s = [] \<or> take 1 (flag_name s) = ''-'' \<or> take 1 (flag_name s) = ''='' then Inl (BadSyntax s)
      else
        (case split_flag (flag_name s) of
           (name, val) \<Rightarrow>
             (case map_of flags name of
                None \<Rightarrow> Inl (if name = ''help'' \<or> name = ''h'' then HelpWanted else Undefined name)
              | Some (BoolVar upd) \<Rightarrow>
                  (case val of
                     None \<Rightarrow> Parse_flags args (upd True opts)
                   | Some v \<Rightarrow>
                       (case ParseBool v of
                          None \<Rightarrow> Inl (InvalidBool name v)
                        | Some b \<Rightarrow> Parse_flags args (upd b opts)))
              | Some (StringVar upd) \<Rightarrow>
                  (case val of
                     Some v \<Rightarrow> Parse_flags args (upd v opts)
                   | None \<Rightarrow>
                       (case args of
                          [] \<Rightarrow> Inl (NeedsArgument name)
                        | v # rest \<Rightarrow> Parse_flags rest (upd v opts))))))"

section \<open>The state of the program\<close>

text \<open>What a chain that has started owns: its tracker, whether \<open>Run\<close> has passed its start, and the
  state of its closures that is not shared.\<close>

record ('p, 'n) running =
  rnTracker :: "('p, 'n) world headtracker"
  rnSeeded :: bool
  rnClient :: client
  rnReaders :: "(string, state_reader) gomap"
  rnRules :: "'p compiled list"

text \<open>Whether the process runs, has ended on a signal or a fatal error, or has panicked.\<close>

datatype status = Up | Ended | Panicked

text \<open>The configuration, the store, the API key of the environment, the chains that have not been
  started yet, those that run, and the state they share.\<close>

record ('p, 'n) program =
  pgStatus :: status
  pgConfig :: config
  pgStore :: "db store"
  pgKey :: string
  pgTodo :: "chain_cfg list"
  pgChains :: "(string \<times> ('p, 'n) running) list"
  pgRouter :: router
  pgNet :: 'n
  pgDB :: db

section \<open>Start\<close>

datatype fatal = LoadFatal load_err | OpenFatal err | ClearFatal err | ReceiversFatal router_err

definition boot ::
  "load_err + config \<Rightarrow> string \<Rightarrow> bool \<Rightarrow> string \<Rightarrow> 'n \<Rightarrow> db \<Rightarrow> (fatal + ('p, 'n) program) \<times> db" where
  "boot loaded dbPath refreshABI apiKey n d =
     (case loaded of
        Inl e \<Rightarrow> (Inl (LoadFatal e), d)
      | Inr cfg \<Rightarrow>
          (case openStore dbPath d of
             (Inl e, d1) \<Rightarrow> (Inl (OpenFatal e), d1)
           | (Inr st, d1) \<Rightarrow>
               (case (if refreshABI then ClearABICache st d1 else (Inr 0, d1)) of
                  (Inl e, d2) \<Rightarrow> (Inl (ClearFatal e), d2)
                | (Inr k, d2) \<Rightarrow>
                    (case BuildRouter (cfgReceivers cfg) of
                       Inl e \<Rightarrow> (Inl (ReceiversFatal e), d2)
                     | Inr router \<Rightarrow>
                         (Inr \<lparr>pgStatus = Up, pgConfig = cfg, pgStore = st, pgKey = apiKey, pgTodo = cfgChains cfg, pgChains = [],
                               pgRouter = router, pgNet = n, pgDB = d2\<rparr>, d2)))))"

text \<open>What a call of the program comes to, and its exit code where it ends at once.\<close>

datatype ('p, 'n) outcome =
    FlagsFailed flag_err
  | VersionShown
  | CheckFailed check_err
  | ConfigOK
  | ListFailed load_err
  | Listed "string list list"
  | Fatal fatal
  | Serving "('p, 'n) program"

definition main ::
  "('a, 'p, 'n) platform \<Rightarrow> (string \<Rightarrow> load_err + config) \<Rightarrow> string \<Rightarrow> string list \<Rightarrow> 'n \<Rightarrow> db \<Rightarrow> ('p, 'n) outcome \<times> db" where
  "main pf load apiKey args n d =
     (case Parse_flags args default_options of
        Inl e \<Rightarrow> (FlagsFailed e, d)
      | Inr opts \<Rightarrow>
          if opVersion opts then (VersionShown, d)
          else if opCheck opts then
            (case checkConfig (pfCompile pf) (load (opConfig opts)) of
               Some e \<Rightarrow> (CheckFailed e, d)
             | None \<Rightarrow> (ConfigOK, d))
          else if opListMonitors opts then
            (case listMonitorsCmd (load (opConfig opts)) of
               Inl e \<Rightarrow> (ListFailed e, d)
             | Inr ls \<Rightarrow> (Listed ls, d))
          else
            (case boot (load (opConfig opts)) (opDB opts) (opRefreshABI opts) apiKey n d of
               (Inl e, d') \<Rightarrow> (Fatal e, d')
             | (Inr p, d') \<Rightarrow> (Serving p, d')))"

fun exit_code :: "('p, 'n) outcome \<Rightarrow> nat option" where
  "exit_code (FlagsFailed e) = Some (if e = HelpWanted then 0 else 2)"
| "exit_code VersionShown = Some 0"
| "exit_code (CheckFailed e) = Some 1"
| "exit_code ConfigOK = Some 0"
| "exit_code (ListFailed e) = Some 1"
| "exit_code (Listed ls) = Some 0"
| "exit_code (Fatal e) = Some 1"
| "exit_code (Serving p) = None"

section \<open>Chains\<close>

text \<open>The next chain of the configuration. One that cannot be started is logged and skipped.\<close>

definition start_next :: "('a, 'p, 'n) platform \<Rightarrow> ('p, 'n) program \<Rightarrow> ('p, 'n) program" where
  "start_next pf p =
     (case pgTodo p of
        [] \<Rightarrow> p
      | ch # chs \<Rightarrow>
          (case start_chain pf (pgStore p) (pgKey p) (pgConfig p) ch (pgRouter p) (pgNet p) (pgDB p)
             :: ('a, 'p, 'n) chain_outcome \<times> 'n \<times> db of
             (Started t w, n, d) \<Rightarrow>
               p\<lparr>pgTodo := chs, pgNet := n, pgDB := d,
                 pgChains := pgChains p @ [(chID ch, \<lparr>rnTracker = t, rnSeeded = False, rnClient = csClient (fst w),
                   rnReaders = csReaders (fst w), rnRules = csRules (fst w)\<rparr>)]\<rparr>
           | (_, n, d) \<Rightarrow> p\<lparr>pgTodo := chs, pgNet := n, pgDB := d\<rparr>))"

text \<open>The world that a chain acts on, and the program after it has acted.\<close>

definition chain_world :: "('p, 'n) program \<Rightarrow> ('p, 'n) running \<Rightarrow> ('p, 'n) world" where
  "chain_world p r =
     (\<lparr>csClient = rnClient r, csReaders = rnReaders r, csRules = rnRules r, csRouter = pgRouter p, csNet = pgNet p\<rparr>, pgDB p)"

definition put_chain :: "nat \<Rightarrow> ('p, 'n) world headtracker \<Rightarrow> ('p, 'n) world \<Rightarrow> ('p, 'n) program \<Rightarrow> ('p, 'n) program" where
  "put_chain i t w p =
     p\<lparr>pgChains := (pgChains p)[i := (fst (pgChains p ! i),
         \<lparr>rnTracker = t, rnSeeded = True, rnClient = csClient (fst w), rnReaders = csReaders (fst w), rnRules = csRules (fst w)\<rparr>)],
       pgRouter := csRouter (fst w), pgNet := csNet (fst w), pgDB := snd w\<rparr>"

text \<open>The start of \<open>Run\<close>. A ticker of a length that is not positive is a panic, which ends the
  whole process; at that point the tracker has read the store.\<close>

definition run_chain :: "nat \<Rightarrow> ('p, 'n) program \<Rightarrow> ('p, 'n) program" where
  "run_chain i p =
     (case pgChains p ! i of
        (cid, r) \<Rightarrow>
          (case run_start (rnTracker r) (chain_world p r) of
             (t, w) \<Rightarrow> (put_chain i t w p)\<lparr>pgStatus := (if tInterval t \<le> 0 then Panicked else pgStatus p)\<rparr>))"

text \<open>One turn of one of the three loops of a tracker; \<open>None\<close> when the loop does not exist, or for a
  poll that never ends.\<close>

datatype loop = HeadLoop | SafeLoop | FinalizedLoop

fun turn :: "loop \<Rightarrow> 'w headtracker \<Rightarrow> 'w \<Rightarrow> ('w headtracker \<times> 'w) option" where
  "turn HeadLoop t w = map_option snd (pollOnce t w)"
| "turn SafeLoop t w =
     (if tSafeTag t = [] then None
      else (case tOnCanonicalSafe t of
              None \<Rightarrow> None
            | Some cb \<Rightarrow>
                (case pollConfirmationOnce t (tSafeTag t) cb (safeTip t, safeSeeded t) w of
                   ((n, sd), w') \<Rightarrow> Some (t\<lparr>safeTip := n, safeSeeded := sd\<rparr>, w'))))"
| "turn FinalizedLoop t w =
     (if tFinalizedTag t = [] then None
      else (case tOnCanonicalFinalized t of
              None \<Rightarrow> None
            | Some cb \<Rightarrow>
                (case pollConfirmationOnce t (tFinalizedTag t) cb (finalizedTip t, finalizedSeeded t) w of
                   ((n, sd), w') \<Rightarrow> Some (t\<lparr>finalizedTip := n, finalizedSeeded := sd\<rparr>, w'))))"

text \<open>The holders of the rules by chain, and their reload.\<close>

definition evaluators :: "('p, 'n) program \<Rightarrow> (string, 'p compiled list) gomap" where
  "evaluators p = map (\<lambda>(cid, r). (cid, rnRules r)) (pgChains p)"

definition hup :: "('a, 'p, 'n) platform \<Rightarrow> load_err + config \<Rightarrow> ('p, 'n) program \<Rightarrow> ('p, 'n) program" where
  "hup pf loaded p =
     p\<lparr>pgChains := map2 (\<lambda>(cid, r) (_, rules). (cid, r\<lparr>rnRules := rules\<rparr>)) (pgChains p)
         (reloadRules (pfCompile pf) loaded (evaluators p))\<rparr>"

section \<open>Steps\<close>

text \<open>
  Configurations come from \<open>config.Load\<close>; \<open>accept\<close> says which of them the operator writes. The signal
  handler is installed after the last chain was started. A new process has lost everything but
  the database.
\<close>

inductive program_step ::
  "('a, 'p, 'n) platform \<Rightarrow> string \<Rightarrow> (load_err + config \<Rightarrow> bool) \<Rightarrow> ('p, 'n) program \<Rightarrow> ('p, 'n) program \<Rightarrow> bool"
  for pf dbPath accept where
  start: "pgStatus p = Up \<Longrightarrow> program_step pf dbPath accept p (start_next pf p)"
| run: "pgStatus p = Up \<Longrightarrow> i < length (pgChains p) \<Longrightarrow> \<not> rnSeeded (snd (pgChains p ! i)) \<Longrightarrow>
     program_step pf dbPath accept p (run_chain i p)"
| turn: "pgStatus p = Up \<Longrightarrow> i < length (pgChains p) \<Longrightarrow> pgChains p ! i = (cid, r) \<Longrightarrow> rnSeeded r \<Longrightarrow>
     turn l (rnTracker r) (chain_world p r) = Some (t, w) \<Longrightarrow> program_step pf dbPath accept p (put_chain i t w p)"
| reload: "pgStatus p = Up \<Longrightarrow> pgTodo p = [] \<Longrightarrow> accept loaded \<Longrightarrow> program_step pf dbPath accept p (hup pf loaded p)"
| outside: "program_step pf dbPath accept p (p\<lparr>pgNet := n, pgDB := (pgDB p)\<lparr>faults := fs\<rparr>\<rparr>)"
| stop: "pgStatus p = Up \<Longrightarrow> program_step pf dbPath accept p (p\<lparr>pgStatus := Ended\<rparr>)"
| restart: "pgStatus p \<noteq> Up \<Longrightarrow> accept loaded \<Longrightarrow> boot loaded dbPath refreshABI apiKey n (pgDB p) = (Inr p', d') \<Longrightarrow>
     program_step pf dbPath accept p p'"
| no_start: "pgStatus p \<noteq> Up \<Longrightarrow> accept loaded \<Longrightarrow>
     (boot loaded dbPath refreshABI apiKey n (pgDB p) :: (fatal + ('p, 'n) program) \<times> db) = (Inl e, d') \<Longrightarrow>
     program_step pf dbPath accept p (p\<lparr>pgDB := d'\<rparr>)"

inductive_cases program_stepE: "program_step pf dbPath accept p p'"

end
