(* ===== verification/Effects.thy ===== *)
theory Effects
  imports Tracker Logs Decode
begin

text \<open>
  What the components do to the world, as long as they only act through the operations they are
  given: if every operation stays within a reflexive and transitive relation on worlds, so does
  every poll of a tracker, every batch of a log fetcher and every registration with the decoder.
  The relation is the parameter of a locale, which the program instantiates.
\<close>

definition op_in :: "('w \<Rightarrow> 'w \<Rightarrow> bool) \<Rightarrow> ('w \<Rightarrow> 'x \<times> 'w) \<Rightarrow> bool" where
  "op_in R f \<longleftrightarrow> (\<forall>w. R w (snd (f w)))"

definition act_in :: "('w \<Rightarrow> 'w \<Rightarrow> bool) \<Rightarrow> ('x \<Rightarrow> 'w \<Rightarrow> 'w) option \<Rightarrow> bool" where
  "act_in R cb \<longleftrightarrow> (\<forall>f x w. cb = Some f \<longrightarrow> R w (f x w))"

lemma op_inD: "op_in R f \<Longrightarrow> f w = (x, w') \<Longrightarrow> R w w'"
  unfolding op_in_def by (metis snd_conv)

text \<open>The operations of a tracker. Blocks are remembered only with numbers that exist.\<close>

definition tracker_in :: "('w \<Rightarrow> 'w \<Rightarrow> bool) \<Rightarrow> 'w headtracker \<Rightarrow> bool" where
  "tracker_in R t \<longleftrightarrow> (\<forall>tag. op_in R (tHeadByTag t tag)) \<and> (\<forall>n. op_in R (tBlockByNumber t n)) \<and>
     (\<forall>c. op_in R (LoadCursor (tStore t) c)) \<and> (\<forall>now c. op_in R (SaveCursor (tStore t) now c)) \<and>
     (\<forall>b. bNumber b \<noteq> max_u64 \<longrightarrow> op_in R (RememberBlock (tStore t) b)) \<and>
     (\<forall>c lo. op_in R (LoadRecentBlocks (tStore t) c lo)) \<and>
     (\<forall>c lo hi. op_in R (LoadCanonicalBlocksRange (tStore t) c lo hi)) \<and>
     act_in R (tOnCanonical t) \<and> act_in R (tOnCanonicalBatch t) \<and> act_in R (tOnReverted t) \<and>
     act_in R (tOnCanonicalSafe t) \<and> act_in R (tOnCanonicalFinalized t) \<and> act_in R (Some (tObs t))"

lemma tracker_inD:
  assumes "tracker_in R t"
  shows "op_in R (tHeadByTag t tag)" "op_in R (tBlockByNumber t n)" "op_in R (LoadCursor (tStore t) c)"
    "op_in R (SaveCursor (tStore t) now cu)" "bNumber b \<noteq> max_u64 \<Longrightarrow> op_in R (RememberBlock (tStore t) b)"
    "op_in R (LoadRecentBlocks (tStore t) c lo)" "op_in R (LoadCanonicalBlocksRange (tStore t) c lo hi)"
    "act_in R (tOnCanonical t)" "act_in R (tOnCanonicalBatch t)" "act_in R (tOnReverted t)"
    "act_in R (tOnCanonicalSafe t)" "act_in R (tOnCanonicalFinalized t)" "act_in R (Some (tObs t))"
  using assms by (simp_all add: tracker_in_def)

text \<open>The node answers every query of a fetcher with the logs it asks for, from some world on.\<close>

definition answers :: "('w \<Rightarrow> 'w \<Rightarrow> bool) \<Rightarrow> 'w logfetcher \<Rightarrow> gethlog list \<Rightarrow> 'w \<Rightarrow> bool" where
  "answers R f lgs w \<longleftrightarrow> (\<forall>from to v. R w v \<longrightarrow> (\<exists>out v'. lfFilterLogs f from to (lfAddresses f) v = (Inr out, v') \<and>
     (\<forall>lg \<in> set lgs. wanted f {n. from \<le> n \<and> n \<le> to} lg \<longrightarrow> lg \<in> set out)))"

text \<open>The operations that a registration uses.\<close>

definition register_in :: "('w \<Rightarrow> 'w \<Rightarrow> bool) \<Rightarrow> ('a, 'w) libs \<Rightarrow> ('a, 'w) decoder \<Rightarrow> 'w monitor_spec \<Rightarrow> bool" where
  "register_in R lib d spec \<longleftrightarrow> (\<forall>u. op_in R (lbDo lib u)) \<and>
     (case dcCache d of None \<Rightarrow> True
      | Some ca \<Rightarrow> (\<forall>c a. op_in R (acLoad ca c a)) \<and> (\<forall>c a x. op_in R (acSave ca c a x))) \<and>
     (case spStorage spec of None \<Rightarrow> True
      | Some r \<Rightarrow> (\<forall>a s. op_in R (rdStorageAt r a s)) \<and> (\<forall>a x b. op_in R (rdCallContract r a x b)))"

locale world_order =
  fixes R :: "'w \<Rightarrow> 'w \<Rightarrow> bool"
  assumes refl: "R w w" and trans: "R u v \<Longrightarrow> R v w \<Longrightarrow> R u w"
begin

lemma fold_in: "(\<And>x w. x \<in> set xs \<Longrightarrow> R w (f x w)) \<Longrightarrow> R w (fold f xs w)"
proof (induction xs arbitrary: w)
  case (Cons x xs)
  have "R w (f x w)" using Cons.prems by simp
  moreover have "R (f x w) (fold f xs (f x w))" using Cons by simp
  ultimately show ?case using trans by simp
qed (simp add: refl)

lemma call_in: "act_in R cb \<Longrightarrow> R w (call cb x w)"
  by (cases cb) (auto simp: call_def act_in_def refl)

section \<open>Reconciliation\<close>

lemma forward_loop_in:
  assumes "\<And>n. op_in R (fetch n)" "forward_loop fetch r head n fetched w = Some y"
  shows "R w (snd y)"
proof -
  have "fetch' = fetch \<longrightarrow> R w (snd y)" if "forward_loop fetch' r head n fetched w = Some y" for fetch'
    using that
  proof (rule forward_loop.raw_induct [where P = "\<lambda>fetch' r head n fetched w y. fetch' = fetch \<longrightarrow> R w (snd y)", rotated])
    fix loop fetch' and r :: reconciler and head :: blockref and n fetched w y
    assume IH: "\<And>fetch' r head n fetched w y. loop fetch' r head n fetched w = Some y \<Longrightarrow> fetch' = fetch \<longrightarrow> R w (snd y)"
      and eq: "(if n \<le> bNumber head then
        (case (if n = bNumber head then (Inr head, w) else fetch' n w) of
           (Inl e, w') \<Rightarrow> Some (FwdErr (FetchCatchup n e), w')
         | (Inr b, w') \<Rightarrow>
             (if n \<noteq> tip r + 1 \<and> fetched = [] then Some (FwdErr IndexPanic, w')
              else let prev = (if n = tip r + 1 then known_or_zero r (tip r) else last fetched)
                   in if bParentHash b \<noteq> bHash prev then Some (FwdBroken, w')
                      else loop fetch' r head (n + 1) (fetched @ [b]) w'))
      else Some (FwdDone fetched, w)) = Some y"
    show "fetch' = fetch \<longrightarrow> R w (snd y)"
    proof
      assume f: "fetch' = fetch"
      obtain x w1 where x: "(if n = bNumber head then (Inr head, w) else fetch n w) = (x, w1)" by (rule prod.exhaust)
      have "R w w1" using x op_inD [OF assms(1)] refl by (auto split: if_splits)
      moreover have "snd y = w \<or> snd y = w1 \<or> (\<exists>n fetched. loop fetch r head n fetched w1 = Some y)"
        using eq x f by (cases x) (auto simp: Let_def split: if_splits)
      ultimately show "R w (snd y)" using IH refl trans by metis
    qed
  qed
  with assms(2) show ?thesis by simp
qed

lemma walk_back_in:
  assumes "\<And>n. op_in R (fetch n)" "walk_back fetch r cursor path w = Some y"
  shows "R w (snd y)"
proof -
  have "fetch' = fetch \<longrightarrow> R w (snd y)" if "walk_back fetch' r cursor path w = Some y" for fetch'
    using that
  proof (rule walk_back.raw_induct [where P = "\<lambda>fetch' r cursor path w y. fetch' = fetch \<longrightarrow> R w (snd y)", rotated])
    fix loop fetch' and r :: reconciler and cursor :: blockref and path w y
    assume IH: "\<And>fetch' r cursor path w y. loop fetch' r cursor path w = Some y \<Longrightarrow> fetch' = fetch \<longrightarrow> R w (snd y)"
      and eq: "(if 0 < bNumber cursor then
          if ancestor_at r cursor (bNumber cursor - 1) then Some (Inr (bNumber cursor - 1, path), w)
          else case fetch' (bNumber cursor - 1) w of
              (Inl e, w') \<Rightarrow> Some (Inl (WalkBack (bNumber cursor - 1) e), w')
            | (Inr got, w') \<Rightarrow>
                if bHash got \<noteq> bParentHash cursor
                then Some (Inl (ChainShifted (bNumber cursor - 1)), w')
                else loop fetch' r got (path @ [got]) w'
        else Some (Inr (0, path), w)) = Some y"
    show "fetch' = fetch \<longrightarrow> R w (snd y)"
    proof
      assume f: "fetch' = fetch"
      obtain x w1 where x: "fetch (bNumber cursor - 1) w = (x, w1)" by (rule prod.exhaust)
      have "R w w1" by (rule op_inD [OF assms(1) x])
      moreover have "snd y = w \<or> snd y = w1 \<or> (\<exists>got path. loop fetch r got path w1 = Some y)"
        using eq x f by (cases x) (auto split: if_splits)
      ultimately show "R w (snd y)" using IH refl trans by metis
    qed
  qed
  with assms(2) show ?thesis by simp
qed

lemma handleReorg_in:
  assumes "\<And>n. op_in R (fetch n)" "handleReorg fetch r head w = Some (out, r', w')"
  shows "R w w'"
proof -
  obtain y where y: "walk_back fetch r head [head] w = Some y"
    using assms(2) by (cases "walk_back fetch r head [head] w") (auto simp: handleReorg_def)
  have "w' = snd y"
    using assms(2) y by (auto simp: handleReorg_def Let_def split: sum.splits prod.splits option.splits)
  then show ?thesis using walk_back_in [OF assms(1) y] by simp
qed

lemma OnHead_in:
  assumes "\<And>n. op_in R (fetch n)" "OnHead fetch r head w = Some (out, r', w')"
  shows "R w w'"
proof -
  have "R w w'" if ap: "applyForward fetch r head w = Some (out, r', w')"
  proof (cases "forward_loop fetch r head (tip r + 1) [] w")
    case None
    with ap refl show ?thesis by (auto simp: applyForward_def split: if_splits)
  next
    case (Some y)
    obtain fe w1 where y: "y = (fe, w1)" by (rule prod.exhaust)
    have "R w w1" using forward_loop_in [OF assms(1) Some] y by simp
    moreover have "w' = w \<or> w' = w1 \<or> handleReorg fetch r head w1 = Some (out, r', w')"
      using ap Some y by (cases fe) (auto simp: applyForward_def split: if_splits)
    then have "w' = w \<or> w' = w1 \<or> R w1 w'" by (auto dest: handleReorg_in [OF assms(1)])
    ultimately show ?thesis using refl trans by blast
  qed
  moreover have "w' = w \<or> applyForward fetch r head w = Some (out, r', w') \<or> handleReorg fetch r head w = Some (out, r', w')"
    using assms(2) unfolding OnHead_def by (simp split: if_split_asm)
  moreover have "R w w'" if "handleReorg fetch r head w = Some (out, r', w')" by (rule handleReorg_in [OF assms(1) that])
  ultimately show ?thesis using refl by blast
qed

section \<open>Polls\<close>

lemma emit_blocks_in:
  assumes "tracker_in R t"
  shows "list_all (\<lambda>b. bNumber b \<noteq> max_u64) bs \<Longrightarrow> R w (emit_blocks t bs w)"
proof (induction bs arbitrary: w)
  case (Cons b bs)
  let ?w = "snd (RememberBlock (tStore t) b w)"
  have "R w ?w" using tracker_inD(5) [OF assms] Cons.prems by (simp add: op_in_def)
  moreover have "R ?w (call (tOnCanonical t) b ?w)" by (rule call_in [OF tracker_inD(8) [OF assms]])
  ultimately have "R w (call (tOnCanonical t) b ?w)" by (rule trans)
  moreover have "R (call (tOnCanonical t) b ?w) (emit_blocks t bs (call (tOnCanonical t) b ?w))" using Cons by simp
  ultimately show ?case unfolding emit_blocks.simps by (rule trans)
qed (simp add: refl)

lemma obs_in: "tracker_in R t \<Longrightarrow> R w (tObs t m w)"
  by (drule tracker_inD(13)) (simp add: act_in_def)

lemma report_in: "tracker_in R t \<Longrightarrow> R w (report t b w)"
  unfolding report_def by (rule trans [OF obs_in call_in [OF tracker_inD(10)]])

lemma finish_emit_in:
  assumes "tracker_in R t"
  shows "R w (snd (finish_emit t head bs w))"
proof (cases "bs = []")
  case False
  let ?w = "call (tOnCanonicalBatch t) bs w"
  obtain e w' where s: "SaveCursor (tStore t) (tNow t ?w) \<lparr>cuChain = tChain t, cuBlock = last bs\<rparr> ?w = (e, w')" by (rule prod.exhaust)
  have w': "R w w'" by (rule trans [OF call_in [OF tracker_inD(9) [OF assms]] op_inD [OF tracker_inD(4) [OF assms] s]])
  then have "R w (tObs t m w')" for m by (rule trans [OF _ obs_in [OF assms]])
  with w' False s show ?thesis by (simp add: finish_emit_def split: option.split)
qed (simp add: finish_emit_def refl)

lemma deliver_in:
  assumes "tracker_in R t" "list_all (\<lambda>b. bNumber b \<noteq> max_u64) emitted"
  shows "R w (snd (deliver t head reported emitted w))"
proof -
  have "R w (fold (report t) reported w)" by (intro fold_in report_in assms(1))
  moreover note emit_blocks_in [OF assms] finish_emit_in [OF assms(1)]
  ultimately show ?thesis unfolding deliver_def using trans by blast
qed

lemma tracker_in_settles: "settles t head res t' reported emitted \<Longrightarrow> tracker_in R t' = tracker_in R t"
  by (auto simp: settles_def tracker_in_def)

text \<open>A poll that fails before the blocks are settled has only read.\<close>

lemma pollOnce_failed_in:
  assumes "tracker_in R t" "pollOnce t w = Some (e, t', w')"
    "tHeadByTag t (tTag t) w = (h, w1)"
    "\<forall>head. h = Inr head \<longrightarrow> (\<exists>er r w2. OnHead (tBlockByNumber t) (tReconciler t) head w1 = Some (Inl er, r, w2))"
  shows "R w w'"
proof -
  have "R w w1" by (rule op_inD [OF tracker_inD(1) [OF assms(1)] assms(3)])
  moreover have "R w1 w'"
  proof (cases h)
    case (Inl x)
    then show ?thesis using assms(2,3) refl by (simp add: pollOnce_def)
  next
    case (Inr head)
    then obtain er r w2 where oh: "OnHead (tBlockByNumber t) (tReconciler t) head w1 = Some (Inl er, r, w2)" using assms(4) by blast
    then have "w' = w2" using assms(2,3) Inr by (simp add: pollOnce_def)
    then show ?thesis using OnHead_in [OF tracker_inD(2) [OF assms(1)] oh] by simp
  qed
  ultimately show ?thesis by (rule trans)
qed

lemma emitted_exist:
  assumes "settles t head res t' reported emitted" "bNumber head \<noteq> max_u64"
  shows "list_all (\<lambda>b. bNumber b \<noteq> max_u64) emitted"
proof -
  from assms(1) have em: "emitted = sort_key bNumber
      (filter (\<lambda>b. bNumber b \<le> emit_threshold (bNumber head) (tConfirmDepth t)) (unsettled t res))" by (rule settlesE)
  have "bNumber b \<le> bNumber head" if "b \<in> set emitted" for b
  proof -
    have "unat (bNumber b) + unat (tConfirmDepth t) \<le> unat (bNumber head) \<or> bNumber b = 0"
      using that unfolding emit_threshold_le [symmetric] by (simp add: em)
    then show ?thesis by (auto simp: word_le_nat_alt)
  qed
  then show ?thesis using le_ne_max [OF _ assms(2)] by (simp add: list_all_iff)
qed

lemma pollOnce_in:
  assumes "tracker_inv t" "good_node t" "tracker_in R t" "pollOnce t w = Some (e, t', w')"
  shows "R w w'"
proof -
  obtain h w1 where h: "tHeadByTag t (tTag t) w = (h, w1)" by (rule prod.exhaust)
  show ?thesis
  proof (cases "\<forall>head. h = Inr head \<longrightarrow> (\<exists>er r w2. OnHead (tBlockByNumber t) (tReconciler t) head w1 = Some (Inl er, r, w2))")
    case True
    from pollOnce_failed_in [OF assms(3,4) h this] show ?thesis .
  next
    case False
    then obtain head where head: "h = Inr head"
      "\<not> (\<exists>er r w2. OnHead (tBlockByNumber t) (tReconciler t) head w1 = Some (Inl er, r, w2))" by blast
    from assms(1,2,4) show ?thesis
    proof (rule pollOnce_elim)
      assume "t' = t" "e \<noteq> None" "\<And>x. e \<noteq> Some (SaveCursorErr x)"
      with assms(4) h head show ?thesis
        by (auto simp: pollOnce_def finish_emit_def Let_def split_beta split: option.splits prod.splits sum.splits if_splits)
    next
      fix head' res reported emitted v1 w2
      assume a: "tHeadByTag t (tTag t) w = (Inr head', v1)" "bNumber head' \<noteq> max_u64"
        "OnHead (tBlockByNumber t) (tReconciler t) head' v1 = Some (Inr res, tReconciler t', w2)"
        "settles t head' res t' reported emitted" "deliver t' head' reported emitted w2 = (e, w')"
      have "R w v1" by (rule op_inD [OF tracker_inD(1) [OF assms(3)] a(1)])
      moreover have "R v1 w2" by (rule OnHead_in [OF tracker_inD(2) [OF assms(3)] a(3)])
      moreover have "R w2 w'"
        using deliver_in [OF _ emitted_exist [OF a(4,2)], of t' w2 head' reported] tracker_in_settles [OF a(4)] assms(3) a(5) by simp
      ultimately show ?thesis using trans by blast
    qed
  qed
qed

lemma pollConfirmationOnce_in:
  assumes "tracker_in R t" "act_in R (Some cb)" "pollConfirmationOnce t tag cb mark w = (m', w')"
  shows "R w w'"
proof -
  obtain h w1 where h: "tHeadByTag t tag w = (h, w1)" by (rule prod.exhaust)
  have w1: "R w w1" by (rule op_inD [OF tracker_inD(1) [OF assms(1)] h])
  have "w' = w1 \<or> (\<exists>lo hi out w2. LoadCanonicalBlocksRange (tStore t) (tChain t) lo hi w1 = (out, w2) \<and>
      (w' = w2 \<or> (\<exists>bs. w' = cb bs w2)))"
    using assms(3) h by (simp add: pollConfirmationOnce_def split: sum.splits prod.splits list.splits if_splits) blast+
  moreover have "R w2 (cb bs w2)" for bs w2 using assms(2) by (simp add: act_in_def)
  moreover have "R w1 w2" if "LoadCanonicalBlocksRange (tStore t) (tChain t) lo hi w1 = (out, w2)" for lo hi out w2
    by (rule op_inD [OF tracker_inD(7) [OF assms(1)] that])
  ultimately show ?thesis using w1 trans by blast
qed

lemma run_start_in:
  assumes "tracker_in R t" "run_start t w = (t', w')"
  shows "R w w'"
proof -
  let ?d = "run_defaults t"
  have d: "tracker_in R ?d" using assms(1) by (simp add: run_defaults_def tracker_in_def)
  obtain out w1 where l: "LoadCursor (tStore ?d) (tChain ?d) w = (out, w1)" by (rule prod.exhaust)
  have "w' = w1 \<or> (\<exists>lo x. LoadRecentBlocks (tStore ?d) (tChain ?d) lo w1 = (x, w'))"
    using assms(2) l by (auto simp: run_start_def seedFromStorage_def Let_def split: prod.splits sum.splits option.splits)
  then show ?thesis
    using op_inD [OF tracker_inD(3) [OF d] l] op_inD [OF tracker_inD(6) [OF d]] trans by blast
qed

section \<open>Logs\<close>

lemma hand_on_in: "act_in R (Some onLog) \<Longrightarrow> R w (hand_on chain onLog byNumber lgs w)"
proof (induction lgs arbitrary: w)
  case (Cons lg lgs)
  have "R w (onLog l w)" for l using Cons.prems by (simp add: act_in_def)
  moreover have "R (onLog l w) (hand_on chain onLog byNumber lgs (onLog l w))" for l using Cons by simp
  ultimately have "R w (hand_on chain onLog byNumber lgs (onLog l w))" for l using trans by blast
  then show ?case using Cons by (cases "map_of byNumber (glBlockNumber lg)") simp_all
qed (simp add: refl)

lemma fetchRange_in:
  assumes "op_in R (lfFilterLogs f from to (lfAddresses f))" "act_in R (Some onLog)"
  shows "R w (fetchRange f onLog from to byNumber w)"
proof -
  obtain out w' where q: "lfFilterLogs f from to (lfAddresses f) w = (out, w')" by (rule prod.exhaust)
  have "R w w'" by (rule op_inD [OF assms(1) q])
  with q trans hand_on_in [OF assms(2)] show ?thesis by (auto simp: fetchRange_def split: sum.split)
qed

lemma fetch_runs_in:
  assumes "\<And>from to. op_in R (lfFilterLogs f from to (lfAddresses f))" "act_in R (Some onLog)"
  shows "R w (fetch_runs f onLog byNumber b nums i w)"
proof (induction "length nums - i" arbitrary: i w rule: less_induct)
  case less
  show ?case
  proof (cases "i < length nums")
    case True
    let ?e = "run_end nums b i i"
    let ?w = "fetchRange f onLog (nums ! i) (nums ! ?e) byNumber w"
    have "R ?w (fetch_runs f onLog byNumber b nums (?e + 1) ?w)" using less True run_end_ge [of i nums b i] by simp
    then show ?thesis
      using trans [OF fetchRange_in [OF assms]] True by (subst fetch_runs.simps) (simp add: Let_def)
  qed (simp add: fetch_runs.simps refl)
qed

lemma OnCanonicalBatch_in:
  assumes "\<And>from to. op_in R (lfFilterLogs f from to (lfAddresses f))" "act_in R (lfOnLog f)"
  shows "R w (OnCanonicalBatch f blocks w)"
  using fetch_runs_in [OF assms(1)] assms(2) by (auto simp: OnCanonicalBatch_def refl split: option.split)

text \<open>When the node answers every query with the logs it should, each wanted log of a batch is handed on,
  at some point of the work on the batch.\<close>

lemma hand_on_covers:
  assumes "act_in R (Some onLog)" "lg \<in> set lgs" "map_of byNumber (glBlockNumber lg) = Some b"
  shows "\<exists>v. R w v \<and> R (onLog (toPipelineLog chain b lg) v) (hand_on chain onLog byNumber lgs w)"
  using assms(2)
proof (induction lgs arbitrary: w)
  case (Cons l lgs)
  show ?case
  proof (cases "l = lg")
    case True
    then show ?thesis using assms(3) by (intro exI [of _ w]) (simp add: refl hand_on_in [OF assms(1)])
  next
    case False
    then have lg: "lg \<in> set lgs" using Cons.prems by simp
    show ?thesis
    proof (cases "map_of byNumber (glBlockNumber l)")
      case None
      then show ?thesis using Cons.IH [OF lg, of w] by simp
    next
      case (Some c)
      let ?w = "onLog (toPipelineLog chain c l) w"
      obtain v where "R ?w v" "R (onLog (toPipelineLog chain b lg) v) (hand_on chain onLog byNumber lgs ?w)"
        using Cons.IH [OF lg, of ?w] by blast
      moreover have "R w ?w" using assms(1) by (simp add: act_in_def)
      ultimately show ?thesis using Some by (intro exI [of _ v]) (simp, rule trans)
    qed
  qed
qed simp

lemma fetchRange_covers:
  assumes "op_in R (lfFilterLogs f from to (lfAddresses f))" "act_in R (Some onLog)"
    and "lfFilterLogs f from to (lfAddresses f) w = (Inr out, w')" "lg \<in> set out" "map_of byNumber (glBlockNumber lg) = Some b"
  shows "\<exists>v. R w v \<and> R (onLog (toPipelineLog (lfChain f) b lg) v) (fetchRange f onLog from to byNumber w)"
proof -
  let ?lgs = "sort_key (\<lambda>lg. (glBlockNumber lg, glIndex lg)) out"
  have "lg \<in> set ?lgs" using assms(4) by simp
  then obtain v where "R w' v" "R (onLog (toPipelineLog (lfChain f) b lg) v) (hand_on (lfChain f) onLog byNumber ?lgs w')"
    using hand_on_covers [OF assms(2) _ assms(5)] by blast
  moreover have "R w w'" by (rule op_inD [OF assms(1,3)])
  ultimately show ?thesis using assms(3) by (intro exI [of _ v]) (simp add: fetchRange_def, rule trans)
qed

lemma answers_mono: "answers R f lgs w \<Longrightarrow> R w v \<Longrightarrow> answers R f lgs v"
  unfolding answers_def using trans by blast

lemma fetch_runs_covers:
  assumes q: "\<And>from to. op_in R (lfFilterLogs f from to (lfAddresses f))" and a: "act_in R (Some onLog)"
    and nums: "sorted_wrt (<) nums" and lg: "lg \<in> set lgs" "map_of byNumber (glBlockNumber lg) = Some b"
  shows "wanted f (set (drop i nums)) lg \<Longrightarrow> answers R f lgs w \<Longrightarrow>
    \<exists>v. R w v \<and> R (onLog (toPipelineLog (lfChain f) b lg) v) (fetch_runs f onLog byNumber bs nums i w)"
proof (induction "length nums - i" arbitrary: i w rule: less_induct)
  case less
  have i: "i < length nums" by (rule ccontr) (use less.prems(1) in \<open>simp add: wanted_def\<close>)
  define e where "e = run_end nums bs i i"
  have e: "i \<le> e" "e < length nums" using i run_end_ge run_end_less by (auto simp: e_def)
  have seg: "set (take (e + 1 - i) (drop i nums)) = {n. nums ! i \<le> n \<and> n \<le> nums ! e}"
    using run_interval [OF i nums e_def] by blast
  have drop_i: "set (drop i nums) = {n. nums ! i \<le> n \<and> n \<le> nums ! e} \<union> set (drop (e + 1) nums)"
  proof -
    have "drop i nums = take (e + 1 - i) (drop i nums) @ drop (e + 1) nums"
      using append_take_drop_id [of "e + 1 - i" "drop i nums"] e by simp
    from arg_cong [OF this, of set] show ?thesis by (simp only: set_append seg)
  qed
  let ?w = "fetchRange f onLog (nums ! i) (nums ! e) byNumber w"
  have w: "R w ?w" by (rule fetchRange_in [OF q a])
  have step: "fetch_runs f onLog byNumber bs nums i w = fetch_runs f onLog byNumber bs nums (e + 1) ?w"
    using i by (subst fetch_runs.simps) (simp flip: e_def)
  show ?case
  proof (cases "wanted f {n. nums ! i \<le> n \<and> n \<le> nums ! e} lg")
    case True
    obtain out v' where o: "lfFilterLogs f (nums ! i) (nums ! e) (lfAddresses f) w = (Inr out, v')" "lg \<in> set out"
      using less.prems(2) True lg(1) refl unfolding answers_def by blast
    obtain v where "R w v" "R (onLog (toPipelineLog (lfChain f) b lg) v) ?w"
      using fetchRange_covers [OF q a o lg(2)] by blast
    then show ?thesis using trans [OF _ fetch_runs_in [OF q a]] unfolding step by blast
  next
    case False
    then have "wanted f (set (drop (e + 1) nums)) lg" using less.prems(1) drop_i by (auto simp: wanted_def)
    moreover have "length nums - (e + 1) < length nums - i" using e by linarith
    ultimately obtain v where "R ?w v"
      "R (onLog (toPipelineLog (lfChain f) b lg) v) (fetch_runs f onLog byNumber bs nums (e + 1) ?w)"
      using less.hyps [of "e + 1" ?w] answers_mono [OF less.prems(2) w] by blast
    then show ?thesis using trans [OF w] unfolding step by blast
  qed
qed

lemma batch_covers:
  assumes "\<And>from to. op_in R (lfFilterLogs f from to (lfAddresses f))" "act_in R (Some onLog)" "lfOnLog f = Some onLog"
    and "distinct (map bNumber blocks)" "b \<in> set blocks" "answers R f lgs w"
    and "lg \<in> set lgs" "glBlockNumber lg = bNumber b" "lfAddresses f = [] \<or> glAddress lg \<in> set (lfAddresses f)"
  shows "\<exists>v. R w v \<and> R (onLog (toPipelineLog (lfChain f) b lg) v) (OnCanonicalBatch f blocks w)"
proof -
  have "sorted_wrt (<) (sort (map bNumber blocks))" using assms(4) by (simp add: strict_sorted_iff)
  moreover have "map_of (index_blocks blocks) (glBlockNumber lg) = Some b"
    using assms(4,5,8) index_fold [OF assms(4)] map_of_is_SomeI [of "map (\<lambda>b. (bNumber b, b)) blocks" "bNumber b" b]
    by (auto simp: index_blocks_def comp_def)
  moreover have "wanted f (set (drop 0 (sort (map bNumber blocks)))) lg" using assms(5,8,9) by (auto simp: wanted_def)
  moreover have "blocks \<noteq> []" using assms(5) by auto
  ultimately show ?thesis
    using fetch_runs_covers [OF assms(1,2), of "sort (map bNumber blocks)" lg lgs "index_blocks blocks" b 0 w] assms(3,6,7)
    by (simp add: OnCanonicalBatch_def)
qed

section \<open>Registration\<close>

lemma register_inD:
  assumes "register_in R lib d spec"
  shows "op_in R (lbDo lib u)" "dcCache d = Some ca \<Longrightarrow> op_in R (acLoad ca c a)"
    "dcCache d = Some ca \<Longrightarrow> op_in R (acSave ca c a x)"
    "spStorage spec = Some r \<Longrightarrow> op_in R (rdStorageAt r a s)" "spStorage spec = Some r \<Longrightarrow> op_in R (rdCallContract r a y b)"
  using assms by (auto simp: register_in_def)

lemma fetchers_in:
  assumes "\<And>u. op_in R (lbDo lib u)"
  shows "op_in R (Sourcify_FetchJSON lib f c a)" "op_in R (Etherscan_FetchJSON lib g c a)"
proof -
  have "R w w'" if "lbDo lib u w = (x, w')" for u x w w' by (rule op_inD [OF assms that])
  then show "op_in R (Sourcify_FetchJSON lib f c a)" "op_in R (Etherscan_FetchJSON lib g c a)"
    by (auto simp: op_in_def Sourcify_FetchJSON_def Etherscan_FetchJSON_def Let_def refl split: option.split prod.split sum.split)
qed

lemma op_in_bind:
  assumes "op_in R f" "\<And>x. op_in R (g x)"
  shows "op_in R (\<lambda>w. case f w of (x, w') \<Rightarrow> g x w')"
  using assms trans unfolding op_in_def by (metis (mono_tags, lifting) case_prod_unfold)

lemma op_in_return: "op_in R (Pair x)"
  by (simp add: op_in_def refl)

lemma fetch_abi_in:
  assumes "\<And>u. op_in R (lbDo lib u)"
  shows "op_in R (fetch_abi lib d spec)"
proof -
  note s = op_inD [OF fetchers_in(1) [OF assms]] and e = op_inD [OF fetchers_in(2) [OF assms]]
  show ?thesis
    unfolding op_in_def fetch_abi_def
    by (auto split: prod.split sum.split option.split dest!: s e intro: trans)
qed

lemma read_slots_in:
  assumes "\<And>a s. op_in R (rdStorageAt reader a s)"
  shows "R w (snd (read_slots reader proxy slots w))"
proof (induction slots arbitrary: w)
  case (Cons slot slots)
  obtain out w' where q: "rdStorageAt reader proxy slot w = (out, w')" by (rule prod.exhaust)
  have w': "R w w'" by (rule op_inD [OF assms q])
  show ?case using q w' trans [OF w' Cons] by (auto split: sum.split)
qed (simp add: refl)

lemma readImplementationAddress_in:
  assumes "\<And>a s. op_in R (rdStorageAt reader a s)" "\<And>a x b. op_in R (rdCallContract reader a x b)"
  shows "op_in R (readImplementationAddress lib reader proxy)"
proof -
  have rs: "R w w'" if "read_slots reader proxy slots w = (x, w')" for slots w x w'
    using read_slots_in [of reader, OF assms(1), of w proxy slots] that by simp
  note sa = op_inD [OF assms(1)] and cc = op_inD [OF assms(2)]
  show ?thesis
    unfolding op_in_def readImplementationAddress_def
    by (auto split: prod.split sum.split option.split dest!: rs sa cc intro: trans)
qed

lemma cached_abi_in:
  assumes "register_in R lib d spec"
  shows "op_in R (cached_abi lib d spec)"
proof (cases "dcCache d")
  case (Some ca)
  note l = op_inD [OF register_inD(2) [OF assms Some]]
  show ?thesis unfolding op_in_def cached_abi_def Some
    by (auto split: prod.split sum.split option.split dest!: l)
qed (simp add: op_in_def cached_abi_def refl)

lemma store_abi_in:
  assumes "register_in R lib d spec"
  shows "R w (store_abi d spec data w)"
  using register_inD(3) [OF assms] by (auto simp: store_abi_def op_in_def refl split: option.split)

lemma resolve_proxy_in:
  assumes "register_in R lib d spec"
  shows "op_in R (resolve_proxy lib d spec data a)"
proof (cases "spStorage spec")
  case None
  then show ?thesis by (simp add: op_in_def resolve_proxy_def refl)
next
  case (Some r)
  note i = op_inD [OF readImplementationAddress_in [OF register_inD(4) [OF assms Some] register_inD(5) [OF assms Some]]]
    and s = op_inD [OF fetchers_in(1) [OF register_inD(1) [OF assms]]]
  show ?thesis unfolding op_in_def resolve_proxy_def Some
    by (auto simp: refl split: prod.split sum.split option.split dest!: i s intro: trans)
qed

lemma loadABI_in:
  assumes "register_in R lib d spec"
  shows "R w (snd (loadABI lib d spec w))"
proof -
  obtain c w1 where c: "cached_abi lib d spec w = (c, w1)" by (rule prod.exhaust)
  obtain f w2 where f: "fetch_abi lib d spec w1 = (f, w2)" by (rule prod.exhaust)
  note w1 = op_inD [OF cached_abi_in [OF assms] c]
  note w2 = trans [OF w1 op_inD [OF fetch_abi_in [OF register_inD(1) [OF assms]] f]]
  have w3: "R w (store_abi d spec x w3)" if "resolve_proxy lib d spec data a w2 = (y, w3)" for data a x y w3
    using trans [OF trans [OF w2 op_inD [OF resolve_proxy_in [OF assms] that]] store_abi_in [OF assms]] .
  show ?thesis
    by (auto simp: loadABI_def Let_def c f w1 w2 refl split: prod.split sum.split option.split dest!: w3)
qed

lemma Register_in: "register_in R lib d spec \<Longrightarrow> Register lib d spec w = (e, d', w') \<Longrightarrow> R w w'"
  using loadABI_in [of lib d spec w] by (auto simp: Register_def Let_def split: prod.splits sum.splits)

end

end
