(* ===== verification/Program_Inv.thy ===== *)
theory Program_Inv
  imports Program Effects Wiring_Props
begin

text \<open>
  The invariant of the running program. Every operation of a chain keeps the rules, the receivers
  and the endpoints, keeps the tables of the database well formed and loses no alert; so, by the
  lemmas on effects, do whole polls, batches and registrations. With the invariant of the
  trackers this gives an invariant of the program that every step keeps.
\<close>

section \<open>What the operations of a chain do to its world\<close>

text \<open>No stored block has the largest number, after which block numbers would wrap.\<close>

definition db_good :: "db \<Rightarrow> bool" where
  "db_good d \<longleftrightarrow> db_ok d \<and> (\<forall>c. vBlocks (db_view d) c max_u64 = None)"

definition pool_size :: "('p, 'n) world \<Rightarrow> nat" where
  "pool_size w = length (plEndpoints (cPool (csClient (fst w))))"

text \<open>The tables of a good database stay good and lose no alert, and no driver failure appears.\<close>

definition db_advances :: "db \<Rightarrow> db \<Rightarrow> bool" where
  "db_advances d d' \<longleftrightarrow> (faults d = [] \<longrightarrow> faults d' = []) \<and>
     (db_good d \<longrightarrow> db_good d' \<and> vAlerts (db_view d) \<subseteq>\<^sub>m vAlerts (db_view d'))"

text \<open>Rules, receivers and endpoints stay.\<close>

definition advances :: "('p, 'n) world \<Rightarrow> ('p, 'n) world \<Rightarrow> bool" where
  "advances w w' \<longleftrightarrow> same_routes w w' \<and> pool_size w' = pool_size w \<and> db_advances (snd w) (snd w')"

lemma db_advances_refl [simp]: "db_advances d d"
  by (simp add: db_advances_def)

lemma db_advances_trans: "db_advances d d' \<Longrightarrow> db_advances d' d'' \<Longrightarrow> db_advances d d''"
  unfolding db_advances_def using map_le_trans by blast

interpretation adv: world_order advances
proof
  show "advances w w" for w :: "('p, 'n) world" by (simp add: advances_def)
  show "advances u w" if "advances u v" "advances v w" for u v w :: "('p, 'n) world"
    using that unfolding advances_def by (auto intro: same_routes_trans db_advances_trans)
qed

text \<open>Without driver failures every operation of a back end succeeds and none appears.\<close>

lemmas backend_defs = SQLiteStore_def PostgresStore_def sqlite_LoadCursor_def sqlite_SaveCursor_def sqlite_RememberBlock_def
  sqlite_LoadRecentBlocks_def sqlite_LoadCanonicalBlocksRange_def sqlite_IsDuplicate_def sqlite_RecordAlert_def
  sqlite_LoadAlertsAtBlock_def sqlite_LoadCachedABI_def sqlite_SaveCachedABI_def sqlite_ClearABICache_def
  pg_LoadCursor_def pg_SaveCursor_def pg_RememberBlock_def pg_LoadRecentBlocks_def pg_LoadCanonicalBlocksRange_def
  pg_IsDuplicate_def pg_RecordAlert_def pg_LoadAlertsAtBlock_def pg_LoadCachedABI_def pg_SaveCachedABI_def pg_ClearABICache_def

lemma no_fault [simp]:
  "faults d = [] \<Longrightarrow> db_exec stmt d = (None, stmt d)" "faults d = [] \<Longrightarrow> db_query q d = (Inr (q d), d)"
  by (simp_all add: db_exec_def db_query_def next_fault_def)

lemma statement_faults [simp]:
  "faults (upsert_cursor now c d) = faults d" "faults (upsert_block b d) = faults d" "faults (insert_alert a d) = faults d"
  "faults (upsert_abi now cid addr abi d) = faults d"
  by (simp_all add: upsert_cursor_def upsert_block_def insert_alert_def upsert_abi_def Let_def)

lemma backend_no_fault:
  assumes "st = SQLiteStore \<or> st = PostgresStore" "faults d = []"
  shows "faults (snd (LoadCursor st chain d)) = []" "faults (snd (SaveCursor st now c d)) = []"
    "faults (snd (RememberBlock st b d)) = []" "faults (snd (LoadRecentBlocks st chain lo d)) = []"
    "faults (snd (LoadCanonicalBlocksRange st chain lo hi d)) = []" "faults (snd (IsDuplicate st fp d)) = []"
    "faults (snd (RecordAlert st a d)) = []" "faults (snd (LoadAlertsAtBlock st chain n h d)) = []"
    "faults (snd (LoadCachedABI st cid addr d)) = []" "faults (snd (SaveCachedABI st now cid addr abi d)) = []"
    "faults (snd (ClearABICache st d)) = []"
  using assms by (elim disjE; simp add: backend_defs flatten_query_def)+

lemma backend_laws: "st = SQLiteStore \<or> st = PostgresStore \<Longrightarrow> store_laws st db_view db_ok"
  using lite.store_laws_axioms pg.store_laws_axioms by auto

text \<open>A change of the view that keeps the alerts and puts no block at the largest number.\<close>

definition view_kept :: "db \<Rightarrow> db \<Rightarrow> bool" where
  "view_kept d d' \<longleftrightarrow> db_ok d' \<and> vAlerts (db_view d) \<subseteq>\<^sub>m vAlerts (db_view d') \<and>
     (\<forall>c. vBlocks (db_view d') c max_u64 = vBlocks (db_view d) c max_u64)"

lemma view_kept_same: "db_ok d' \<and> db_view d' = db_view d \<and> X \<Longrightarrow> view_kept d d'"
  by (simp add: view_kept_def)

lemma op_in_dbI:
  assumes "\<And>d. faults d = [] \<Longrightarrow> faults (snd (f d)) = []"
    and "\<And>d out d'. db_ok d \<Longrightarrow> f d = (out, d') \<Longrightarrow> view_kept d d'"
  shows "op_in db_advances f"
  unfolding op_in_def
proof
  fix d
  obtain out d' where "f d = (out, d')" by (rule prod.exhaust)
  then show "db_advances d (snd (f d))"
    using assms(1) [of d] assms(2) [of d out d'] by (simp add: db_advances_def db_good_def view_kept_def)
qed

lemma backend_advances:
  assumes "st = SQLiteStore \<or> st = PostgresStore"
  shows "op_in db_advances (LoadCursor st chain)" "op_in db_advances (SaveCursor st now c)"
    "bNumber b \<noteq> max_u64 \<Longrightarrow> op_in db_advances (RememberBlock st b)"
    "op_in db_advances (LoadRecentBlocks st chain lo)" "op_in db_advances (LoadCanonicalBlocksRange st chain lo hi)"
    "op_in db_advances (IsDuplicate st fp)" "op_in db_advances (RecordAlert st a)"
    "op_in db_advances (LoadAlertsAtBlock st chain n h)" "op_in db_advances (LoadCachedABI st cid addr)"
    "op_in db_advances (SaveCachedABI st now cid addr abi)" "op_in db_advances (ClearABICache st)"
proof -
  note laws = backend_laws [OF assms] and faultless = backend_no_fault [OF assms]
  show "op_in db_advances (LoadCursor st chain)"
    by (rule op_in_dbI [OF faultless(1)], assumption, drule (1) store_laws.load_cursor [OF laws], rule view_kept_same)
  show "op_in db_advances (SaveCursor st now c)"
    by (rule op_in_dbI [OF faultless(2)], assumption, drule (1) store_laws.save_cursor [OF laws])
      (auto simp: view_kept_def map_le_def split: if_splits)
  show "op_in db_advances (RememberBlock st b)" if "bNumber b \<noteq> max_u64"
    by (rule op_in_dbI [OF faultless(3)], assumption, drule (1) store_laws.remember_block [OF laws])
      (use that in \<open>auto simp: view_kept_def map_le_def split: if_splits\<close>)
  show "op_in db_advances (LoadRecentBlocks st chain lo)"
    by (rule op_in_dbI [OF faultless(4)], assumption, drule (1) store_laws.load_recent [OF laws], rule view_kept_same)
  show "op_in db_advances (LoadCanonicalBlocksRange st chain lo hi)"
    by (rule op_in_dbI [OF faultless(5)], assumption, drule (1) store_laws.load_range [OF laws], rule view_kept_same)
  show "op_in db_advances (IsDuplicate st fp)"
    by (rule op_in_dbI [OF faultless(6)], assumption, drule (1) store_laws.is_duplicate [OF laws], rule view_kept_same)
  show "op_in db_advances (RecordAlert st a)"
    by (rule op_in_dbI [OF faultless(7)], assumption, drule (1) store_laws.record_alert [OF laws])
      (auto simp: view_kept_def map_le_def split: if_splits)
  show "op_in db_advances (LoadAlertsAtBlock st chain n h)"
    by (rule op_in_dbI [OF faultless(8)], assumption, drule (1) store_laws.load_alerts [OF laws], rule view_kept_same)
  show "op_in db_advances (LoadCachedABI st cid addr)"
    by (rule op_in_dbI [OF faultless(9)], assumption, drule (1) store_laws.load_abi [OF laws], rule view_kept_same)
  show "op_in db_advances (SaveCachedABI st now cid addr abi)"
    by (rule op_in_dbI [OF faultless(10)], assumption, drule (1) store_laws.save_abi [OF laws])
      (auto simp: view_kept_def map_le_def split: if_splits)
  show "op_in db_advances (ClearABICache st)"
    by (rule op_in_dbI [OF faultless(11)], assumption, drule (1) store_laws.clear_abi [OF laws])
      (auto simp: view_kept_def map_le_def split: if_splits)
qed

text \<open>The operations of the store, the client and the network on the world of a chain.\<close>

lemma on_snd_in: "op_in db_advances f \<Longrightarrow> op_in advances (on_snd f)"
  by (auto simp: op_in_def advances_def same_routes_def pool_size_def on_snd_def split: prod.splits) (metis snd_conv)

lemmas store_in = on_snd_in [OF backend_advances(1)] on_snd_in [OF backend_advances(2)] on_snd_in [OF backend_advances(3)]
  on_snd_in [OF backend_advances(4)] on_snd_in [OF backend_advances(5)] on_snd_in [OF backend_advances(6)]
  on_snd_in [OF backend_advances(7)] on_snd_in [OF backend_advances(8)] on_snd_in [OF backend_advances(9)]
  on_snd_in [OF backend_advances(10)]

lemma client_op_in:
  fixes f :: "client \<Rightarrow> 'n \<Rightarrow> (rpc_err + 'x) \<times> client \<times> 'n"
  assumes "\<And>c n out c' n'. f c n = (out, c', n') \<Longrightarrow> length (plEndpoints (cPool c')) = length (plEndpoints (cPool c))"
  shows "op_in advances (client_op f)"
  unfolding op_in_def
proof
  fix w :: "('p, 'n) world"
  obtain out c' n' where f: "f (csClient (fst w)) (csNet (fst w)) = (out, c', n')" by (rule prod_cases3)
  then show "advances w (snd (client_op f w))"
    using assms [OF f] by (simp add: client_op_def advances_def same_routes_def pool_size_def)
qed

lemma net_op_in: "op_in advances (net_op f)"
  by (auto simp: op_in_def net_op_def advances_def same_routes_def pool_size_def split: prod.splits)

lemma rpc_in:
  "op_in advances (client_op (\<lambda>c. HeadByTag clock x c tag))" "op_in advances (client_op (\<lambda>c. BlockByNumber clock y c n))"
  "op_in advances (client_op (\<lambda>c. FilterLogs clock z c q))" "op_in advances (client_op (\<lambda>c. StorageAt clock u c a b))"
  "op_in advances (client_op (\<lambda>c. CallContract clock v c p k))"
  by (rule client_op_in; auto simp: HeadByTag_def BlockByNumber_def FilterLogs_def StorageAt_def CallContract_def
      intro: tryFailover_frame(2))+

lemma send_env_in: "op_in advances (send_env pf rid env)"
  unfolding op_in_def
proof
  fix w
  obtain e w' where s: "send_env pf rid env w = (e, w')" by (rule prod.exhaust)
  then have "csClient (fst w') = csClient (fst w)" by (auto simp: send_env_def split: prod.splits)
  then show "advances w (snd (send_env pf rid env w))"
    using send_env_frame [OF s] s by (simp add: advances_def pool_size_def)
qed

lemma world_obs_in: "advances w (world_obs pf m w)"
  by (simp add: advances_def same_routes_def pool_size_def world_obs_def)

lemma sent_in: "advances w (sent pf kind msg w)"
proof -
  obtain e w' where s: "send_env pf (fst msg) (snd msg) w = (e, w')" by (rule prod.exhaust)
  have w': "advances w w'" by (rule op_inD [OF send_env_in s])
  have "advances w (world_obs pf (Inc AlertsSent [fst msg, kind]) w')" by (rule adv.trans [OF w' world_obs_in])
  with w' s show ?thesis by (simp add: sent_def split: option.split)
qed

lemma notify_all_in: "advances w (notify_all pf a rids w)"
  unfolding notify_all_sent by (rule adv.fold_in [OF sent_in])

lemma revert_alerts_in: "advances w (revert_alerts pf sas w)"
  unfolding revert_alerts_fold by (rule adv.fold_in [OF sent_in])

lemma onReverted_in:
  assumes "st = SQLiteStore \<or> st = PostgresStore"
  shows "advances w (onReverted pf st chain b w)"
proof -
  obtain out w' where l: "LoadAlertsAtBlock (lift_store st) chain (bNumber b) (bHash b) w = (out, w')" by (rule prod.exhaust)
  have "advances w w'" using op_inD [OF store_in(8) [OF assms]] l by (simp add: lift_store_def)
  then have "advances w (revert_alerts pf sas w')" for sas by (rule adv.trans [OF _ revert_alerts_in])
  with \<open>advances w w'\<close> l show ?thesis by (auto simp: onReverted_def split: sum.splits)
qed

lemma Handle_in:
  assumes "st = SQLiteStore \<or> st = PostgresStore"
  shows "op_in advances (Handle (alert_manager pf st) m)"
proof -
  note d = op_inD [OF store_in(6) [OF assms]] and r = op_inD [OF store_in(7) [OF assms]]
  show ?thesis unfolding op_in_def Handle_def alert_manager_def manager.simps lift_store_def store.simps Let_def
    by (auto split: prod.splits sum.splits bool.splits option.splits dest!: d r intro: adv.trans world_obs_in)
qed

lemma handle_matches_in:
  assumes "st = SQLiteStore \<or> st = PostgresStore"
  shows "advances w (handle_matches pf st ms w)"
proof (induction ms arbitrary: w)
  case (Cons m ms)
  obtain out w' where h: "Handle (alert_manager pf st) m w = (out, w')" by (rule prod.exhaust)
  have w': "advances w w'" by (rule op_inD [OF Handle_in [OF assms] h])
  have n: "advances w (notify_all pf a rids w')" for a rids
    by (rule adv.trans [OF w' notify_all_in])
  show ?case
    using h adv.trans [OF w' Cons] adv.trans [OF n Cons] by (cases out) (auto split: option.splits)
qed (simp add: adv.refl)

lemma read_all_in: "op_in advances (read_all (client_calls pf) r k ds acc)"
  unfolding op_in_def
proof
  fix w
  show "advances w (snd (read_all (client_calls pf) r k ds acc w))"
  proof (induction ds arbitrary: acc w)
    case (Cons d ds)
    obtain out w1 where c: "read_call (client_calls pf) r d k w = (out, w1)" by (rule prod.exhaust)
    then have w1: "advances w w1"
      by (auto simp: read_call_def client_calls_def Let_def split: prod.splits sum.splits dest!: op_inD [OF rpc_in(5)])
    have "advances w (snd (read_all (client_calls pf) r k ds acc1 w1))" for acc1 by (rule adv.trans [OF w1 Cons])
    then show ?case using c by (cases out) auto
  qed (simp add: adv.refl)
qed

lemma enrich_event_in: "op_in advances (enrich_event pf ev)"
  unfolding op_in_def
proof
  fix w
  obtain ev' w' where e: "enrich_event pf ev w = (ev', w')" by (rule prod.exhaust)
  have "advances w w1" if "Enrich (client_calls pf) r ev w = (r1, ev1, w1)" for r r1 ev1 w1
    using that by (auto simp: Enrich_def Let_def adv.refl split: if_splits prod.splits dest!: op_inD [OF read_all_in])
  then have "advances w (snd (enrich_event pf ev w))"
    by (fastforce simp: enrich_event_def advances_def same_routes_def pool_size_def split: option.splits prod.splits)
  then show "advances w (snd (enrich_event pf ev w))" .
qed

lemma onLog_in:
  assumes "st = SQLiteStore \<or> st = PostgresStore"
  shows "advances w (onLog pf st dec l w)"
proof (cases "Decode (world_libs (pfLibs pf)) dec l")
  case (Inl e)
  then show ?thesis by (simp add: onLog_def adv.refl)
next
  case (Inr ev)
  obtain ev' w' where e: "enrich_event pf ev w = (ev', w')" by (rule prod.exhaust)
  show ?thesis
    using adv.trans [OF op_inD [OF enrich_event_in e] handle_matches_in [OF assms]] by (simp add: onLog_def Inr e)
qed

lemma chain_fetcher_in:
  assumes "st = SQLiteStore \<or> st = PostgresStore"
  shows "advances w (OnCanonicalBatch (chain_fetcher pf st dec chain addrs) bs w)"
  by (rule adv.OnCanonicalBatch_in) (simp_all add: chain_fetcher_def rpc_in act_in_def onLog_in [OF assms])

lemma chain_tracker_in:
  assumes "st = SQLiteStore \<or> st = PostgresStore"
  shows "tracker_in advances (chain_tracker pf st dec cfg ch)"
  by (simp add: tracker_in_def chain_tracker_def Let_def rpc_in lift_store_def act_in_def adv.refl store_in [OF assms]
      onReverted_in [OF assms] chain_fetcher_in [OF assms] world_obs_in)

text \<open>Registration with the decoder, and the start of a chain.\<close>

lemma register_all_in:
  assumes "\<And>spec d'. spec \<in> set specs \<Longrightarrow> dcCache d' = dcCache d \<Longrightarrow> register_in advances lib d' spec"
    and "register_all lib specs d w = (d', w')"
  shows "advances w w'"
  using assms
proof (induction specs arbitrary: d w)
  case (Cons spec specs)
  obtain e d1 w1 where r: "Register lib d spec w = (e, d1, w1)" by (rule prod_cases3)
  then have "dcCache d1 = dcCache d" by (auto simp: Register_def Let_def split: sum.splits prod.splits)
  then have "advances w1 w'" using Cons.IH [of d1 w1] Cons.prems r by simp
  moreover have "advances w w1" using adv.Register_in [OF _ r] Cons.prems(1) by simp
  ultimately show ?case using adv.trans by blast
qed (simp add: adv.refl)

lemma register_specs_in:
  assumes "st = SQLiteStore \<or> st = PostgresStore" "dcCache d = dcCache (base_decoder pf st key)"
  shows "register_in advances (world_libs (pfLibs pf)) d (spec\<lparr>spStorage := Some (client_storage pf)\<rparr>)"
proof -
  have "op_in advances (\<lambda>w. on_snd (SaveCachedABI st (world_clock pf w) c a x) w)" for c a x
    using store_in(10) [OF assms(1)] unfolding op_in_def by blast
  then show ?thesis
    using assms(2) by (simp add: register_in_def world_libs_def net_op_in client_storage_def rpc_in base_decoder_def
        NewDecoder_def NewStoreABICache_def lift_store_def store_in(9) [OF assms(1)])
qed

section \<open>Trackers of chains\<close>

text \<open>What the nodes document: headers of the requested number, and heads below the largest one.\<close>

definition good_platform :: "('a, 'p, 'n) platform \<Rightarrow> bool" where
  "good_platform pf \<longleftrightarrow>
     (\<forall>n url v h v'. pfHeaderByNumber pf n url v = (Inr h, v') \<longrightarrow> hNumber h = uint n) \<and>
     (\<forall>tag url v h v'. pfHeadByTag pf tag url v = (Inr (Some h), v') \<longrightarrow> 0 \<le> hNumber h \<and> hNumber h < 2 ^ 64 - 1)"

text \<open>A confirmation depth inside the window of the reconciler, and a block time that is not negative
  and fits into a duration.\<close>

definition bounded_chain :: "chain_cfg \<Rightarrow> bool" where
  "bounded_chain ch \<longleftrightarrow> 0 \<le> cfFast (chConfirmations ch) \<and> cfFast (chConfirmations ch) \<le> 256 \<and>
     0 \<le> chBlockTimeMs ch \<and> chBlockTimeMs ch \<le> 9223372036854"

lemma client_op_value: "client_op f w = (Inr x, w') \<Longrightarrow> \<exists>c n. f (csClient (fst w)) (csNet (fst w)) = (Inr x, c, n)"
  by (auto simp: client_op_def map_sum_def split: prod.splits sum.splits)

lemma below_max: "0 \<le> i \<Longrightarrow> i < 2 ^ 64 - 1 \<Longrightarrow> (word_of_int i :: u64) \<noteq> max_u64"
proof
  assume i: "0 \<le> i" "i < 2 ^ 64 - 1" and eq: "(word_of_int i :: u64) = max_u64"
  from i have "uint (word_of_int i :: u64) = i" by (simp add: uint_word_of_int take_bit_int_eq_self)
  with eq i show False by (simp add: unsigned_minus_1_eq_mask mask_eq_exp_minus_1)
qed

lemma chain_good_node:
  assumes "good_platform pf"
  shows "good_node (chain_tracker pf st dec cfg ch)"
proof -
  let ?t = "chain_tracker pf st dec cfg ch"
  have "bNumber b = n" if "tBlockByNumber ?t n w = (Inr b, w')" for n w b w'
  proof -
    from that have "client_op (\<lambda>c. BlockByNumber (node_host pf) (pfHeaderByNumber pf) c n) w = (Inr b, w')"
      by (simp add: chain_tracker_def Let_def)
    from client_op_value [OF this] obtain c k where
      "BlockByNumber (node_host pf) (pfHeaderByNumber pf) (csClient (fst w)) n (csNet (fst w)) = (Inr b, c, k)" by blast
    then show ?thesis by (rule BlockByNumber_number [OF conjunct1 [OF assms [unfolded good_platform_def]]])
  qed
  moreover have "bNumber b \<noteq> max_u64" if hd: "tHeadByTag ?t tag w = (Inr b, w')" for tag w b w'
  proof -
    from hd have op: "client_op (\<lambda>c. HeadByTag (node_host pf) (pfHeadByTag pf) c tag) w = (Inr b, w')"
      by (simp add: chain_tracker_def Let_def)
    obtain c url v h v' where h: "pfHeadByTag pf tag url v = (Inr (Some h), v')" and b: "b = toRef c h"
      using client_op_value [OF op] HeadByTag_header by metis
    have "0 \<le> hNumber h" "hNumber h < 2 ^ 64 - 1" using h assms unfolding good_platform_def by blast+
    from below_max [OF this] show ?thesis by (simp add: b toRef_def)
  qed
  ultimately show ?thesis unfolding good_node_def numbered_def by blast
qed

lemma chain_fresh:
  assumes "bounded_chain ch"
  shows "fresh_tracker (chain_tracker pf st dec cfg ch)" "0 < tInterval (chain_tracker pf st dec cfg ch)"
proof -
  have "(word_of_int (cfFast (chConfirmations ch)) :: u64) \<le> 256"
    using assms by (simp add: bounded_chain_def word_le_def uint_word_of_int take_bit_int_eq_self)
  then show "fresh_tracker (chain_tracker pf st dec cfg ch)"
    by (auto simp: fresh_tracker_def chain_tracker_def Let_def NewReconciler_def)
  have "wrap64 i = i" if "0 \<le> i" "i < 2 ^ 63" for i
    using that by (simp add: wrap64_def sint_sbintrunc' signed_take_bit_int_eq_self)
  from this [of "chBlockTimeMs ch * 1000000"] have "wrap64 (chBlockTimeMs ch * 1000000) = chBlockTimeMs ch * 1000000"
    using assms by (simp add: bounded_chain_def)
  then show "0 < tInterval (chain_tracker pf st dec cfg ch)"
    using assms by (simp add: chain_tracker_def Let_def chain_interval_def bounded_chain_def second_def)
qed

text \<open>A turn of a loop changes the state of the tracker and not its operations.\<close>

lemma turn_step: "turn l t w = Some (t', w') \<Longrightarrow> track_step (t, w) (t', w')"
  by (cases l) (auto split: if_splits option.splits prod.splits intro: track_step.intros)

lemma turn_frame:
  assumes "tracker_inv t" "good_node t" "turn l t w = Some (t', w')"
  shows "\<exists>r p st ss ft fs. t' = t\<lparr>tReconciler := r, pending := p, safeTip := st, safeSeeded := ss,
    finalizedTip := ft, finalizedSeeded := fs\<rparr>"
proof (cases l)
  case HeadLoop
  then obtain e where "pollOnce t w = Some (e, t', w')" using assms(3) by auto
  from assms(1,2) this have "\<exists>r p. t' = t\<lparr>tReconciler := r, pending := p\<rparr>"
  proof (rule pollOnce_elim)
    assume "t' = t"
    then have "t' = t\<lparr>tReconciler := tReconciler t, pending := pending t\<rparr>" by simp
    then show ?thesis by blast
  qed (auto simp: settles_def)
  then obtain r p where "t' = t\<lparr>tReconciler := r, pending := p\<rparr>" by blast
  then have "t' = t\<lparr>tReconciler := r, pending := p, safeTip := safeTip t, safeSeeded := safeSeeded t,
      finalizedTip := finalizedTip t, finalizedSeeded := finalizedSeeded t\<rparr>" by simp
  then show ?thesis by blast
next
  case SafeLoop
  then obtain n sd where "t' = t\<lparr>safeTip := n, safeSeeded := sd\<rparr>"
    using assms(3) by (auto split: if_splits option.splits prod.splits)
  then have "t' = t\<lparr>tReconciler := tReconciler t, pending := pending t, safeTip := n, safeSeeded := sd,
      finalizedTip := finalizedTip t, finalizedSeeded := finalizedSeeded t\<rparr>" by simp
  then show ?thesis by blast
next
  case FinalizedLoop
  then obtain n sd where "t' = t\<lparr>finalizedTip := n, finalizedSeeded := sd\<rparr>"
    using assms(3) by (auto split: if_splits option.splits prod.splits)
  then have "t' = t\<lparr>tReconciler := tReconciler t, pending := pending t, safeTip := safeTip t, safeSeeded := safeSeeded t,
      finalizedTip := n, finalizedSeeded := sd\<rparr>" by simp
  then show ?thesis by blast
qed

lemma turn_in:
  assumes "tracker_inv t" "good_node t" "tracker_in advances t" "turn l t w = Some (t', w')"
  shows "advances w w'"
proof (cases l)
  case HeadLoop
  then obtain e where "pollOnce t w = Some (e, t', w')" using assms(4) by auto
  from adv.pollOnce_in [OF assms(1-3) this] show ?thesis .
next
  case SafeLoop
  then obtain cb m where cb: "tOnCanonicalSafe t = Some cb"
    "pollConfirmationOnce t (tSafeTag t) cb (safeTip t, safeSeeded t) w = (m, w')"
    using assms(4) by (auto split: if_splits option.splits prod.splits)
  with adv.pollConfirmationOnce_in [OF assms(3) _ cb(2)] tracker_inD(11) [OF assms(3)] show ?thesis by simp
next
  case FinalizedLoop
  then obtain cb m where cb: "tOnCanonicalFinalized t = Some cb"
    "pollConfirmationOnce t (tFinalizedTag t) cb (finalizedTip t, finalizedSeeded t) w = (m, w')"
    using assms(4) by (auto split: if_splits option.splits prod.splits)
  with adv.pollConfirmationOnce_in [OF assms(3) _ cb(2)] tracker_inD(12) [OF assms(3)] show ?thesis by simp
qed

section \<open>The invariant of the program\<close>

text \<open>A chain that has started: before the start of \<open>Run\<close> its tracker is fresh, afterwards the
  invariant of the tracker holds.\<close>

definition chain_inv :: "db store \<Rightarrow> ('p, 'n) running \<Rightarrow> bool" where
  "chain_inv st r \<longleftrightarrow> good_node (rnTracker r) \<and> tracker_in advances (rnTracker r) \<and> 0 < tInterval (rnTracker r) \<and>
     tStore (rnTracker r) = lift_store st \<and>
     (if rnSeeded r then tracker_inv (rnTracker r) else fresh_tracker (rnTracker r))"

definition program_inv :: "('p, 'n) program \<Rightarrow> bool" where
  "program_inv p \<longleftrightarrow> pgStatus p \<noteq> Panicked \<and> (pgStore p = SQLiteStore \<or> pgStore p = PostgresStore) \<and> db_good (pgDB p) \<and>
     (\<forall>ch \<in> set (pgTodo p). bounded_chain ch) \<and> (\<forall>(cid, r) \<in> set (pgChains p). chain_inv (pgStore p) r)"

definition bounded_load :: "load_err + config \<Rightarrow> bool" where
  "bounded_load ld \<longleftrightarrow> (\<forall>cfg. ld = Inr cfg \<longrightarrow> (\<forall>ch \<in> set (cfgChains cfg). bounded_chain ch))"

lemma db_advancesD: "db_advances d d' \<Longrightarrow> db_good d \<Longrightarrow> db_good d' \<and> vAlerts (db_view d) \<subseteq>\<^sub>m vAlerts (db_view d')"
  by (simp add: db_advances_def)

text \<open>The start of the program.\<close>

lemma run_create_advances: "op_in db_advances (run_create k)"
proof -
  have "db_advances d (snd (run_create k d))" for d
  proof (induction k arbitrary: d)
    case (Suc k)
    have e: "op_in db_advances (db_exec (\<lambda>d. d))"
      by (rule op_in_dbI) (auto simp: view_kept_def elim: db_exec_cases)
    obtain out d' where x: "db_exec (\<lambda>d. d) d = (out, d')" by (rule prod.exhaust)
    note op_inD [OF e x]
    then show ?case using x db_advances_trans [OF _ Suc, of d d'] by (cases out) auto
  qed simp
  then show ?thesis by (simp add: op_in_def)
qed

lemma openStore_advances:
  assumes "openStore dbPath d = (out, d')"
  shows "db_advances d d'" "out = Inr st \<Longrightarrow> st = SQLiteStore \<or> st = PostgresStore"
proof -
  have e: "op_in db_advances (db_exec (\<lambda>d. d))"
    by (rule op_in_dbI) (auto simp: view_kept_def elim: db_exec_cases)
  note x = op_inD [OF e] and c = op_inD [OF run_create_advances]
  show "db_advances d d'"
    using assms unfolding openStore_def OpenSQLite_def OpenPostgres_def sqlite_migrate_def pg_migrate_def
    by (auto split: if_splits prod.splits option.splits dest!: x c intro: db_advances_trans)
  show "st = SQLiteStore \<or> st = PostgresStore" if "out = Inr st"
    using assms that by (auto simp: openStore_def split: if_splits prod.splits option.splits)
qed

lemma boot_cases:
  assumes "boot ld dbPath refreshABI apiKey n d = (out, d')"
  shows "db_advances d d'"
    "out = Inr p \<Longrightarrow> \<exists>cfg. ld = Inr cfg \<and> BuildRouter (cfgReceivers cfg) = Inr (pgRouter p) \<and> pgStatus p = Up \<and>
       pgConfig p = cfg \<and> pgTodo p = cfgChains cfg \<and> pgChains p = [] \<and> pgDB p = d' \<and>
       (pgStore p = SQLiteStore \<or> pgStore p = PostgresStore)"
proof -
  obtain o1 d1 where o: "openStore dbPath d = (o1, d1)" by (rule prod.exhaust)
  note d1 = openStore_advances [OF o]
  note c = op_inD [OF backend_advances(11)]
  show "db_advances d d'"
    using assms d1 by (auto simp: boot_def o split: sum.splits prod.splits if_splits
        intro: db_advances_trans [OF d1(1)] c)
  show "\<exists>cfg. ld = Inr cfg \<and> BuildRouter (cfgReceivers cfg) = Inr (pgRouter p) \<and> pgStatus p = Up \<and>
       pgConfig p = cfg \<and> pgTodo p = cfgChains cfg \<and> pgChains p = [] \<and> pgDB p = d' \<and>
       (pgStore p = SQLiteStore \<or> pgStore p = PostgresStore)" if "out = Inr p"
    using assms d1(2) that by (auto simp: boot_def o split: sum.splits prod.splits if_splits)
qed

lemma boot_inv:
  assumes "boot ld dbPath refreshABI apiKey n d = (Inr p, d')" "bounded_load ld" "db_good d"
  shows "program_inv p"
  using boot_cases [OF assms(1)] assms(2,3) db_advancesD by (fastforce simp: program_inv_def bounded_load_def)

text \<open>The start of a chain.\<close>

lemma start_chain_inv:
  assumes "st = SQLiteStore \<or> st = PostgresStore" "good_platform pf" "bounded_chain ch"
    and "start_chain pf st key cfg ch router n d = (out, n', d')"
  shows "db_advances d d'" "out = Started t w \<Longrightarrow> chain_inv st \<lparr>rnTracker = t, rnSeeded = False, rnClient = c, rnReaders = x, rnRules = y\<rparr>"
proof -
  let ?specs = "map (\<lambda>spec. spec\<lparr>spStorage := Some (client_storage pf)\<rparr>) (monitorSpecs (lbHexToAddress (pfLibs pf)) (cfgMonitors cfg) ch)"
  have reg: "db_advances (snd w0) (snd w1)" if "register_all (world_libs (pfLibs pf)) ?specs (base_decoder pf st key) w0 = (dec, w1)" for w0 dec w1
    using register_all_in [OF _ that] register_specs_in [OF assms(1)] by (auto simp: advances_def)
  show "db_advances d d'"
    using assms(4) reg by (fastforce simp: start_chain_def Let_def split: if_splits prod.splits sum.splits)
  assume "out = Started t w"
  then obtain dec where t: "t = chain_tracker pf st dec cfg ch"
    using assms(4) by (auto simp: start_chain_def Let_def split: if_splits prod.splits sum.splits)
  have "tStore t = lift_store st" by (simp add: t chain_tracker_def Let_def)
  then show "chain_inv st \<lparr>rnTracker = t, rnSeeded = False, rnClient = c, rnReaders = x, rnRules = y\<rparr>"
    by (simp add: chain_inv_def t chain_good_node [OF assms(2)] chain_tracker_in [OF assms(1)] chain_fresh [OF assms(3)])
qed

lemma start_next_inv:
  assumes "program_inv p" "good_platform pf"
  shows "program_inv (start_next pf p)" "db_advances (pgDB p) (pgDB (start_next pf p))"
proof -
  have "program_inv (start_next pf p) \<and> db_advances (pgDB p) (pgDB (start_next pf p))"
  proof (cases "pgTodo p")
    case Nil
    with assms show ?thesis by (simp add: start_next_def)
  next
    case (Cons ch chs)
    obtain out n d where
      s: "(start_chain pf (pgStore p) (pgKey p) (pgConfig p) ch (pgRouter p) (pgNet p) (pgDB p) :: ('c, 'a, 'b) chain_outcome \<times> 'b \<times> db) = (out, n, d)"
      by (rule prod_cases3)
    have st: "pgStore p = SQLiteStore \<or> pgStore p = PostgresStore" "bounded_chain ch"
      using assms(1) Cons by (auto simp: program_inv_def)
    note i = start_chain_inv [OF st(1) assms(2) st(2) s]
    have "db_good d" using db_advancesD [OF i(1)] assms(1) by (simp add: program_inv_def)
    then show ?thesis
      using assms(1) Cons i by (cases out) (auto simp: start_next_def s program_inv_def)
  qed
  then show "program_inv (start_next pf p)" "db_advances (pgDB p) (pgDB (start_next pf p))" by auto
qed

text \<open>A chain that acts.\<close>

lemma snd_chain_world [simp]: "snd (chain_world p r) = pgDB p"
  by (simp add: chain_world_def)

lemma put_chain_inv:
  assumes "program_inv p" "i < length (pgChains p)" "pgChains p ! i = (cid, r)" "advances (chain_world p r) w"
    and "\<And>c x y. chain_inv (pgStore p) \<lparr>rnTracker = t, rnSeeded = True, rnClient = c, rnReaders = x, rnRules = y\<rparr>"
  shows "program_inv (put_chain i t w p)" "db_advances (pgDB p) (pgDB (put_chain i t w p))"
proof -
  have "db_advances (pgDB p) (snd w)" using assms(4) by (simp add: advances_def)
  then show "db_advances (pgDB p) (pgDB (put_chain i t w p))" by (simp add: put_chain_def)
  have "db_good (snd w)" using db_advancesD [OF \<open>db_advances (pgDB p) (snd w)\<close>] assms(1) by (simp add: program_inv_def)
  then show "program_inv (put_chain i t w p)"
    using assms(1,5) set_update_subset_insert [of "pgChains p" i] by (fastforce simp: program_inv_def put_chain_def)
qed

lemma chain_invD:
  assumes "program_inv p" "i < length (pgChains p)" "pgChains p ! i = (cid, r)"
  shows "chain_inv (pgStore p) r"
  using assms nth_mem [OF assms(2)] by (auto simp: program_inv_def)

lemma turn_inv:
  assumes "program_inv p" "i < length (pgChains p)" "pgChains p ! i = (cid, r)" "rnSeeded r"
    and "turn l (rnTracker r) (chain_world p r) = Some (t, w)"
  shows "program_inv (put_chain i t w p)" "db_advances (pgDB p) (pgDB (put_chain i t w p))"
proof -
  have ci: "chain_inv (pgStore p) r" by (rule chain_invD [OF assms(1-3)])
  then have inv: "tracker_inv (rnTracker r)" "good_node (rnTracker r)" "tracker_in advances (rnTracker r)"
    using assms(4) by (simp_all add: chain_inv_def)
  obtain a b c x y z where t: "t = (rnTracker r)\<lparr>tReconciler := a, pending := b, safeTip := c, safeSeeded := x,
      finalizedTip := y, finalizedSeeded := z\<rparr>"
    using turn_frame [OF inv(1,2) assms(5)] by blast
  have "tracker_inv t" "good_node t" using track_step_inv [OF turn_step [OF assms(5)] inv(1,2)] by simp_all
  moreover have "tracker_in advances t" using inv(3) by (simp add: t tracker_in_def)
  moreover have "0 < tInterval t" "tStore t = lift_store (pgStore p)" using ci by (simp_all add: t chain_inv_def)
  ultimately have "chain_inv (pgStore p) \<lparr>rnTracker = t, rnSeeded = True, rnClient = c', rnReaders = x', rnRules = y'\<rparr>" for c' x' y'
    by (simp add: chain_inv_def)
  note put_chain_inv [OF assms(1-3) turn_in [OF inv assms(5)] this]
  then show "program_inv (put_chain i t w p)" "db_advances (pgDB p) (pgDB (put_chain i t w p))" .
qed

lemma recent_blocks_exist:
  assumes "st = SQLiteStore \<or> st = PostgresStore" "db_good (snd w)"
    and "LoadCursor (lift_store st) chain w = (out, v)" "LoadRecentBlocks (lift_store st) chain lo v = (Inr bs, v')"
  shows "\<forall>b \<in> set bs. bNumber b \<noteq> max_u64"
proof -
  note laws = lifted_backends [OF assms(1)]
  have v: "db_ok (snd v)" "db_view (snd v) = db_view (snd w)"
    using store_laws.load_cursor [OF laws _ assms(3)] assms(2) by (simp_all add: db_good_def)
  have "set bs = {b. \<exists>n. int64 lo \<le> int64 n \<and> vBlocks (db_view (snd v)) chain n = Some b}"
    using store_laws.load_recent [OF laws v(1) assms(4)] by simp
  moreover have "bNumber b = n" if "vBlocks (db_view (snd v)) chain n = Some b" for n b
    using store_laws.block_number [OF laws v(1) that] by simp
  ultimately show ?thesis using assms(2) v(2) by (fastforce simp: db_good_def)
qed

lemma run_chain_inv:
  assumes "program_inv p" "i < length (pgChains p)" "\<not> rnSeeded (snd (pgChains p ! i))"
  shows "program_inv (run_chain i p)" "db_advances (pgDB p) (pgDB (run_chain i p))"
proof -
  obtain cid r where r: "pgChains p ! i = (cid, r)" by (rule prod.exhaust)
  obtain t w where s: "run_start (rnTracker r) (chain_world p r) = (t, w)" by (rule prod.exhaust)
  have ci: "chain_inv (pgStore p) r" by (rule chain_invD [OF assms(1,2) r])
  then have inv: "fresh_tracker (rnTracker r)" "good_node (rnTracker r)" "tracker_in advances (rnTracker r)"
    "0 < tInterval (rnTracker r)" and st: "tStore (rnTracker r) = lift_store (pgStore p)"
    using assms(3) r by (simp_all add: chain_inv_def)
  have p: "pgStore p = SQLiteStore \<or> pgStore p = PostgresStore" "db_good (snd (chain_world p r))"
    using assms(1) by (simp_all add: program_inv_def)
  have t: "tracker_inv t \<and> good_node t"
    by (rule run_start_inv_at [OF inv(1,2) s]) (unfold st, rule recent_blocks_exist [OF p])
  have "\<exists>a. t = (run_defaults (rnTracker r))\<lparr>tReconciler := a\<rparr>"
    using run_start_cases [OF s] by (metis headtracker.surjective headtracker.update_convs(7))
  then obtain a where a: "t = (run_defaults (rnTracker r))\<lparr>tReconciler := a\<rparr>" by blast
  have k: "tracker_in advances t" "0 < tInterval t" using inv(3,4) by (simp_all add: a run_defaults_def tracker_in_def)
  have "tStore t = lift_store (pgStore p)" using st by (simp add: a run_defaults_def)
  with t k have "chain_inv (pgStore p) \<lparr>rnTracker = t, rnSeeded = True, rnClient = c, rnReaders = x, rnRules = y\<rparr>" for c x y
    by (simp add: chain_inv_def)
  note put = put_chain_inv [OF assms(1,2) r adv.run_start_in [OF inv(3) s] this]
  have "run_chain i p = put_chain i t w p" using k(2) by (simp add: run_chain_def r s put_chain_def)
  with put show "program_inv (run_chain i p)" "db_advances (pgDB p) (pgDB (run_chain i p))" by simp_all
qed

text \<open>A reload replaces rules and nothing else.\<close>

lemma reload_chains_fst: "map fst (fst (reload_chains compile cfg es)) = map fst es"
  by (induction es) (auto split: prod.splits sum.splits)

lemma reloadRules_length: "length (reloadRules compile ld es) = length es"
proof -
  have "length (fst (reload_chains compile cfg es)) = length es" for cfg
    using arg_cong [OF reload_chains_fst, of length] by simp
  then show ?thesis by (simp add: reloadRules_def split: sum.split)
qed

lemma hup_nth:
  assumes "i < length (pgChains p)"
  shows "pgChains (hup pf ld p) ! i = (fst (pgChains p ! i),
    (snd (pgChains p ! i))\<lparr>rnRules := snd (reloadRules (pfCompile pf) ld (evaluators p) ! i)\<rparr>)"
  using assms by (simp add: hup_def reloadRules_length evaluators_def split_beta)

lemma hup_length [simp]: "length (pgChains (hup pf ld p)) = length (pgChains p)"
  by (simp add: hup_def reloadRules_length evaluators_def)

lemma hup_frame [simp]:
  "pgStatus (hup pf ld p) = pgStatus p" "pgStore (hup pf ld p) = pgStore p" "pgTodo (hup pf ld p) = pgTodo p"
  "pgRouter (hup pf ld p) = pgRouter p" "pgNet (hup pf ld p) = pgNet p" "pgDB (hup pf ld p) = pgDB p"
  by (simp_all add: hup_def)

lemma hup_inv: "program_inv p \<Longrightarrow> program_inv (hup pf ld p)"
proof -
  assume inv: "program_inv p"
  have "chain_inv (pgStore p) r" if m: "(cid, r) \<in> set (pgChains (hup pf ld p))" for cid r
  proof -
    obtain i where "i < length (pgChains p)" "pgChains (hup pf ld p) ! i = (cid, r)"
      using m by (auto simp: in_set_conv_nth)
    with chain_invD [OF inv _ prod.collapse [symmetric], of i] show ?thesis by (auto simp: hup_nth chain_inv_def)
  qed
  with inv show ?thesis by (auto simp: program_inv_def)
qed

text \<open>Every step keeps the invariant and every alert on record.\<close>

lemma program_step_inv:
  assumes "program_step pf dbPath accept p p'" "good_platform pf" "\<forall>ld. accept ld \<longrightarrow> bounded_load ld" "program_inv p"
  shows "program_inv p' \<and> vAlerts (db_view (pgDB p)) \<subseteq>\<^sub>m vAlerts (db_view (pgDB p'))"
proof -
  have good: "db_good (pgDB p)" using assms(4) by (simp add: program_inv_def)
  have adv: ?thesis if "program_inv p'" "db_advances (pgDB p) (pgDB p')"
    using that db_advancesD [OF _ good] by blast
  from assms(1) show ?thesis
  proof cases
    case start
    then show ?thesis using adv start_next_inv [OF assms(4,2)] by simp
  next
    case (run i)
    then show ?thesis using adv run_chain_inv [OF assms(4)] by simp
  next
    case (turn i cid r l t w)
    then show ?thesis using adv turn_inv [OF assms(4) turn(3-6)] by simp
  next
    case (reload ld)
    then show ?thesis using hup_inv [OF assms(4)] by simp
  next
    case (outside n fs)
    then show ?thesis using assms(4) by (simp add: program_inv_def db_good_def)
  next
    case stop
    then show ?thesis using assms(4) by (simp add: program_inv_def)
  next
    case (restart ld refreshABI apiKey n d')
    then have "db_advances (pgDB p) (pgDB p')" using boot_cases [OF restart(3)] by auto
    then show ?thesis using adv boot_inv [OF restart(3) _ good] assms(3) restart(2) by blast
  next
    case (no_start ld refreshABI apiKey n e d')
    then show ?thesis
      using boot_cases(1) [OF no_start(4)] db_advancesD [OF _ good] assms(4) by (simp add: program_inv_def)
  qed
qed

lemma program_run_inv:
  assumes "(program_step pf dbPath accept)\<^sup>*\<^sup>* p p'" "good_platform pf" "\<forall>ld. accept ld \<longrightarrow> bounded_load ld" "program_inv p"
  shows "program_inv p' \<and> vAlerts (db_view (pgDB p)) \<subseteq>\<^sub>m vAlerts (db_view (pgDB p'))"
  using assms(1)
proof (induction rule: rtranclp_induct)
  case (step p1 p2)
  then show ?case using program_step_inv [OF step(2) assms(2,3)] map_le_trans by blast
qed (simp add: assms(4))

section \<open>Receivers\<close>

text \<open>The router has the receivers \<open>R\<close>, and every rule that runs, or may still be started, names only
  those.\<close>

definition within :: "string set \<Rightarrow> 'p compiled list \<Rightarrow> bool" where
  "within R rules \<longleftrightarrow> (\<forall>c \<in> set rules. set (cmReceivers c) \<subseteq> R)"

definition config_within :: "string set \<Rightarrow> config \<Rightarrow> bool" where
  "config_within R cfg \<longleftrightarrow> (\<forall>m \<in> set (cfgMonitors cfg). \<forall>ru \<in> set (moRules m). set (ruReceivers ru) \<subseteq> R)"

definition routed :: "string set \<Rightarrow> ('p, 'n) program \<Rightarrow> bool" where
  "routed R p \<longleftrightarrow> dom (map_of (pgRouter p)) = R \<and> config_within R (pgConfig p) \<and>
     (\<forall>(cid, r) \<in> set (pgChains p). within R (rnRules r))"

definition valid_load :: "string set \<Rightarrow> load_err + config \<Rightarrow> bool" where
  "valid_load R ld \<longleftrightarrow> (\<forall>cfg. ld = Inr cfg \<longrightarrow> Validate cfg = None \<and> rvID ` set (cfgReceivers cfg) = R)"

lemma valid_within: "valid_load R (Inr cfg) \<Longrightarrow> config_within R cfg"
  unfolding config_within_def valid_load_def using Validate_receivers by metis

lemma compiled_within:
  assumes "NewExprEvaluator compile (monitorRules (cfgMonitors cfg) chain) = Inr rules" "config_within R cfg"
  shows "within R rules"
  unfolding within_def
proof
  fix c assume "c \<in> set rules"
  with compiled_receivers [OF assms(1)] obtain m ru where "m \<in> set (cfgMonitors cfg)" "ru \<in> set (moRules m)"
    "cmReceivers c = ruReceivers ru" by blast
  with assms(2) show "set (cmReceivers c) \<subseteq> R" unfolding config_within_def by metis
qed

lemma boot_routed:
  assumes "boot ld dbPath refreshABI apiKey n d = (Inr p, d')" "valid_load R ld"
  shows "routed R p"
proof -
  obtain cfg where "ld = Inr cfg" "BuildRouter (cfgReceivers cfg) = Inr (pgRouter p)" "pgConfig p = cfg" "pgChains p = []"
    using boot_cases(2) [OF assms(1)] by auto
  with assms(2) BuildRouter_dom valid_within show ?thesis by (auto simp: routed_def valid_load_def)
qed

lemma routedD: "routed R p \<Longrightarrow> (cid, r) \<in> set (pgChains p) \<Longrightarrow> within R (rnRules r)"
  by (auto simp: routed_def)

lemma put_chain_mem:
  assumes "(cid', r') \<in> set (pgChains (put_chain i t w p))"
  shows "rnRules r' = csRules (fst w) \<or> (cid', r') \<in> set (pgChains p)"
proof -
  let ?x = "(fst (pgChains p ! i), \<lparr>rnTracker = t, rnSeeded = True, rnClient = csClient (fst w), rnReaders = csReaders (fst w),
    rnRules = csRules (fst w)\<rparr>)"
  have "(cid', r') \<in> set ((pgChains p)[i := ?x])" using assms by (simp add: put_chain_def)
  then have "(cid', r') \<in> insert ?x (set (pgChains p))" by (rule subsetD [OF set_update_subset_insert])
  then show ?thesis by auto
qed

lemma put_chain_routed:
  assumes "routed R p" "i < length (pgChains p)" "pgChains p ! i = (cid, r)" "advances (chain_world p r) w"
  shows "routed R (put_chain i t w p)"
proof -
  have w: "csRules (fst w) = rnRules r" "dom (map_of (csRouter (fst w))) = dom (map_of (pgRouter p))"
    using assms(4) by (simp_all add: advances_def same_routes_def chain_world_def)
  have m: "(cid, r) \<in> set (pgChains p)" using nth_mem [OF assms(2)] assms(3) by simp
  have "within R (rnRules r')" if "(cid', r') \<in> set (pgChains (put_chain i t w p))" for cid' r'
    using put_chain_mem [OF that] w(1) routedD [OF assms(1) m] routedD [OF assms(1)] by auto
  with assms(1) w(2) show ?thesis by (auto simp: routed_def put_chain_def)
qed

lemma start_next_routed:
  assumes "routed R p"
  shows "routed R (start_next pf p)"
proof (cases "pgTodo p")
  case Nil
  with assms show ?thesis by (simp add: start_next_def)
next
  case (Cons ch chs)
  obtain out n d where
    s: "(start_chain pf (pgStore p) (pgKey p) (pgConfig p) ch (pgRouter p) (pgNet p) (pgDB p) :: ('c, 'a, 'b) chain_outcome \<times> 'b \<times> db) = (out, n, d)"
    by (rule prod_cases3)
  have "within R (csRules (fst w))" if "out = Started t w" for t w
    using start_chain_routes [of pf "pgStore p" "pgKey p" "pgConfig p" ch "pgRouter p" "pgNet p" "pgDB p" t w n d] s that
      compiled_within assms unfolding routed_def by blast
  then show ?thesis using assms Cons by (cases out) (simp_all add: start_next_def s routed_def)
qed

definition reloaded :: "('a, 'p, 'n) platform \<Rightarrow> load_err + config \<Rightarrow> string \<Rightarrow> 'p compiled list \<Rightarrow> 'p compiled list" where
  "reloaded pf ld cid old =
     (case ld of
        Inl e \<Rightarrow> old
      | Inr cfg \<Rightarrow> (case NewExprEvaluator (pfCompile pf) (monitorRules (cfgMonitors cfg) cid) of Inl e \<Rightarrow> old | Inr new \<Rightarrow> new))"

lemma reloadRules_map: "reloadRules (pfCompile pf) ld es = map (\<lambda>(cid, old). (cid, reloaded pf ld cid old)) es"
proof -
  have "fst (reload_chains (pfCompile pf) cfg es) = map (\<lambda>(cid, old). (cid, reloaded pf (Inr cfg) cid old)) es" for cfg
    by (induction es) (auto simp: reloaded_def split: prod.splits sum.splits)
  then show ?thesis by (cases ld) (auto simp: reloadRules_def reloaded_def)
qed

lemma hup_routed:
  assumes "routed R p" "valid_load R ld"
  shows "routed R (hup pf ld p)"
proof -
  have "within R (rnRules r)" if m: "(cid, r) \<in> set (pgChains (hup pf ld p))" for cid r
  proof -
    obtain i where i: "i < length (pgChains p)" "pgChains (hup pf ld p) ! i = (cid, r)"
      using m by (auto simp: in_set_conv_nth)
    obtain r0 where r0: "pgChains p ! i = (cid, r0)" using i hup_nth [OF i(1), of pf ld] by (cases "pgChains p ! i") auto
    then have old: "within R (rnRules r0)" using routedD [OF assms(1)] nth_mem [OF i(1)] by metis
    have "rnRules r = reloaded pf ld cid (rnRules r0)"
      using i hup_nth [OF i(1), of pf ld] r0 by (auto simp: reloadRules_map evaluators_def)
    with old compiled_within valid_within assms(2) show ?thesis by (fastforce simp: reloaded_def split: sum.splits)
  qed
  moreover have "pgConfig (hup pf ld p) = pgConfig p" by (simp add: hup_def)
  ultimately show ?thesis using assms(1) by (auto simp: routed_def)
qed

lemma program_step_routed:
  assumes "program_step pf dbPath accept p p'" "good_platform pf" "\<forall>ld. accept ld \<longrightarrow> bounded_load ld \<and> valid_load R ld"
    and "program_inv p" "routed R p"
  shows "routed R p'"
  using assms(1)
proof cases
  case start
  then show ?thesis using start_next_routed [OF assms(5)] by simp
next
  case (run i)
  obtain cid r where r: "pgChains p ! i = (cid, r)" by (rule prod.exhaust)
  obtain t w where s: "run_start (rnTracker r) (chain_world p r) = (t, w)" by (rule prod.exhaust)
  have "tracker_in advances (rnTracker r)" using chain_invD [OF assms(4) run(3) r] by (simp add: chain_inv_def)
  from put_chain_routed [OF assms(5) run(3) r adv.run_start_in [OF this s]] show ?thesis
    using run(1) by (simp add: run_chain_def r s routed_def)
next
  case (turn i cid r l t w)
  have "tracker_inv (rnTracker r)" "good_node (rnTracker r)" "tracker_in advances (rnTracker r)"
    using chain_invD [OF assms(4) turn(3,4)] turn(5) by (simp_all add: chain_inv_def)
  from put_chain_routed [OF assms(5) turn(3,4) turn_in [OF this turn(6)]] show ?thesis using turn(1) by simp
next
  case (reload ld)
  then show ?thesis using hup_routed [OF assms(5)] assms(3) by blast
next
  case (restart ld refreshABI apiKey n d')
  then show ?thesis using boot_routed [OF restart(3)] assms(3) by blast
qed (use assms(5) in \<open>simp_all add: routed_def\<close>)

lemma program_run_routed:
  assumes "(program_step pf dbPath accept)\<^sup>*\<^sup>* p p'" "good_platform pf"
    and "\<forall>ld. accept ld \<longrightarrow> bounded_load ld \<and> valid_load R ld" "program_inv p" "routed R p"
  shows "routed R p'"
  using assms(1)
proof (induction rule: rtranclp_induct)
  case (step p1 p2)
  have "program_inv p1" using program_run_inv [OF step(1) assms(2) _ assms(4)] assms(3) by blast
  then show ?case using program_step_routed [OF step(2) assms(2,3)] step(3) by blast
qed (simp add: assms(5))

section \<open>An example platform\<close>

text \<open>Nodes whose head is block 7, with a log in it.\<close>

definition ex_header :: "u64 \<Rightarrow> header" where
  "ex_header k = \<lparr>hHash = 7, hParentHash = 6, hNumber = uint k, hTime = 0\<rparr>"

definition ex_live :: "(unit, goval, stamped) platform" where
  "ex_live = ex_pf\<lparr>pfHeaderByNumber := (\<lambda>k u n. (Inr (ex_header k), n)),
     pfHeadByTag := (\<lambda>tag u n. (Inr (Some (ex_header 7)), n)),
     pfFilterLogs := (\<lambda>(from, to, as) u n. (Inr (filter (\<lambda>lg. from \<le> glBlockNumber lg \<and> glBlockNumber lg \<le> to \<and>
        (as = [] \<or> glAddress lg \<in> set as)) [ex_lg]), n))\<rparr>"

lemma ex_good_platform: "good_platform ex_live"
  by (auto simp: good_platform_def ex_live_def ex_header_def)

lemma ex_db_good: "db_good (migrated [])" "db_good (insert_alert a (migrated []))"
proof -
  show "db_good (migrated [])" by (simp add: db_good_def db_view_def migrated_def) (simp add: db_ok_def)
  moreover have "db_ok (insert_alert a (migrated []))" "vBlocks (db_view (insert_alert a (migrated []))) = vBlocks (db_view (migrated []))"
    using insert_alert_view [of "migrated []" a] by auto
  ultimately show "db_good (insert_alert a (migrated []))" by (simp add: db_good_def)
qed

end
