(* ===== verification/Completeness.thy ===== *)
theory Completeness
  imports Program_Inv
begin

text \<open>
  From the node to the record: when neither the database nor the log queries fail, a poll of a
  chain's tracker leaves an alert on record for every match of every log that the node has for the
  blocks it emits.
\<close>

section \<open>Matches\<close>

lemma Handle_recorded:
  assumes "st = SQLiteStore \<or> st = PostgresStore" "faults (snd w) = []" "db_good (snd w)"
    and "Handle (alert_manager pf st) m w = (out, w')"
  shows "vAlerts (db_view (snd w')) (Fingerprint m) \<noteq> None"
proof -
  have ok: "db_ok (snd w)" using assms(3) by (simp add: db_good_def)
  obtain dup w1 where d: "IsDuplicate (lift_store st) (Fingerprint m) w = (dup, w1)" by (rule prod.exhaust)
  have "fst (IsDuplicate st (Fingerprint m) (snd w)) = Inr (map_of (t_alerts (snd w)) (Fingerprint m) \<noteq> None)"
    "snd (IsDuplicate st (Fingerprint m) (snd w)) = snd w"
    using assms(1,2) by (elim disjE; simp add: backend_defs)+
  then have dup: "dup = Inr (map_of (t_alerts (snd w)) (Fingerprint m) \<noteq> None)" "snd w1 = snd w"
    using d by (auto simp: lift_store_def on_snd_def split: prod.splits)
  show ?thesis
  proof (cases "map_of (t_alerts (snd w)) (Fingerprint m) = None")
    case False
    then have "snd w' = snd w1" using assms(4) d dup(1) by (auto simp: Handle_def alert_manager_def world_obs_frame(2))
    with False dup(2) show ?thesis by (simp add: db_view_def)
  next
    case True
    define a where "a = \<lparr>aMatch = m, aFingerprint = Fingerprint m, aKind = AlertFiring, aAt = world_clock pf w1\<rparr>"
    obtain e w2 where r: "RecordAlert (lift_store st) a w1 = (e, w2)" by (rule prod.exhaust)
    have "RecordAlert st a (snd w1) = (None, insert_alert a (snd w1))"
      using assms(1,2) dup(2) by (elim disjE; simp add: backend_defs)
    then have "e = None" using r by (simp add: lift_store_def on_snd_def)
    then have h: "Handle (alert_manager pf st) m w = (Inr (Some a), w2)"
      using d dup(1) True r by (simp add: Handle_def alert_manager_def a_def)
    then have "w' = w2" using assms(4) by simp
    with fired_recorded [OF assms(1) ok h] show ?thesis by simp
  qed
qed

text \<open>What is on record stays on record while a chain acts on a good database.\<close>

lemma advances_keeps:
  assumes "advances w w'" "db_good (snd w)" "vAlerts (db_view (snd w)) fp \<noteq> None"
  shows "vAlerts (db_view (snd w')) fp \<noteq> None"
proof -
  have "vAlerts (db_view (snd w)) \<subseteq>\<^sub>m vAlerts (db_view (snd w'))"
    using assms(1) db_advancesD [OF _ assms(2)] by (simp add: advances_def)
  then show ?thesis using assms(3) by (metis domIff map_le_def)
qed

lemma advances_good:
  "advances w w' \<Longrightarrow> faults (snd w) = [] \<Longrightarrow> faults (snd w') = []"
  "advances w w' \<Longrightarrow> db_good (snd w) \<Longrightarrow> db_good (snd w')"
  by (simp_all add: advances_def db_advances_def)

lemma handle_matches_recorded:
  assumes "st = SQLiteStore \<or> st = PostgresStore"
  shows "faults (snd w) = [] \<Longrightarrow> db_good (snd w) \<Longrightarrow> m \<in> set ms \<Longrightarrow>
    vAlerts (db_view (snd (handle_matches pf st ms w))) (Fingerprint m) \<noteq> None"
proof (induction ms arbitrary: w)
  case (Cons x ms)
  obtain out w' where h: "Handle (alert_manager pf st) x w = (out, w')" by (rule prod.exhaust)
  define w2 where "w2 = (case out of Inr (Some a) \<Rightarrow> notify_all pf a (mReceivers x) w' | _ \<Rightarrow> w')"
  have hm: "handle_matches pf st (x # ms) w = handle_matches pf st ms w2"
    using h by (simp add: w2_def split: sum.splits option.splits)
  have w': "advances w w'" by (rule op_inD [OF Handle_in [OF assms] h])
  have w2: "advances w' w2"
    by (simp add: w2_def notify_all_in adv.refl split: sum.split option.split)
  note good = advances_good [OF adv.trans [OF w' w2]] advances_good [OF w']
  show ?case
  proof (cases "m = x")
    case True
    have "vAlerts (db_view (snd w')) (Fingerprint m) \<noteq> None"
      unfolding True by (rule Handle_recorded [OF assms Cons.prems(1,2) h])
    then show ?thesis
      unfolding hm using advances_keeps [OF adv.trans [OF w2 handle_matches_in [OF assms]]] good(4) [OF Cons.prems(2)] by blast
  next
    case False
    then show ?thesis unfolding hm using Cons.IH [of w2] Cons.prems good(1,2) by simp
  qed
qed simp

section \<open>Logs\<close>

lemma onLog_recorded:
  assumes "st = SQLiteStore \<or> st = PostgresStore" "faults (snd w) = []" "db_good (snd w)"
    and "Decode (world_libs (pfLibs pf) :: ('a, ('p, 'n) world) libs) dec l = Inr ev"
    and "m \<in> set (Eval (pfRun pf) (csRules (fst w)) (fst (enrich_event pf ev w)))"
  shows "vAlerts (db_view (snd (onLog pf st dec l w))) (Fingerprint m) \<noteq> None"
proof -
  obtain ev' w' where e: "enrich_event pf ev w = (ev', w')" by (rule prod.exhaust)
  have w': "advances w w'" by (rule op_inD [OF enrich_event_in e])
  then have "csRules (fst w') = csRules (fst w)" by (simp add: advances_def same_routes_def)
  then have "m \<in> set (Eval (pfRun pf) (csRules (fst w')) ev')" using assms(5) e by simp
  then have "vAlerts (db_view (snd (handle_matches pf st (Eval (pfRun pf) (csRules (fst w')) ev') w'))) (Fingerprint m) \<noteq> None"
    by (rule handle_matches_recorded [OF assms(1) advances_good [OF w'], OF assms(2,3)])
  then show ?thesis using assms(4) e by (simp add: onLog_def)
qed

text \<open>Nodes that have the logs \<open>lgs\<close> and answer every query for them, and a client with an endpoint.\<close>

definition serves_logs :: "('a, 'p, 'n) platform \<Rightarrow> gethlog list \<Rightarrow> bool" where
  "serves_logs pf lgs \<longleftrightarrow> (\<forall>from to as url v. \<exists>out v'. pfFilterLogs pf (from, to, as) url v = (Inr out, v') \<and>
     (\<forall>lg \<in> set lgs. from \<le> glBlockNumber lg \<and> glBlockNumber lg \<le> to \<and> (as = [] \<or> glAddress lg \<in> set as) \<longrightarrow> lg \<in> set out))"

lemma chain_answers:
  assumes "serves_logs pf lgs" "pool_size w \<noteq> 0"
  shows "answers advances (chain_fetcher pf st dec chain addrs) lgs w"
  unfolding answers_def
proof (intro allI impI)
  let ?f = "chain_fetcher pf st dec chain addrs"
  fix "from" to v
  assume "advances w v"
  then have ne: "plEndpoints (cPool (csClient (fst v))) \<noteq> []" using assms(2) by (auto simp: advances_def pool_size_def)
  let ?P = "\<lambda>out. \<forall>lg \<in> set lgs. wanted ?f {n. from \<le> n \<and> n \<le> to} lg \<longrightarrow> lg \<in> set out"
  have "\<exists>out v'. pfFilterLogs pf (from, to, addrs) url u = (Inr out, v') \<and> ?P out" for url u
    using assms(1) unfolding serves_logs_def wanted_def by (fastforce simp: chain_fetcher_def)
  from tryFailover_answers [where fn = "pfFilterLogs pf (from, to, addrs)" and ho = "node_host pf" and what = "''filter logs''"
      and w = "csNet (fst v)", OF ne this] obtain out c n where
    "FilterLogs (node_host pf) (pfFilterLogs pf) (csClient (fst v)) (from, to, addrs) (csNet (fst v)) = (Inr out, c, n)" "?P out"
    unfolding FilterLogs_def by blast
  then show "\<exists>out v'. lfFilterLogs ?f from to (lfAddresses ?f) v = (Inr out, v') \<and> ?P out"
    by (simp add: chain_fetcher_def client_op_def)
qed

section \<open>Polls\<close>

lemma finish_emit_recorded:
  assumes "st = SQLiteStore \<or> st = PostgresStore" "tracker_in advances t"
    and "tOnCanonicalBatch t = Some (OnCanonicalBatch (chain_fetcher pf st dec chain addrs))"
    and "faults (snd w) = []" "db_good (snd w)" "pool_size w \<noteq> 0" "serves_logs pf lgs"
    and "distinct (map bNumber emitted)" "b \<in> set emitted" "lg \<in> set lgs" "glBlockNumber lg = bNumber b"
    and "addrs = [] \<or> glAddress lg \<in> set addrs"
    and "Decode (world_libs (pfLibs pf) :: ('a, ('p, 'n) world) libs) dec (toPipelineLog chain b lg) = Inr ev"
  shows "\<exists>v. advances w v \<and> (\<forall>m \<in> set (Eval (pfRun pf) (csRules (fst w)) (fst (enrich_event pf ev v))).
    vAlerts (db_view (snd (snd (finish_emit t head emitted w)))) (Fingerprint m) \<noteq> None)"
proof -
  let ?f = "chain_fetcher pf st dec chain addrs"
  let ?w = "OnCanonicalBatch ?f emitted w"
  have f: "lfOnLog ?f = Some (onLog pf st dec)" "lfChain ?f = chain" "lfAddresses ?f = addrs"
    by (simp_all add: chain_fetcher_def)
  obtain v where v: "advances w v" "advances (onLog pf st dec (toPipelineLog chain b lg) v) ?w"
    using adv.batch_covers [of ?f, OF _ _ f(1) assms(8,9) chain_answers [OF assms(7,6)] assms(10,11)] assms(12)
    by (auto simp: f(2,3) chain_fetcher_def rpc_in act_in_def onLog_in [OF assms(1)])
  obtain e w' where s: "SaveCursor (tStore t) (tNow t ?w) \<lparr>cuChain = tChain t, cuBlock = last emitted\<rparr> ?w = (e, w')" by (rule prod.exhaust)
  define w2 where "w2 = snd (finish_emit t head emitted w)"
  have fin: "w2 = w' \<or> (\<exists>x. w2 = tObs t x w')"
    using assms(3,9) s by (auto simp: w2_def finish_emit_def call_def split: option.split)
  have "advances ?w w'" by (rule op_inD [OF tracker_inD(4) [OF assms(2)] s])
  then have w': "advances ?w w2" using fin adv.trans [OF _ adv.obs_in [OF assms(2)]] by blast
  have "vAlerts (db_view (snd w2)) (Fingerprint m) \<noteq> None"
    if "m \<in> set (Eval (pfRun pf) (csRules (fst w)) (fst (enrich_event pf ev v)))" for m
  proof -
    note good = advances_good [OF v(1)]
    have "csRules (fst v) = csRules (fst w)" using v(1) by (simp add: advances_def same_routes_def)
    then have "vAlerts (db_view (snd (onLog pf st dec (toPipelineLog chain b lg) v))) (Fingerprint m) \<noteq> None"
      using onLog_recorded [OF assms(1) good(1) [OF assms(4)] good(2) [OF assms(5)] assms(13)] that by simp
    then show ?thesis
      using advances_keeps [OF adv.trans [OF v(2) w']] advances_good(2) [OF onLog_in [OF assms(1)]] good(2) [OF assms(5)] by blast
  qed
  with v(1) show ?thesis unfolding w2_def by blast
qed

lemma poll_settled:
  assumes "tracker_inv t" "good_node t" "tHeadByTag t (tTag t) w = (Inr head, w1)"
    and "OnHead (tBlockByNumber t) (tReconciler t) head w1 = Some (Inr res, rc', w2)"
  obtains e t' w' reported emitted where "pollOnce t w = Some (e, t', w')" "settles t head res t' reported emitted"
    "deliver t' head reported emitted w2 = (e, w')"
proof -
  obtain e t' w' where p: "pollOnce t w = Some (e, t', w')" using pollOnce_spec [OF assms(1,2), of w] by blast
  from assms(1,2) p show thesis
  proof (rule pollOnce_elim)
    assume "t' = t" "e \<noteq> None" "\<And>x. e \<noteq> Some (SaveCursorErr x)"
    with p assms(3,4) show thesis
      by (auto simp: pollOnce_def finish_emit_def Let_def split_beta split: option.splits prod.splits sum.splits if_splits)
  next
    fix head' res' reported emitted v1 v2
    assume a: "tHeadByTag t (tTag t) w = (Inr head', v1)"
      "OnHead (tBlockByNumber t) (tReconciler t) head' v1 = Some (Inr res', tReconciler t', v2)"
      "settles t head' res' t' reported emitted" "deliver t' head' reported emitted v2 = (e, w')"
    have h: "head' = head" "v1 = w1" using a(1) assms(3) by simp_all
    then have "res' = res" "v2 = w2" using a(2) assms(4) by simp_all
    with a h p that show thesis by simp
  qed
qed


section \<open>An example\<close>

text \<open>A fresh tracker, a client with one endpoint, and a decoder that knows the monitor at address 5: the first
  poll emits block 7, whose log matches the rule.\<close>

definition ex_registered :: "(unit, (goval, stamped) world) decoder" where
  "ex_registered = NewDecoder\<lparr>dcABIs := [(addr_hex 5, ())], dcMonitors := [(addr_hex 5, ''m'')]\<rparr>"

definition ex_polling :: "(goval, stamped) world" where
  "ex_polling = (\<lparr>csClient = \<lparr>cChain = ''op'', cPool = newPool [\<lparr>epURL = ''a'', epWeight = 1, epFailedUntil = 0\<rparr>]\<rparr>, csReaders = [],
     csRules = ex_rules, csRouter = ex_router, csNet = (0, [])\<rparr>, migrated [])"

definition ex_tip :: blockref where
  "ex_tip = toRef ''op'' (ex_header 7)"

definition ex_seen :: event where
  "ex_seen = \<lparr>eLog = toPipelineLog ''op'' ex_tip ex_lg, eMonitorID = ''m'', eName = ''Paused'', eParams = [],
     eState = None, ePrevState = None, eConfirmation = []\<rparr>"

lemma ex_decodes: "Decode (world_libs (pfLibs ex_live)) ex_registered (toPipelineLog ''op'' ex_tip ex_lg) = Inr ex_seen"
  by (simp add: Decode_def ex_registered_def ex_seen_def world_libs_def ex_live_def ex_pf_def ex_net_libs_def toPipelineLog_def ex_lg_def
      decode_as_def decode_params_def NewDecoder_def)

text \<open>Reading state does not change what a fingerprint covers.\<close>

lemma enriched_frame: "eLog (fst (enrich_event pf ev w)) = eLog ev" "eMonitorID (fst (enrich_event pf ev w)) = eMonitorID ev"
  by (auto simp: enrich_event_def Enrich_def Let_def split: option.split prod.split)

definition ex_firing :: rmatch where
  "ex_firing = \<lparr>mEvent = ex_seen, mRuleIdx = 0, mSeverity = ''high'', mReceivers = [''ops'']\<rparr>"

lemma ex_matches:
  assumes "\<forall>m \<in> set (Eval (pfRun ex_live) ex_rules (fst (enrich_event ex_live ex_seen v))). P (Fingerprint m)"
  shows "P (Fingerprint ex_firing)"
proof -
  let ?ev = "fst (enrich_event ex_live ex_seen v)"
  let ?m = "\<lparr>mEvent = ?ev, mRuleIdx = 0, mSeverity = ''high'', mReceivers = [''ops'']\<rparr>"
  have "eMonitorID ?ev = ''m''" by (simp add: enriched_frame ex_seen_def)
  then have "?m \<in> set (Eval (pfRun ex_live) ex_rules ?ev)" by (simp add: Eval_def ex_rules_def ex_live_def ex_pf_def)
  moreover have "Fingerprint ?m = Fingerprint ex_firing"
    by (simp add: Fingerprint_def fingerprint_preimage_def ex_firing_def enriched_frame)
  ultimately show ?thesis using assms by metis
qed


end
