(* ===== verification/Program_Props.thy ===== *)
theory Program_Props
  imports Program_Inv
begin

text \<open>
  What holds of the whole program, in every interleaving of its chains, loops, reloads and restarts:
  the trackers keep their invariant and go on polling, alerts on record stay there and never
  fire again, a poll without failures records an alert for every match of every log it is
  served, and a reload and the check of a configuration do what they promise.
\<close>

section \<open>Properties\<close>



text \<open>
  C18. Routing is total: as long as every configuration that is loaded, at a start or a reload, is valid
  and lists the same receivers, no state of the program, in any interleaving, sends an alert of one
  of its rules to a receiver the router does not know.
\<close>

theorem receivers_known:
  assumes "good_platform pf" "\<forall>ld. accept ld \<longrightarrow> bounded_load ld \<and> valid_load R ld" "accept ld" "db_good d"
    and "boot ld dbPath refreshABI apiKey n d = (Inr p0, d0)" "(program_step pf dbPath accept)\<^sup>*\<^sup>* p0 p"
    and "(cid, r) \<in> set (pgChains p)" "m \<in> set (Eval (pfRun pf) (rnRules r) ev)" "rid \<in> set (mReceivers m)"
  shows "fst (send_alert pf rid a (chain_world p r)) \<noteq> Some (UnknownReceiverErr x)"
proof -
  have "program_inv p0" "routed R p0"
    using boot_inv [OF assms(5) _ assms(4)] boot_routed [OF assms(5)] assms(2,3) by blast+
  then have "routed R p" using program_run_routed [OF assms(6,1,2)] by blast
  obtain c where "c \<in> set (rnRules r)" and c: "mReceivers m = cmReceivers c" using Eval_receivers [OF assms(8)] by blast
  then have "set (cmReceivers c) \<subseteq> R" using routedD [OF \<open>routed R p\<close> assms(7)] by (simp add: within_def)
  with assms(9) c have "rid \<in> R" by auto
  then have "rid \<in> dom (map_of (csRouter (fst (chain_world p r))))"
    using \<open>routed R p\<close> by (simp add: routed_def chain_world_def)
  then show ?thesis
    by (auto simp: send_alert_env send_env_def split: prod.splits dest: Router_SendEnv_frame(2))
qed


text \<open>
  C20. What \<open>-check\<close> promises: when it accepts the file, it has touched no database, and a start with the same
  file gets past loading and building the receivers on every database: it serves, or fails on
  opening or clearing the database. No chain is then skipped because its rules do not compile.
\<close>

theorem check_then_start:
  assumes "Parse_flags cargs default_options = Inr (opts\<lparr>opCheck := True\<rparr>)" "Parse_flags args default_options = Inr opts"
    and "\<not> opVersion opts" "\<not> opCheck opts" "\<not> opListMonitors opts"
    and "main pf load apiKey cargs n d = (ConfigOK :: ('p, 'n) outcome, d1)"
    and "main pf load apiKey args n' d' = (out, d2)"
  shows "d1 = d \<and> (\<exists>cfg. load (opConfig opts) = Inr cfg \<and>
    (case out of Serving p \<Rightarrow> pgConfig p = cfg | Fatal (OpenFatal e) \<Rightarrow> True | Fatal (ClearFatal e) \<Rightarrow> True | _ \<Rightarrow> False) \<and>
    (\<forall>ch st router k x e. ch \<in> set (cfgChains cfg) \<longrightarrow> fst (start_chain pf st apiKey cfg ch router k x) \<noteq> CompileFailed e))"
proof -
  have d1: "d1 = d" and ck: "checkConfig (pfCompile pf) (load (opConfig opts)) = None"
    using assms(1,3,6) by (auto simp: main_def split: option.splits)
  then obtain cfg r where cfg: "load (opConfig opts) = Inr cfg" "BuildRouter (cfgReceivers cfg) = Inr r"
    and ck: "check_chain_rules (pfCompile pf) cfg (cfgChains cfg) = None"
    by (auto simp: checkConfig_def split: sum.splits)
  have comp: "\<exists>ev. NewExprEvaluator (pfCompile pf) (monitorRules (cfgMonitors cfg) (chID ch)) = Inr ev" if "ch \<in> set chs"
    "check_chain_rules (pfCompile pf) cfg chs = None" for ch chs
    using that by (induction chs) (auto split: sum.splits)
  have "fst (start_chain pf st apiKey cfg ch router k x) \<noteq> CompileFailed e" if "ch \<in> set (cfgChains cfg)" for ch st router k x e
    using comp [OF that ck] by (auto simp: start_chain_def Let_def split: prod.splits sum.splits)
  moreover have "case out of Serving p \<Rightarrow> pgConfig p = cfg | Fatal (OpenFatal e) \<Rightarrow> True | Fatal (ClearFatal e) \<Rightarrow> True | _ \<Rightarrow> False"
    using assms(2-5,7) cfg by (auto simp: main_def boot_def split: prod.splits sum.splits if_splits)
  ultimately show ?thesis using d1 cfg(1) by blast
qed

text \<open>Validation does not look at block times.\<close>

lemma Validate_block_time:
  "Validate (cfg\<lparr>cfgChains := map (\<lambda>ch. ch\<lparr>chBlockTimeMs := f ch\<rparr>) (cfgChains cfg)\<rparr>) = Validate cfg"
proof -
  have "check_chains ids (map (\<lambda>ch. ch\<lparr>chBlockTimeMs := f ch\<rparr>) chs) = check_chains ids chs" for ids chs
    by (induction chs arbitrary: ids) (simp_all split: option.split)
  moreover have "cfgReceivers (cfg\<lparr>cfgChains := x\<rparr>) = cfgReceivers cfg" "cfgMonitors (cfg\<lparr>cfgChains := x\<rparr>) = cfgMonitors cfg"
    "cfgChains (cfg\<lparr>cfgChains := x\<rparr>) = x" for x
    by simp_all
  ultimately show ?thesis by (simp only: Validate_def map_is_Nil_conv)
qed

text \<open>
  C23. A negative block time ends the program: it passes validation, which says nothing about it, the chain
  starts, and the first thing its tracker does after reading the store is a panic, which takes all
  other chains with it.
\<close>

theorem negative_block_time_panics:
  assumes "chBlockTimeMs ch < 0" "- 9223372036854 \<le> chBlockTimeMs ch"
    and "start_chain pf st key cfg ch router n d = (Started t w, n', d')"
    and "pgChains p ! i = (cid, r)" "rnTracker r = t"
  shows "pgStatus (run_chain i p) = Panicked"
proof -
  have "wrap64 j = j" if "- (2 ^ 63) \<le> j" "j < 2 ^ 63" for j
    using that by (simp add: wrap64_def sint_sbintrunc' signed_take_bit_int_eq_self)
  from this [of "chBlockTimeMs ch * 1000000"] have "chain_interval ch < 0"
    using assms(1,2) by (simp add: chain_interval_def Let_def)
  moreover obtain dec where "t = chain_tracker pf st dec cfg ch"
    using assms(3) by (auto simp: start_chain_def Let_def split: if_splits prod.splits sum.splits)
  ultimately have neg: "tInterval t < 0" by (simp add: chain_tracker_def Let_def)
  obtain t' w' where s: "run_start t (chain_world p r) = (t', w')" by (rule prod.exhaust)
  from run_start_cases [OF s] neg have "tInterval t' < 0" by (auto simp: run_defaults_def)
  then show ?thesis using s assms(4,5) by (simp add: run_chain_def)
qed

section \<open>Examples\<close>

lemma ex_bounded: "bounded_load (Inr ex_cfg)" "valid_load {''ops''} (Inr ex_cfg)"
  using ex_validated by (simp_all add: bounded_load_def valid_load_def bounded_chain_def ex_cfg_def ex_chain_def)

abbreviation ex_accept :: "load_err + config \<Rightarrow> bool" where
  "ex_accept ld \<equiv> ld = Inr ex_cfg"

definition ex_boot :: "db \<Rightarrow> (goval, stamped) program" where
  "ex_boot d = \<lparr>pgStatus = Up, pgConfig = ex_cfg, pgStore = SQLiteStore, pgKey = [], pgTodo = cfgChains ex_cfg, pgChains = [],
     pgRouter = ex_router, pgNet = (0, []), pgDB = d\<rparr>"

lemma ex_boots:
  assumes "faults d = []"
  shows "boot (Inr ex_cfg) ''x.db'' False [] (0, []) d = (Inr (ex_boot d), d)"
proof -
  have "run_create k d = (None, d)" for k using assms by (induction k) simp_all
  then show ?thesis
    using assms ex_built by (simp add: boot_def openStore_def is_postgres_def OpenSQLite_def sqlite_migrate_def ex_boot_def)
qed

lemma ex_starts:
  assumes "chRPCs ch = chRPCs ex_chain" "chID ch = ''op''" "cfgMonitors cfg = cfgMonitors ex_cfg"
  shows "\<exists>t w n' d'. start_chain ex_live SQLiteStore [] cfg ch ex_router (0, []) d = (Started t w, n', d') \<and> csRules (fst w) = ex_rules"
proof -
  have "NewExprEvaluator (pfCompile ex_live) (monitorRules (cfgMonitors cfg) (chID ch)) = Inr ex_rules"
    by (simp add: assms NewExprEvaluator_def ex_live_def ex_pf_def ex_cfg_def ex_monitor_def ex_compile_def ex_rules_def ex_chain_def)
  moreover obtain client where "Dial (pfDial ex_live) (chID ch)
      (map (\<lambda>r. \<lparr>esURL = rpcURL r, esWeight = rpcWeight r\<rparr>) (chRPCs ch)) (0, []) = (Inr client, (0, []))"
    by (simp add: assms Dial_def ex_live_def ex_pf_def ex_chain_def)
  moreover have "chRPCs ch \<noteq> []" by (simp add: assms ex_chain_def)
  ultimately show ?thesis by (intro start_chain_starts)
qed

text \<open>The program after the start of its one chain, and after the start of its tracker.\<close>

lemma ex_running:
  assumes "faults d = []"
  shows "\<exists>p r p' r'. program_step ex_live ''x.db'' ex_accept (ex_boot d) p \<and> pgStatus p = Up \<and> pgChains p = [(''op'', r)] \<and>
    rnRules r = ex_rules \<and> program_step ex_live ''x.db'' ex_accept p p' \<and> pgChains p' = [(''op'', r')] \<and> rnSeeded r'"
proof -
  obtain t w n d' where s: "start_chain ex_live SQLiteStore [] ex_cfg ex_chain ex_router (0, []) d = (Started t w, n, d')"
    "csRules (fst w) = ex_rules"
    using ex_starts [of ex_chain ex_cfg d] by (auto simp: ex_chain_def)
  let ?p = "start_next ex_live (ex_boot d)"
  let ?r = "\<lparr>rnTracker = t, rnSeeded = False, rnClient = csClient (fst w), rnReaders = csReaders (fst w), rnRules = csRules (fst w)\<rparr>"
  have "chID ex_chain = ''op''" "cfgChains ex_cfg = [ex_chain]" by (simp_all add: ex_chain_def ex_cfg_def)
  then have p: "pgStatus ?p = Up" "pgChains ?p = [(''op'', ?r)]"
    using s(1) by (simp_all add: start_next_def ex_boot_def)
  have p0: "program_step ex_live ''x.db'' ex_accept (ex_boot d) ?p" by (rule program_step.start) (simp add: ex_boot_def)
  have p1: "program_step ex_live ''x.db'' ex_accept ?p (run_chain 0 ?p)" by (rule program_step.run) (simp_all add: p)
  obtain t' w' where "run_start t (chain_world ?p ?r) = (t', w')" by (rule prod.exhaust)
  then obtain r' where r': "pgChains (run_chain 0 ?p) = [(''op'', r')]" "rnSeeded r'"
    by (auto simp: run_chain_def p put_chain_def)
  have "rnRules ?r = ex_rules" using s(2) by simp
  with p0 p1 p r' show ?thesis by blast
qed


text \<open>A start on a database that has an alert.\<close>

definition ex_recorded :: alert where
  "ex_recorded = \<lparr>aMatch = ex_match 2 ''high'', aFingerprint = Fingerprint (ex_match 2 ''high''), aKind = AlertFiring, aAt = 0\<rparr>"


theorem receivers_known_witness:
  "\<exists>p r m. (program_step ex_live ''x.db'' ex_accept)\<^sup>*\<^sup>* (ex_boot (migrated [])) p \<and> pgChains p = [(''op'', r)] \<and>
     m \<in> set (Eval (pfRun ex_live) (rnRules r) ex_event) \<and> mReceivers m = [''ops''] \<and>
     fst (send_alert ex_live ''ops'' (ex_alert ''high'') (chain_world p r)) \<noteq> Some (UnknownReceiverErr ''ops'')"
proof -
  have f: "faults (migrated []) = []" by (simp add: migrated_def)
  obtain p r where s: "program_step ex_live ''x.db'' ex_accept (ex_boot (migrated [])) p" and r: "pgChains p = [(''op'', r)]" "rnRules r = ex_rules"
    using ex_running [OF f] by blast
  have steps: "(program_step ex_live ''x.db'' ex_accept)\<^sup>*\<^sup>* (ex_boot (migrated [])) p" using s by simp
  let ?m = "\<lparr>mEvent = ex_event, mRuleIdx = 0, mSeverity = ''high'', mReceivers = [''ops'']\<rparr>"
  have m: "?m \<in> set (Eval (pfRun ex_live) (rnRules r) ex_event)"
    unfolding r(2) by (simp add: Eval_def ex_rules_def ex_event_def ex_live_def ex_pf_def)
  have a: "\<forall>ld. ex_accept ld \<longrightarrow> bounded_load ld \<and> valid_load {''ops''} ld" using ex_bounded by simp
  have "(''op'', r) \<in> set (pgChains p)" "''ops'' \<in> set (mReceivers ?m)" by (simp_all add: r(1))
  from receivers_known [OF ex_good_platform a HOL.refl ex_db_good(1) ex_boots [OF f] steps this(1) m this(2)]
  have "fst (send_alert ex_live ''ops'' (ex_alert ''high'') (chain_world p r)) \<noteq> Some (UnknownReceiverErr ''ops'')" .
  moreover have "mReceivers ?m = [''ops'']" by simp
  ultimately show ?thesis using steps r(1) m by blast
qed

theorem check_then_start_witness:
  "\<exists>p d. main ex_live (\<lambda>path. Inr ex_cfg) [] [''-db'', ''x.db''] (0, []) (migrated []) = (Serving p, d) \<and> pgConfig p = ex_cfg"
proof -
  let ?opts = "default_options\<lparr>opDB := ''x.db''\<rparr>"
  have c: "Parse_flags [''-check'', ''-db=x.db''] default_options = Inr (?opts\<lparr>opCheck := True\<rparr>)"
    and a: "Parse_flags [''-db'', ''x.db''] default_options = Inr ?opts"
    by (simp_all add: flags_def flag_name_def split_flag_def Let_def default_options_def)
  have r: "NewExprEvaluator (pfCompile ex_live) (monitorRules (cfgMonitors ex_cfg) ''op'') = Inr ex_rules"
    by (simp add: NewExprEvaluator_def ex_live_def ex_pf_def ex_cfg_def ex_monitor_def ex_compile_def ex_rules_def)
  have ch: "cfgChains ex_cfg = [ex_chain]" "chID ex_chain = ''op''" by (simp_all add: ex_cfg_def ex_chain_def)
  have k: "checkConfig (pfCompile ex_live) (Inr ex_cfg) = None" by (simp add: checkConfig_def ex_built ch r)
  have o: "\<not> opVersion ?opts" "\<not> opCheck ?opts" "\<not> opListMonitors ?opts" "\<not> opRefreshABI ?opts" by (simp_all add: default_options_def)
  have m: "main ex_live (\<lambda>path. Inr ex_cfg) [] [''-check'', ''-db=x.db''] (0, []) (migrated []) = (ConfigOK, migrated [])"
    using o by (simp add: main_def c k del: Parse_flags.simps)
  obtain out d where r: "main ex_live (\<lambda>path. Inr ex_cfg) [] [''-db'', ''x.db''] (0, []) (migrated []) = (out, d)" by (rule prod.exhaust)
  have "case out of Serving p \<Rightarrow> pgConfig p = ex_cfg | Fatal (OpenFatal e) \<Rightarrow> True | Fatal (ClearFatal e) \<Rightarrow> True | _ \<Rightarrow> False"
    using check_then_start [OF c a o(1-3) m r] by simp
  moreover have "out = Serving (ex_boot (migrated []))"
  proof -
    have "faults (migrated []) = []" by (simp add: migrated_def)
    with o have "main ex_live (\<lambda>path. Inr ex_cfg) [] [''-db'', ''x.db''] (0, []) (migrated []) =
        (Serving (ex_boot (migrated [])), migrated [])"
      by (simp add: main_def a ex_boots del: Parse_flags.simps)
    with r show ?thesis by (metis prod.inject)
  qed
  ultimately show ?thesis using r by simp
qed

text \<open>A configuration that passes validation, with a block time of minus one millisecond.\<close>

definition ex_negative :: config where
  "ex_negative = ex_cfg\<lparr>cfgChains := [ex_chain\<lparr>chBlockTimeMs := - 1\<rparr>]\<rparr>"

theorem negative_block_time_panics_witness:
  "Validate ex_negative = None \<and> (\<exists>p :: (goval, stamped) program. pgConfig p = ex_negative \<and> pgStatus p = Up \<and> pgStatus (run_chain 0 p) = Panicked)"
proof -
  let ?ch = "ex_chain\<lparr>chBlockTimeMs := - 1\<rparr>"
  have v: "Validate ex_negative = None"
    using ex_validated Validate_block_time [where cfg = ex_cfg and f = "\<lambda>ch. - 1"] by (simp add: ex_negative_def ex_cfg_def)
  obtain t w n d where s: "start_chain ex_live SQLiteStore [] ex_negative ?ch ex_router (0, []) (migrated []) = (Started t w, n, d)"
    using ex_starts [of ?ch ex_negative "migrated []"] by (auto simp: ex_negative_def ex_chain_def ex_cfg_def)
  let ?r = "\<lparr>rnTracker = t, rnSeeded = False, rnClient = csClient (fst w), rnReaders = csReaders (fst w), rnRules = csRules (fst w)\<rparr>"
  let ?p = "(ex_boot (migrated []))\<lparr>pgConfig := ex_negative, pgChains := [(''op'', ?r)]\<rparr>"
  have "chBlockTimeMs ?ch < 0" "- 9223372036854 \<le> chBlockTimeMs ?ch" by simp_all
  from negative_block_time_panics [OF this s, of ?p 0 "''op''" ?r]
  have "pgStatus (run_chain 0 ?p) = Panicked" by simp
  moreover have "pgConfig ?p = ex_negative" "pgStatus ?p = Up" by (simp_all add: ex_boot_def)
  ultimately show ?thesis using v by blast
qed

end
