(* ===== verification/Metrics_Props.thy ===== *)
theory Metrics_Props
  imports Wiring_Props Tracker_Props Effects
begin

text \<open>
  What the metrics of \<open>internal/obs\<close> say about a run: which calls a poll of a tracker, a call of the node
  client and a message to a receiver make on them.
\<close>

section \<open>Polls\<close>

text \<open>
  The calls of a tracker on its own two metrics, as far as a world remembers them: a call is appended,
  and nothing else that the tracker does touches them.
\<close>

definition tracker_tally :: "'w headtracker \<Rightarrow> ('w \<Rightarrow> metric list) \<Rightarrow> bool" where
  "tracker_tally t tally \<longleftrightarrow>
     (\<forall>vs w. tally (tObs t (Inc ReorgsSeen vs) w) = tally w @ [Inc ReorgsSeen vs]) \<and>
     (\<forall>vs x w. tally (tObs t (SetTo HeadLag vs x) w) = tally w @ [SetTo HeadLag vs x]) \<and>
     tracker_in (\<lambda>u v. tally v = tally u) (t\<lparr>tObs := (\<lambda>m w. w)\<rparr>)"

lemma tally_order: "world_order (\<lambda>u v. tally v = tally u)"
  by unfold_locales simp_all

lemma emit_blocks_quiet: "emit_blocks (t\<lparr>tObs := f\<rparr>) bs w = emit_blocks t bs w"
  by (induction bs arbitrary: w) simp_all

lemma fold_report_tally:
  assumes "tracker_tally t tally"
  shows "tally (fold (report t) bs w) = tally w @ replicate (length bs) (Inc ReorgsSeen [tChain t, ''any''])"
proof (induction bs arbitrary: w)
  case (Cons b bs)
  have "act_in (\<lambda>u v. tally v = tally u) (tOnReverted t)"
    using tracker_inD(10) [of "\<lambda>u v. tally v = tally u" "t\<lparr>tObs := (\<lambda>m w. w)\<rparr>"] assms by (simp add: tracker_tally_def)
  then have "tally (report t b w) = tally w @ [Inc ReorgsSeen [tChain t, ''any'']]"
    using world_order.call_in [OF tally_order, of tally "tOnReverted t"] assms by (simp add: report_def tracker_tally_def)
  then show ?case using Cons by simp
qed simp

text \<open>The gauge shows the distance of the last emitted block from the head; it does not wrap around.\<close>

lemma head_lag_settled:
  assumes "settles t head res t' reported emitted" "emitted \<noteq> []"
  shows "head_lag head (last emitted) = f64_of_int (int (unat (bNumber head)) - int (unat (bNumber (last emitted))))"
    "unat (tConfirmDepth t) \<le> unat (bNumber head) - unat (bNumber (last emitted)) \<or> bNumber (last emitted) = 0"
proof -
  let ?b = "last emitted"
  have "bNumber ?b \<le> emit_threshold (bNumber head) (tConfirmDepth t)"
    using assms(1) last_in_set [OF assms(2)] by (auto elim!: settlesE)
  then have b: "unat (bNumber ?b) + unat (tConfirmDepth t) \<le> unat (bNumber head) \<or> bNumber ?b = 0" by (simp add: emit_threshold_le)
  then have "bNumber ?b \<le> bNumber head" by (auto simp: word_le_nat_alt)
  then have "unat (bNumber head - bNumber ?b) = unat (bNumber head) - unat (bNumber ?b)" "unat (bNumber ?b) \<le> unat (bNumber head)"
    by (simp_all add: unat_sub word_le_nat_alt)
  then have "int (unat (bNumber head - bNumber ?b)) = int (unat (bNumber head)) - int (unat (bNumber ?b))" by (simp only: of_nat_diff)
  then show "head_lag head ?b = f64_of_int (int (unat (bNumber head)) - int (unat (bNumber ?b)))" by (simp only: head_lag_def uint_nat)
  show "unat (tConfirmDepth t) \<le> unat (bNumber head) - unat (bNumber ?b) \<or> bNumber ?b = 0" using b by auto
qed

text \<open>
  C40. The metrics of a poll: a successful poll counts one reorganisation for every reported block, all under the
  depth \<open>any\<close>, and then, when it emitted blocks, sets the lag of the chain under the policy \<open>fast\<close> to the
  distance of the last of them from the head, which is at least the confirmation depth unless that
  block is block 0; it makes no other call on these metrics.
\<close>

theorem poll_metrics:
  assumes "tracker_inv t" "good_node t" "tracker_tally t tally" "pollOnce t w = Some (None, t', w')"
  shows "\<exists>head v res reported emitted. tHeadByTag t (tTag t) w = (Inr head, v) \<and> settles t head res t' reported emitted \<and>
    tally w' = tally w @ replicate (length reported) (Inc ReorgsSeen [tChain t, ''any'']) @
      (if emitted = [] then []
       else [SetTo HeadLag [tChain t, ''fast''] (f64_of_int (int (unat (bNumber head)) - int (unat (bNumber (last emitted)))))]) \<and>
    (emitted = [] \<or> bNumber (last emitted) = 0 \<or>
       unat (tConfirmDepth t) \<le> unat (bNumber head) - unat (bNumber (last emitted)))"
  using assms(1,2,4)
proof (rule pollOnce_elim)
  fix head res reported emitted w1 w2
  let ?R = "\<lambda>u v. tally v = tally u"
  let ?q = "t\<lparr>tObs := (\<lambda>m w. w)\<rparr>"
  assume h: "tHeadByTag t (tTag t) w = (Inr head, w1)" "bNumber head \<noteq> max_u64"
    "OnHead (tBlockByNumber t) (tReconciler t) head w1 = Some (Inr res, tReconciler t', w2)"
    and s: "settles t head res t' reported emitted" and d: "deliver t' head reported emitted w2 = (None, w')"
  have q: "tracker_in ?R ?q" using assms(3) by (simp add: tracker_tally_def)
  have q': "tracker_in ?R (t'\<lparr>tObs := (\<lambda>m w. w)\<rparr>)" and t': "tracker_tally t' tally" "tChain t' = tChain t"
    using assms(3) s by (auto simp: settles_def tracker_tally_def tracker_in_def)
  have "tally w1 = tally w" using op_inD [OF tracker_inD(1) [OF q]] h(1) by simp
  moreover have "tally w2 = tally w1"
    using world_order.OnHead_in [OF tally_order _ h(3), of tally] tracker_inD(2) [OF q] by simp
  moreover define w3 where "w3 = fold (report t') reported w2"
  have "tally w3 = tally w2 @ replicate (length reported) (Inc ReorgsSeen [tChain t, ''any''])"
    unfolding w3_def fold_report_tally [OF t'(1)] t'(2) ..
  moreover define w4 where "w4 = emit_blocks t' emitted w3"
  have "list_all (\<lambda>b. bNumber b \<noteq> max_u64) emitted" by (rule world_order.emitted_exist [OF tally_order s h(2)])
  then have "tally w4 = tally w3"
    using world_order.emit_blocks_in [OF tally_order q', of emitted w3] by (simp add: w4_def emit_blocks_quiet)
  moreover have "tally w' = tally w4 @ (if emitted = [] then [] else [SetTo HeadLag [tChain t, ''fast''] (head_lag head (last emitted))])"
  proof (cases "emitted = []")
    case False
    let ?w = "call (tOnCanonicalBatch t') emitted w4"
    obtain w5 where c: "SaveCursor (tStore t') (tNow t' ?w) \<lparr>cuChain = tChain t', cuBlock = last emitted\<rparr> ?w = (None, w5)"
      and w': "w' = tObs t' (SetTo HeadLag [tChain t', ''fast''] (head_lag head (last emitted))) w5"
      using d False by (auto simp: deliver_def finish_emit_def w3_def w4_def Let_def split: prod.splits option.splits)
    have "tally ?w = tally w4" using world_order.call_in [OF tally_order, of tally] tracker_inD(9) [OF q'] by simp
    moreover have "tally w5 = tally ?w" using op_inD [OF tracker_inD(4) [OF q']] c by simp
    ultimately show ?thesis using False t' w' by (simp add: tracker_tally_def)
  qed (use d in \<open>simp add: deliver_def finish_emit_def w3_def w4_def\<close>)
  ultimately show ?thesis
    using h(1) s head_lag_settled [OF s] by (intro exI [of _ head] exI [of _ w1] exI [of _ res] exI [of _ reported] exI [of _ emitted]) auto
qed simp

text \<open>A tracker whose world is the list of its calls on the metrics. The poll of the reorganisation from block 101 to
  block 102 of another branch, at confirmation depth 1.\<close>

definition ex_metered :: "metric list headtracker" where
  "ex_metered = \<lparr>tChain = ''test'', tInterval = 0, tTag = ''latest'', tConfirmDepth = 1,
     tHeadByTag = (\<lambda>tag w. (Inr (ex_block 102 0xb2 0xb1), w)), tBlockByNumber = (\<lambda>n w. (fst (ex_reader n ()), w)),
     tReconciler = ex_rec,
     tStore = \<lparr>LoadCursor = (\<lambda>c w. (Inr None, w)), SaveCursor = (\<lambda>n c w. (None, w)),
       RememberBlock = (\<lambda>b w. (None, w)), LoadRecentBlocks = (\<lambda>c lo w. (Inr [], w)),
       LoadCanonicalBlocksRange = (\<lambda>c lo hi w. (Inr [], w)), IsDuplicate = (\<lambda>fp w. (Inr False, w)),
       RecordAlert = (\<lambda>a w. (None, w)), LoadAlertsAtBlock = (\<lambda>c n h w. (Inr [], w)),
       LoadCachedABI = (\<lambda>c a w. (Inr None, w)), SaveCachedABI = (\<lambda>n c a x w. (None, w)),
       ClearABICache = (\<lambda>w. (Inr 0, w))\<rparr>,
     tNow = (\<lambda>w. 0), tObs = (\<lambda>m w. w @ [m]), tOnCanonical = None, tOnCanonicalBatch = None, tOnReverted = None,
     tSafeTag = [], tFinalizedTag = [], tSafeInterval = 0, tFinalizedInterval = 0,
     tOnCanonicalSafe = None, tOnCanonicalFinalized = None, pending = [],
     safeTip = 0, safeSeeded = False, finalizedTip = 0, finalizedSeeded = False\<rparr>"

lemma ex_metered_ok: "tracker_inv ex_metered" "good_node ex_metered" "tracker_tally ex_metered id"
  using ex_tracker_inv ex_good_node
  by (simp_all add: tracker_inv_def good_node_def ex_metered_def ex_tracker_def tracker_tally_def tracker_in_def op_in_def act_in_def
      numbered_def)

lemma ex_metered_poll: "\<exists>t x. pollOnce ex_metered [] = Some (None, t, [Inc ReorgsSeen [''test'', ''any''], SetTo HeadLag [''test'', ''fast''] x])"
proof -
  have oh: "OnHead (\<lambda>n w. (fst (ex_reader n ()), w)) ex_rec (ex_block 102 0xb2 0xb1) w = Some (Inr ex_result, ex_rec', w)" for w :: "metric list"
    by (simp add: OnHead_def applyForward_def handleReorg_def makeslice_cap_def loop_simps
      ancestor_at_def known_or_zero_def ex_rec_def ex_rec'_def ex_reader_def ex_result_def
      gm_del_def gm_put_def rec_record_def note_block_def prune_def)
  have thr: "emit_threshold 102 1 = 101" by (simp add: emit_threshold_def)
  show ?thesis
    unfolding pollOnce_def by (simp add: ex_metered_def oh ex_result_def thr report_def call_def finish_emit_def)
qed

theorem poll_metrics_witness: "\<exists>t w. pollOnce ex_metered [] = Some (None, t, w) \<and> w \<noteq> [] \<and> list_all well_labelled w"
proof -
  obtain t w where p: "pollOnce ex_metered [] = Some (None, t, w)" "w \<noteq> []" using ex_metered_poll by blast
  have chain: "tChain ex_metered = ''test''" by (simp add: ex_metered_def)
  obtain k gauge where "w = replicate k (Inc ReorgsSeen [''test'', ''any'']) @ gauge" "set gauge \<subseteq> range (SetTo HeadLag [''test'', ''fast''])"
  proof -
    from poll_metrics [OF ex_metered_ok p(1)] obtain head :: blockref and reported emitted :: "blockref list" where
      "w = replicate (length reported) (Inc ReorgsSeen [''test'', ''any'']) @ (if emitted = [] then []
       else [SetTo HeadLag [''test'', ''fast''] (f64_of_int (int (unat (bNumber head)) - int (unat (bNumber (last emitted)))))])"
      unfolding id_apply append_Nil chain by blast
    then show thesis by (rule that) simp
  qed
  then have "list_all well_labelled w" by (auto simp: list_all_iff registered_def collector_defs)
  with p show ?thesis by blast
qed

section \<open>Calls of the node client\<close>

text \<open>Every failed attempt is counted under the URL of its endpoint, in order, and nothing else; the end of a context is
  not a failure.\<close>

lemma markFailed_url: "epURL (plEndpoints (markFailed now i p) ! j) = epURL (plEndpoints p ! j)"
  by (simp add: markFailed_nth)

theorem rpc_errors_counted:
  assumes "\<And>c vs w. tally (hoObs ho (Inc c vs) w) = tally w @ [Inc c vs]" "\<And>url w. tally (snd (fn url w)) = tally w"
    and "try_endpoints ho chain what fn is lastErr p w = (out, p', w')"
  shows "\<exists>failed rest. is = failed @ rest \<and>
    tally w' = tally w @ map (\<lambda>i. Inc RPCErrors [chain, epURL (plEndpoints p ! i)]) failed \<and>
    (rest = [] \<longleftrightarrow> (case out of Inl (NoEndpoints _) \<Rightarrow> True | Inl (AllFailed _ _ _) \<Rightarrow> True | _ \<Rightarrow> False))"
  using assms(3)
proof (induction "is" arbitrary: lastErr p w)
  case Nil
  then show ?case by (auto split: option.splits)
next
  case (Cons i "is")
  obtain r w1 where f: "fn (epURL (plEndpoints p ! i)) w = (r, w1)" by (rule prod.exhaust)
  have w1: "tally w1 = tally w" using assms(2) [of "epURL (plEndpoints p ! i)" w] f by simp
  show ?case
  proof (cases "\<exists>e. r = Inl (CallErr e)")
    case False
    then show ?thesis using Cons.prems f w1
      by (intro exI [of _ "[]"] exI [of _ "i # is"]) (auto split: sum.splits call_err.splits)
  next
    case True
    then obtain e where e: "r = Inl (CallErr e)" by blast
    let ?w = "count_failure ho chain (epURL (plEndpoints p ! i)) w1"
    have "try_endpoints ho chain what fn is (Some e) (markFailed (hoNow ho ?w) i p) ?w = (out, p', w')"
      using Cons.prems f e by (simp add: Let_def)
    from Cons.IH [OF this] obtain failed rest where "is = failed @ rest"
      "tally w' = tally ?w @ map (\<lambda>j. Inc RPCErrors [chain, epURL (plEndpoints p ! j)]) failed"
      "rest = [] \<longleftrightarrow> (case out of Inl (NoEndpoints _) \<Rightarrow> True | Inl (AllFailed _ _ _) \<Rightarrow> True | _ \<Rightarrow> False)"
      unfolding markFailed_url by blast
    then show ?thesis
      using w1 assms(1) by (intro exI [of _ "i # failed"] exI [of _ rest]) (simp add: count_failure_def)
  qed
qed

theorem rpc_errors_counted_witness:
  "\<exists>p w. try_endpoints \<lparr>hoNow = (\<lambda>w. 0), hoObs = (\<lambda>m w. w @ [m])\<rparr> ''op'' ''call''
       (\<lambda>url w. (if url = ''a'' then Inr () else Inl (CallErr ''down''), w)) [0, 1] None (cPool ex_client) [] = (Inr (), p, w) \<and>
     list_all well_labelled w"
proof -
  let ?ho = "\<lparr>hoNow = (\<lambda>w. 0), hoObs = (\<lambda>m w. w @ [m])\<rparr>"
  let ?fn = "\<lambda>url w. (if url = ''a'' then Inr () else Inl (CallErr ''down''), w :: metric list)"
  obtain p w where t: "try_endpoints ?ho ''op'' ''call'' ?fn [0, 1] None (cPool ex_client) [] = (Inr (), p, w)"
    by (simp add: ex_client_pool markFailed_nth count_failure_def)
  obtain "is" where "w = map (\<lambda>i. Inc RPCErrors [''op'', epURL (plEndpoints (cPool ex_client) ! i)]) is"
    using rpc_errors_counted [where tally = id, OF _ _ t] by auto
  then have "list_all well_labelled w" by (auto simp: list_all_iff registered_def collector_defs)
  with t show ?thesis by blast
qed

section \<open>Messages\<close>

text \<open>
  A message that the throttle of its receiver suppresses is counted as sent: nothing goes out, and the call
  on \<open>opsentry_alerts_throttled_total\<close> is followed by one on \<open>opsentry_alerts_sent_total\<close>, whose help text
  says that it counts alerts delivered.
\<close>

theorem throttled_counted_as_sent:
  assumes "map_of (csRouter (fst w)) rid = Some (Throttled rid n iv lastSent)" "\<not> time_IsZero lastSent"
    and "time_Sub (skNow (pfSinks pf) (csNet (fst w))) lastSent < iv"
  shows "notify_all pf a [rid] w =
    ((fst w)\<lparr>csRouter := gm_put rid (Throttled rid n iv lastSent) (csRouter (fst w)),
       csNet := net_obs pf (Inc AlertsSent [rid, kind_string (aKind a)]) (net_obs pf (Inc AlertsThrottled [rid]) (csNet (fst w)))\<rparr>,
     snd w)"
  using assms by (simp add: send_alert_def Router_Send_def Router_SendEnv_def world_obs_def net_obs_def)

text \<open>A platform whose network is the list of calls on the metrics, at instant 9, and a receiver that was last served at
  instant 5 and wants 60 nanoseconds between messages.\<close>

definition ex_counting :: "(unit, goval, metric list) platform" where
  "ex_counting = \<lparr>pfClock = (\<lambda>n. 9), pfDial = (\<lambda>u n. (None, n)), pfHeaderByNumber = (\<lambda>k u n. (Inl (CallErr ''x''), n)),
     pfHeadByTag = (\<lambda>k u n. (Inl (CallErr ''x''), n)), pfFilterLogs = (\<lambda>q u n. (Inr [], n)),
     pfStorageAt = (\<lambda>a s u n. (Inl (CallErr ''x''), n)), pfCallContract = (\<lambda>c k u n. (Inl (CallErr ''x''), n)),
     pfLibs = ex_net_libs, pfCompile = ex_compile, pfRun = (\<lambda>p env. Inr p),
     pfSinks = \<lparr>skChecksum = (\<lambda>a. []), skLog = (\<lambda>l n. n), skShoutrrr = (\<lambda>u m n. (None, n)), skNow = (\<lambda>n. 9),
       skObs = (\<lambda>m n. n @ [m])\<rparr>\<rparr>"

definition ex_busy :: "(goval, metric list) world" where
  "ex_busy = (\<lparr>csClient = \<lparr>cChain = ''op'', cPool = newPool []\<rparr>, csReaders = [], csRules = [],
     csRouter = [(''ops'', Throttled ''ops'' (LogNotifier ''ops'' \<lparr>tmTitle = [], tmBody = []\<rparr>) 60 5)], csNet = []\<rparr>, migrated [])"

theorem throttled_counted_as_sent_witness:
  "csNet (fst (notify_all ex_counting \<lparr>aMatch = ex_match 2 ''high'', aFingerprint = [], aKind = AlertFiring, aAt = 9\<rparr> [''ops''] ex_busy)) =
     [Inc AlertsThrottled [''ops''], Inc AlertsSent [''ops'', ''firing'']]"
proof -
  have "map_of (csRouter (fst ex_busy)) ''ops'' = Some (Throttled ''ops'' (LogNotifier ''ops'' \<lparr>tmTitle = [], tmBody = []\<rparr>) 60 5)"
    by (simp add: ex_busy_def)
  moreover have "\<not> time_IsZero 5" "time_Sub (skNow (pfSinks ex_counting) (csNet (fst ex_busy))) 5 < 60"
    by (simp_all add: time_IsZero_def ex_counting_def time_Sub_def)
  ultimately show ?thesis
    by (subst throttled_counted_as_sent) (simp_all add: net_obs_def ex_counting_def ex_busy_def)
qed

end
