(* ===== verification/Http_Api.thy ===== *)
theory Http_Api
  imports Metrics Url
begin

text \<open>
  The HTTP API (\<open>internal/httpapi/server.go\<close>): a multiplexer with two routes, the health check and the
  metrics. \<open>http.ServeMux\<close> of the standard library is modelled as far as patterns without a host, a method, a
  wildcard or a trailing slash need it; the handler of the Prometheus client is a parameter.
\<close>

section \<open>The multiplexer\<close>

text \<open>A request: its method, its target and the escaped path of its URL.\<close>

record request =
  rqMethod :: string
  rqRequestURI :: string
  rqPath :: string

record reply =
  rpStatus :: nat
  rpLocation :: string
  rpBody :: string

type_synonym handler = "request \<Rightarrow> reply"

type_synonym mux = "(string \<times> handler) list"

text \<open>\<open>path.Clean\<close> of a rooted path: empty and \<open>.\<close> segments vanish, \<open>..\<close> takes the last one away.\<close>

fun split_slash :: "string \<Rightarrow> string list" where
  "split_slash [] = [[]]"
| "split_slash (c # cs) =
     (if c = CHR ''/'' then [] # split_slash cs
      else (case split_slash cs of [] \<Rightarrow> [[c]] | s # ss \<Rightarrow> (c # s) # ss))"

definition clean_step :: "string \<Rightarrow> string list \<Rightarrow> string list" where
  "clean_step seg stack = (if seg = [] \<or> seg = ''.'' then stack else if seg = ''..'' then drop 1 stack else seg # stack)"

definition join_path :: "string list \<Rightarrow> string" where
  "join_path segs = (if segs = [] then ''/'' else concat (map (Cons (CHR ''/'')) segs))"

definition path_Clean :: "string \<Rightarrow> string" where
  "path_Clean p = join_path (rev (fold clean_step (split_slash p) []))"

definition cleanPath :: "string \<Rightarrow> string" where
  "cleanPath p0 =
     (if p0 = [] then ''/''
      else (let p = (if hd p0 = CHR ''/'' then p0 else CHR ''/'' # p0); np = path_Clean p
            in if last p = CHR ''/'' \<and> np \<noteq> ''/'' then np @ ''/'' else np))"

text \<open>A pattern of one segment matches the path of that segment, unescaped.\<close>

fun path_unescape :: "string \<Rightarrow> string" where
  "path_unescape [] = []"
| "path_unescape (c # cs) =
     (case cs of
        x # y # rest \<Rightarrow>
          if c = CHR ''%'' \<and> is_hex_char x \<and> is_hex_char y then char_of (unhex x * 16 + unhex y) # path_unescape rest
          else c # path_unescape cs
      | _ \<Rightarrow> c # path_unescape cs)"

definition route :: "mux \<Rightarrow> string \<Rightarrow> handler option" where
  "route m path =
     (case split_slash path of
        [root, seg] \<Rightarrow> if root = [] then map_of m (CHR ''/'' # path_unescape seg) else None
      | _ \<Rightarrow> None)"

definition not_found :: reply where
  "not_found = \<lparr>rpStatus = 404, rpLocation = [], rpBody = ''404 page not found'' @ [CHR 0x0A]\<rparr>"

definition dispatch :: "mux \<Rightarrow> string \<Rightarrow> request \<Rightarrow> reply" where
  "dispatch m path r = (case route m path of None \<Rightarrow> not_found | Some h \<Rightarrow> h r)"

definition ServeHTTP :: "mux \<Rightarrow> request \<Rightarrow> reply" where
  "ServeHTTP m r =
     (if rqRequestURI r = ''*'' then \<lparr>rpStatus = 400, rpLocation = [], rpBody = []\<rparr>
      else if rqMethod r = ''CONNECT'' then dispatch m (rqPath r) r
      else if cleanPath (rqPath r) \<noteq> rqPath r then \<lparr>rpStatus = 301, rpLocation = cleanPath (rqPath r), rpBody = []\<rparr>
      else dispatch m (rqPath r) r)"

section \<open>The routes\<close>

definition healthz :: handler where
  "healthz r = \<lparr>rpStatus = 200, rpLocation = [], rpBody = ''ok'' @ [CHR 0x0A]\<rparr>"

definition httpapi_New :: "handler \<Rightarrow> mux" where
  "httpapi_New metricsHandler = [(''/healthz'', healthz), (''/metrics'', metricsHandler)]"

section \<open>Clean paths\<close>

definition plain_seg :: "string \<Rightarrow> bool" where
  "plain_seg s \<longleftrightarrow> s \<noteq> [] \<and> s \<noteq> ''.'' \<and> s \<noteq> ''..'' \<and> CHR ''/'' \<notin> set s"

lemma split_slash_nonempty: "split_slash p \<noteq> []"
  by (cases p) (auto split: list.split)

lemma split_slash_free: "s \<in> set (split_slash p) \<Longrightarrow> CHR ''/'' \<notin> set s"
  by (induction p arbitrary: s) (auto split: list.split_asm if_split_asm)

lemma split_slash_append: "CHR ''/'' \<notin> set s \<Longrightarrow> split_slash (s @ CHR ''/'' # p) = s # split_slash p"
  by (induction s) auto

lemma split_slash_single: "CHR ''/'' \<notin> set s \<Longrightarrow> split_slash s = [s]"
  by (induction s) auto

lemma split_segments:
  "list_all plain_seg segs \<Longrightarrow> split_slash (concat (map (Cons (CHR ''/'')) segs)) = [] # segs"
  "list_all plain_seg segs \<Longrightarrow> split_slash (concat (map (Cons (CHR ''/'')) segs) @ ''/'') = [] # segs @ [[]]"
proof -
  have tail: "split_slash (s @ concat (map (Cons (CHR ''/'')) ss)) = s # ss \<and>
      split_slash (s @ concat (map (Cons (CHR ''/'')) ss) @ ''/'') = s # ss @ [[]]"
    if "CHR ''/'' \<notin> set s" "list_all plain_seg ss" for s ss
    using that
  proof (induction ss arbitrary: s)
    case Nil
    then show ?case using split_slash_append [of s "[]"] by (simp add: split_slash_single)
  next
    case (Cons t ss)
    then show ?case by (auto simp: split_slash_append plain_seg_def)
  qed
  show "list_all plain_seg segs \<Longrightarrow> split_slash (concat (map (Cons (CHR ''/'')) segs)) = [] # segs"
    "list_all plain_seg segs \<Longrightarrow> split_slash (concat (map (Cons (CHR ''/'')) segs) @ ''/'') = [] # segs @ [[]]"
    using tail [of "[]" segs] by simp_all
qed

lemma clean_plain: "list_all plain_seg segs \<Longrightarrow> fold clean_step segs stack = rev segs @ stack"
  by (induction segs arbitrary: stack) (auto simp: clean_step_def plain_seg_def)

lemma clean_fold_plain:
  "list_all (\<lambda>s. CHR ''/'' \<notin> set s) segs \<Longrightarrow> list_all plain_seg stack \<Longrightarrow> list_all plain_seg (fold clean_step segs stack)"
proof (induction segs arbitrary: stack)
  case (Cons s segs)
  then have "plain_seg s \<or> s \<in> {[], ''.'', ''..''}" by (auto simp: plain_seg_def)
  then have "list_all plain_seg (clean_step s stack)"
    using Cons.prems(2) by (cases stack) (auto simp: clean_step_def)
  with Cons show ?case by simp
qed simp

lemma path_Clean_segments:
  obtains segs where "path_Clean p = join_path segs" "list_all plain_seg segs"
proof -
  have "list_all (\<lambda>s. CHR ''/'' \<notin> set s) (split_slash p)" using split_slash_free by (auto simp: list_all_iff)
  from clean_fold_plain [OF this, of "[]"] show thesis
    by (intro that [of "rev (fold clean_step (split_slash p) [])"]) (simp_all add: path_Clean_def list_all_iff)
qed

lemma path_Clean_join: "list_all plain_seg segs \<Longrightarrow> path_Clean (join_path segs) = join_path segs"
  "list_all plain_seg segs \<Longrightarrow> path_Clean (join_path segs @ ''/'') = join_path segs"
  by (auto simp: path_Clean_def join_path_def split_segments clean_plain clean_step_def)

lemma join_path_ends:
  assumes "list_all plain_seg segs" "segs \<noteq> []"
  shows "hd (join_path segs) = CHR ''/''" "last (join_path segs) \<noteq> CHR ''/''" "join_path segs \<noteq> []"
proof -
  obtain ss t where segs: "segs = ss @ [t]" using assms(2) by (cases segs rule: rev_cases) auto
  have j: "join_path segs = concat (map (Cons (CHR ''/'')) ss) @ CHR ''/'' # t" by (simp add: segs join_path_def)
  have t: "plain_seg t" using assms(1) by (simp add: segs)
  then have "last t \<in> set t" by (simp add: plain_seg_def)
  with t have "last t \<noteq> CHR ''/''" by (metis plain_seg_def)
  with t show "last (join_path segs) \<noteq> CHR ''/''" "join_path segs \<noteq> []"
    by (auto simp: j plain_seg_def)
  show "hd (join_path segs) = CHR ''/''" using assms(2) by (cases segs) (auto simp: join_path_def)
qed

text \<open>A cleaned path is clean, so the target of a redirect is never redirected again.\<close>

theorem cleanPath_idem: "cleanPath (cleanPath p) = cleanPath p"
proof (cases "p = []")
  case True
  then show ?thesis by (simp add: cleanPath_def path_Clean_def clean_step_def join_path_def)
next
  case False
  define q where "q = (if hd p = CHR ''/'' then p else CHR ''/'' # p)"
  obtain segs where c: "path_Clean q = join_path segs" "list_all plain_seg segs" by (rule path_Clean_segments)
  show ?thesis
  proof (cases "segs = []")
    case True
    then have "cleanPath p = ''/''" using False c(1) by (simp add: cleanPath_def q_def join_path_def Let_def)
    then show ?thesis by (simp add: cleanPath_def path_Clean_def clean_step_def join_path_def)
  next
    case nonempty: False
    note ends = join_path_ends [OF c(2) nonempty]
    have root: "join_path segs \<noteq> ''/''" using ends(2) by auto
    then have "cleanPath p = (if last q = CHR ''/'' then join_path segs @ ''/'' else join_path segs)"
      using False c(1) by (simp add: cleanPath_def q_def Let_def)
    then show ?thesis
      using ends root path_Clean_join [OF c(2)] by (auto simp: cleanPath_def Let_def)
  qed
qed

text \<open>
  The health check answers any method.
\<close>

theorem health_check:
  assumes "rqRequestURI r \<noteq> ''*''" "rqPath r = ''/healthz''"
  shows "ServeHTTP (httpapi_New metricsHandler) r = \<lparr>rpStatus = 200, rpLocation = [], rpBody = ''ok'' @ [CHR 0x0A]\<rparr>"
proof -
  have "cleanPath ''/healthz'' = ''/healthz''" "path_unescape ''healthz'' = ''healthz''" by code_simp+
  then show ?thesis using assms by (simp add: ServeHTTP_def dispatch_def route_def httpapi_New_def healthz_def)
qed

text \<open>A path that is not clean is redirected, once: the target is dispatched.\<close>

theorem redirected_once:
  assumes "rqRequestURI r \<noteq> ''*''" "rqMethod r \<noteq> ''CONNECT''" "cleanPath (rqPath r) \<noteq> rqPath r"
    and "r' = r\<lparr>rqPath := rpLocation (ServeHTTP (httpapi_New metricsHandler) r)\<rparr>"
  shows "ServeHTTP (httpapi_New metricsHandler) r' = dispatch (httpapi_New metricsHandler) (cleanPath (rqPath r)) r'"
  using assms by (simp add: ServeHTTP_def cleanPath_idem)

end
