(* ===== verification/Spec2Isabelle.thy ===== *)
theory Spec2Isabelle
  imports Reorg_Props Store_Props Tracker_Props Logs Alerts Rpc Durations Rules Notify Reads Decode_Props Json_Total Wiring_Props
    Race Completeness Program_Props Metrics_Props Http_Api
begin

text \<open>
  A verification of opsentry, a service that watches contracts on EVM chains and sends alerts.

  \<^bold>\<open>The program.\<close> For every configured chain a head tracker polls the node, reconciles the new head
  with the blocks it knows by walking parent hashes, and hands out blocks that are deep enough,
  and, from two further loops, blocks that the node calls safe or finalized. A log fetcher asks for
  the logs of the blocks handed out. Each log is decoded with the ABI of its contract, enriched
  with values read from the chain, and judged by the rules of its monitor. A match becomes an alert
  unless its fingerprint is on record; the alert is recorded and sent to the receivers of the rule.
  When a block is reverted, the alerts recorded for it are announced as reverted.

  \<^bold>\<open>Theories and sources\<close> (paths under \<open>src/\<close>).
  \<^item> \<open>Opsentry_Prelude\<close>: bytes, hexadecimal and decimal text, Go maps as association lists behind the
    locale \<open>go_map\<close>, instants and durations. 64-bit integers are words and wrap around. \<open>Url\<close>: characters, and
    \<open>url.Parse\<close> of the standard library, which the validation of the configuration and the requests of the
    fetchers go through.
  \<^item> \<open>Pipeline\<close>, \<open>Values\<close> (\<open>internal/pipeline\<close>): blocks, logs, events, matches, alerts, the environments of
    rules and templates; float64 rounding and JSON values.
  \<^item> \<open>Reorg\<close>, \<open>Reorg_Props\<close> (\<open>internal/ingest/reorg.go\<close>): the reconciler. State: record \<open>reconciler\<close>;
    operations: \<open>OnHead\<close>, \<open>LoadKnown\<close>, \<open>Tip\<close> and the loops inside. The block source is a stateful
    parameter; the loops that may not end are option-valued, \<open>None\<close> being no result.
  \<^item> \<open>Storage\<close>, \<open>Store_Contract\<close>, \<open>Store_Props\<close> (\<open>internal/storage\<close>): tables, statements and operations of
    both back ends, and the contract of the store as the locale \<open>store_laws\<close> over an abstract view,
    interpreted for SQLite and Postgres, alone and as part of a larger world.
  \<^item> \<open>Tracker\<close>, \<open>Tracker_Props\<close> (\<open>internal/ingest/tracker.go\<close>): one poll, one confirmation poll, the
    seeding, and \<open>Run\<close> as the step relation \<open>track_step\<close> over polls in any interleaving.
  \<^item> \<open>Logs\<close> (\<open>internal/ingest/logs.go\<close>), \<open>Rpc\<close> (\<open>internal/rpc\<close>), \<open>Rules\<close> (\<open>internal/rules\<close>), \<open>Reads\<close>
    (\<open>internal/reads\<close>), \<open>Notify\<close> (\<open>internal/notify\<close>), \<open>Config\<close> and \<open>Durations\<close> (\<open>internal/config\<close>), \<open>Sha256\<close> and \<open>Alerts\<close>
    (\<open>internal/alerts\<close>): one component each, with its properties.
  \<^item> \<open>Decode\<close>, \<open>Fetch_Props\<close>, \<open>Decode_Props\<close> (\<open>internal/decode\<close>): the ABI registry, the fetchers, proxies, the
    cache, the decoding of a log. \<open>Json_Decode\<close>, \<open>Json_Props\<close> and \<open>Json_Total\<close> model \<open>json.Unmarshal\<close> as the
    fetchers use it: the scanner as an automaton over a stack, the decoder as a recursion over the
    members, with the lemmas that a value is cut out verbatim and that the decoder never panics.
  \<^item> \<open>Wiring\<close>, \<open>Wiring_Props\<close> (\<open>cmd/opsentry/main.go\<close>): views of the configuration, the start of
    a chain, the callbacks \<open>onLog\<close> and \<open>onReverted\<close>, the reload and the checks. The
    world of a chain is a record of its client, readers, rules, router and network, paired with
    the database; all components act on it.
  \<^item> \<open>Program\<close> (\<open>func main\<close>): the command line, the modes that end at once, the state of the running
    program and its steps (\<open>program_step\<close>): the start of the next chain, the start of its tracker, one
    turn of one of its three loops, a reload on SIGHUP, changes of the network and driver failures, the
    end of the process, and a restart on the same database.
  \<^item> \<open>Effects\<close>: the locale \<open>world_order\<close>, a reflexive and transitive relation on worlds: polls, batches and
    registrations stay within it when the operations they use do. \<open>Program_Inv\<close> interprets it for
    the worlds of chains and builds the invariant of the program; \<open>Program_Props\<close> and \<open>Completeness\<close>
    hold the properties.
  \<^item> \<open>Race\<close> (\<open>internal/alerts/manager.go\<close>): \<open>Handle\<close> as two store calls that interleave with those of other
    goroutines.

  \<^item> \<open>Metrics\<close>, \<open>Metrics_Props\<close> (\<open>internal/obs\<close>): the collectors, and the calls on them as values that the components
    pass to an operation on their world. \<open>Http_Api\<close> (\<open>internal/httpapi\<close>): the two routes, on a model of
    \<open>http.ServeMux\<close>.

  \<^bold>\<open>What is shown.\<close> Reconciliation: the reported blocks turn the old view of the chain into the new
  one, the known window stays linked and bounded, every call ends and fails without a trace.
  Tracking: a consumer of the callbacks follows the chain up to the pending blocks, no block is
  handed out before its depth. Store: range queries, alert records
  and cursors read back what was written, on both back ends. Logs: splitting a batch into queries
  is invisible. Alerts: a fingerprint identifies a match and fires at most once, and exactly once
  without faults. Client: failover takes the first healthy endpoint and respects cooldowns.
  Configuration: exactly the well-formed ones are accepted, then no rule names an unknown
  receiver at run time, and a duration is read back as it was written. Rules, templates, throttle and state reads: functional behaviour. Decoding
  and assembly: which monitor gets a log, which logs a confirmation level sees, what a revert
  sends, what becomes of a failed message, that the requests of the fetchers are well-formed,
  which text of a response is taken as the ABI, that a loaded ABI is cached and never lost to proxy resolution. The whole program: in every interleaving it
  neither panics nor gets stuck, alerts on record survive every failure and restart and do not fire
  again, rules only name receivers the router knows, a reload changes rules only, what \<open>-check\<close>
  accepts starts, and a poll without failures leaves an alert on record for every match of every log
  of the blocks it emits. Concurrent handlers keep all records, but two of them can fire the same
  alert; a negative block time ends the process. Metrics: which calls a poll, a failed node call, a
  duplicate and a message make; a message that was throttled counts as sent. The HTTP API redirects a path at
  most once.

  \<^bold>\<open>Parameters.\<close> Code outside the repository is a parameter of the definitions: go-ethereum (node calls,
  ABI parsing, Keccak-256, the checksummed form and the parsing of addresses), expr-lang (compiling
  and running a rule), Shoutrrr, YAML, the SQL engines (as tables with a script of driver faults),
  the Prometheus client and the HTTP transport. What a theorem needs of one is a hypothesis in its statement: \<open>numbered\<close> (a node answers with the block asked for), \<open>serves\<close> (\<open>eth_getLogs\<close> returns the
  logs of the range; \<open>serves_logs\<close> for the nodes of a client), \<open>good_platform\<close> (nodes answer with the
  header asked for, and heads are below the largest block number), \<open>hex_form\<close> (a checksummed address is the address up to case), \<open>keeps\<close> (the network
  does not touch the database), \<open>db_manager\<close> and \<open>tracker_tally\<close> (calls on the metrics do not touch the database, and
  nothing else touches what the calls of a tracker have set). There is no fuel; every recursion ends by a measure or is
  option-valued and proved to return.

  \<^bold>\<open>Not modelled.\<close> Log lines, which nothing reads back; the connections of the HTTP server and the Prometheus
  client; timers (a loop may turn at any time) and the closing of handles. In \<open>program_step\<close> a poll is one step:
  locks are not modelled, and the calls inside two polls of different goroutines do not interleave, except
  those of the alert manager in \<open>Race\<close>. Strings are sequences of bytes, and white space is that of ASCII.
\<close>

end
